(* ===== verification/Prelude.thy ===== *)
theory Prelude
  imports Main "HOL-Library.AList"
begin

text \<open>
  Shared vocabulary of the development.

  \<^item> Go strings and byte slices are lists of 8-bit characters (\<open>string\<close>): a Go string
    is a sequence of bytes, so \<open>length\<close> is Go's \<open>len\<close>.
  \<^item> Go's \<open>int64\<close> and \<open>time.Duration\<close> are \<open>int\<close>s, with \<open>wrap64\<close> written
    wherever the code's arithmetic can leave the 64-bit range.
  \<^item> Fallible code returns \<open>error + 'a\<close>, \<open>Inl\<close> being the error.
  \<^item> Concurrent components are step relations; \<open>reach\<close> is the set of states an
    interleaving can produce, and \<open>invariant_system\<close> is the interface through which every
    component proves its invariant.
\<close>

section \<open>Signed 64-bit arithmetic\<close>

type_synonym int64 = int

definition wrap64 :: "int \<Rightarrow> int64" where
  "wrap64 x = (x + 2 ^ 63) mod 2 ^ 64 - 2 ^ 63"

definition is_int64 :: "int \<Rightarrow> bool" where
  "is_int64 x \<longleftrightarrow> - (2 ^ 63) \<le> x \<and> x < 2 ^ 63"

abbreviation max_int64 :: int64 where
  "max_int64 \<equiv> 9223372036854775807"

abbreviation min_int64 :: int64 where
  "min_int64 \<equiv> - 9223372036854775808"

lemma wrap64_id: "is_int64 x \<Longrightarrow> wrap64 x = x"
  by (simp add: wrap64_def is_int64_def)

lemma is_int64_wrap64 [simp, intro]: "is_int64 (wrap64 x)"
proof -
  have "0 \<le> (x + 2 ^ 63) mod 2 ^ 64" and "(x + 2 ^ 63) mod 2 ^ 64 < 2 ^ 64"
    by (rule pos_mod_sign, simp) (rule pos_mod_bound, simp)
  then show ?thesis by (simp add: wrap64_def is_int64_def)
qed

lemma wrap64_wrap64 [simp]: "wrap64 (wrap64 x) = wrap64 x"
  by (rule wrap64_id) simp

lemma is_int64_between:
  "is_int64 b \<Longrightarrow> 0 \<le> a \<Longrightarrow> a \<le> b \<Longrightarrow> is_int64 a"
  by (simp add: is_int64_def)

section \<open>Sums as results\<close>

text \<open>The code's \<open>if err != nil { return err }\<close>.\<close>

fun andThen :: "'e + 'a \<Rightarrow> ('a \<Rightarrow> 'e + 'b) \<Rightarrow> 'e + 'b" where
  "andThen (Inl e) f = Inl e"
| "andThen (Inr x) f = f x"

lemma andThen_Inr_iff:
  "andThen r f = Inr y \<longleftrightarrow> (\<exists>x. r = Inr x \<and> f x = Inr y)"
  by (cases r) auto

fun isOk :: "'e + 'a \<Rightarrow> bool" where
  "isOk (Inl e) \<longleftrightarrow> False"
| "isOk (Inr x) \<longleftrightarrow> True"

section \<open>Interleavings: reachable states and invariants\<close>

inductive reach :: "'s \<Rightarrow> ('s \<Rightarrow> 's \<Rightarrow> bool) \<Rightarrow> 's \<Rightarrow> bool" for s0 step where
  reach_start: "reach s0 step s0"
| reach_step: "reach s0 step s \<Longrightarrow> step s t \<Longrightarrow> reach s0 step t"

lemma reach_trans:
  assumes "reach t step u" and "reach s step t"
  shows "reach s step u"
  using assms by (induction rule: reach.induct) (auto intro: reach_step)

lemma reach_one: "step s t \<Longrightarrow> reach s step t"
  by (rule reach_step [OF reach_start])

text \<open>
  A state machine together with a property that its first state has and every step keeps.
  Each concurrent component interprets it on its own step relation.
\<close>

locale invariant_system =
  fixes init :: "'s"
    and step :: "'s \<Rightarrow> 's \<Rightarrow> bool"
    and inv :: "'s \<Rightarrow> bool"
  assumes inv_init: "inv init"
    and inv_step: "step s t \<Longrightarrow> inv s \<Longrightarrow> inv t"
begin

lemma reach_inv: "reach init step s \<Longrightarrow> inv s"
  by (induction rule: reach.induct) (auto intro: inv_init inv_step)

lemma reach_from_inv: "reach s step t \<Longrightarrow> inv s \<Longrightarrow> inv t"
  by (induction rule: reach.induct) (auto intro: inv_step)

end

text \<open>
  A state machine that implements another: every step from a state with the invariant is one step of
  the specification, or none, between states that correspond.
\<close>

locale simulation = invariant_system +
  fixes spec_init :: "'a"
    and spec_step :: "'a \<Rightarrow> 'a \<Rightarrow> bool"
    and corresponds :: "'s \<Rightarrow> 'a \<Rightarrow> bool"
  assumes corresponds_init: "corresponds init spec_init"
    and corresponds_step:
      "step s t \<Longrightarrow> inv s \<Longrightarrow> corresponds s a \<Longrightarrow> \<exists>b. corresponds t b \<and> (b = a \<or> spec_step a b)"
begin

lemma reach_spec: "reach init step s \<Longrightarrow> \<exists>a. reach spec_init spec_step a \<and> corresponds s a"
proof (induction rule: reach.induct)
  case reach_start
  then show ?case using corresponds_init reach.reach_start by metis
next
  case (reach_step s t)
  then obtain a where a: "reach spec_init spec_step a" "corresponds s a" by blast
  obtain b where "corresponds t b" "b = a \<or> spec_step a b"
    using corresponds_step [OF reach_step.hyps(2) reach_inv [OF reach_step.hyps(1)] a(2)] by blast
  then show ?case using a(1) reach.reach_step by metis
qed

lemma step_spec:
  "reach init step s \<Longrightarrow> step s t \<Longrightarrow> corresponds s a \<Longrightarrow> \<exists>b. corresponds t b \<and> (b = a \<or> spec_step a b)"
  using corresponds_step reach_inv by blast

end

section \<open>Counting over finite families of goroutines\<close>

text \<open>
  Goroutines are numbered; \<open>updateAt f i x\<close> is the family after goroutine \<open>i\<close> moved.
  The lemmas say how the number of goroutines in a class of program points changes.
\<close>

lemma card_upd_enter:
  assumes "finite {i. P (f i)}" and "\<not> P (f i)" and "P x"
  shows "card {j. P ((f(i := x)) j)} = Suc (card {j. P (f j)})"
    and "finite {j. P ((f(i := x)) j)}"
proof -
  have "{j. P ((f(i := x)) j)} = insert i {j. P (f j)}" using assms by auto
  moreover have "i \<notin> {j. P (f j)}" using assms by simp
  ultimately show "card {j. P ((f(i := x)) j)} = Suc (card {j. P (f j)})"
    and "finite {j. P ((f(i := x)) j)}" using assms by simp_all
qed

lemma card_upd_leave:
  assumes "finite {i. P (f i)}" and "P (f i)" and "\<not> P x"
  shows "Suc (card {j. P ((f(i := x)) j)}) = card {j. P (f j)}"
    and "finite {j. P ((f(i := x)) j)}"
proof -
  have eq: "{j. P ((f(i := x)) j)} = {j. P (f j)} - {i}" using assms by auto
  have "i \<in> {j. P (f j)}" using assms by simp
  with assms(1) have "0 < card {j. P (f j)}" by (auto simp: card_gt_0_iff)
  moreover have "card ({j. P (f j)} - {i}) = card {j. P (f j)} - 1"
    using \<open>i \<in> {j. P (f j)}\<close> by (rule card_Diff_singleton)
  ultimately show "Suc (card {j. P ((f(i := x)) j)}) = card {j. P (f j)}"
    using eq by simp
  show "finite {j. P ((f(i := x)) j)}" using eq assms(1) by simp
qed

lemma upd_same_class:
  assumes "P (f i) = P x"
  shows "{j. P ((f(i := x)) j)} = {j. P (f j)}"
  using assms by auto

section \<open>Lists\<close>

lemma foldl_append_snoc: "foldl f a (xs @ [x]) = f (foldl f a xs) x"
  by simp

lemma map_of_filter_key:
  "map_of (filter (\<lambda>(k, v). P k) xs) k = (if P k then map_of xs k else None)"
  by (induction xs) auto

lemma take_while_prefix_eq:
  "length xs \<le> length ys \<Longrightarrow> take (length xs) ys = xs \<longleftrightarrow> (\<exists>zs. ys = xs @ zs)"
  by (metis append_eq_conv_conj append_take_drop_id)

text \<open>How the number of elements of a class changes when one element is replaced.\<close>

lemma length_filter_update:
  "i < length xs \<Longrightarrow>
    int (length (filter P (xs[i := x]))) = int (length (filter P xs)) + of_bool (P x) - of_bool (P (xs ! i))"
proof (induction xs arbitrary: i)
  case (Cons y ys)
  then show ?case by (cases i) auto
qed simp

lemma list_ex_update:
  "i < length xs \<Longrightarrow> \<not> P (xs ! i) \<Longrightarrow> list_ex P (xs[i := x]) \<longleftrightarrow> list_ex P xs \<or> P x"
proof (induction xs arbitrary: i)
  case (Cons y ys)
  then show ?case by (cases i) auto
qed simp

lemma list_ex_update_same:
  "i < length xs \<Longrightarrow> P (xs ! i) = P x \<Longrightarrow> list_ex P (xs[i := x]) \<longleftrightarrow> list_ex P xs"
proof (induction xs arbitrary: i)
  case (Cons y ys)
  then show ?case by (cases i) auto
qed simp

end
