(* ===== verification/Go_Strings.thy ===== *)
theory Go_Strings
  imports Prelude "HOL-Library.Sublist"
begin

text \<open>
  What the code uses of Go's \<open>strings\<close> package, and \<open>utils/convert.go\<close>, which is
  built on it: the \<open>;\<close>-separated lists that cross the FFI.
\<close>

section \<open>Splitting and joining on one byte\<close>

fun splitChar :: "char \<Rightarrow> string \<Rightarrow> string list" where
  "splitChar c [] = [[]]"
| "splitChar c (x # xs) =
     (if x = c then [] # splitChar c xs
      else (case splitChar c xs of [] \<Rightarrow> [[x]] | w # ws \<Rightarrow> (x # w) # ws))"

fun joinChar :: "char \<Rightarrow> string list \<Rightarrow> string" where
  "joinChar c [] = []"
| "joinChar c [w] = w"
| "joinChar c (w # v # ws) = w @ c # joinChar c (v # ws)"

lemma splitChar_not_Nil [simp]: "splitChar c s \<noteq> []"
  by (induction s) (auto split: list.split)

lemma splitChar_no_sep: "w \<in> set (splitChar c s) \<Longrightarrow> c \<notin> set w"
  by (induction s arbitrary: w) (auto split: list.splits if_splits)

lemma splitChar_plain: "c \<notin> set w \<Longrightarrow> splitChar c w = [w]"
  by (induction w) auto

lemma splitChar_append: "splitChar c (s @ c # t) = splitChar c s @ splitChar c t"
proof (induction s)
  case Nil
  then show ?case by simp
next
  case (Cons x xs)
  then show ?case by (cases "splitChar c xs") (auto split: list.split)
qed

lemma splitChar_Cons_sep: "splitChar c (c # t) = [] # splitChar c t"
  by simp

lemma joinChar_Cons: "ws \<noteq> [] \<Longrightarrow> joinChar c (w # ws) = w @ c # joinChar c ws"
  by (cases ws) auto

lemma joinChar_append:
  "xs \<noteq> [] \<Longrightarrow> ys \<noteq> [] \<Longrightarrow> joinChar c (xs @ ys) = joinChar c xs @ c # joinChar c ys"
  by (induction xs rule: joinChar.induct) (auto simp: joinChar_Cons)

lemma splitChar_joinChar:
  "ws \<noteq> [] \<Longrightarrow> \<forall>w \<in> set ws. c \<notin> set w \<Longrightarrow> splitChar c (joinChar c ws) = ws"
  by (induction ws rule: joinChar.induct) (auto simp: splitChar_plain splitChar_append)

lemma joinChar_splitChar: "joinChar c (splitChar c s) = s"
proof (induction s)
  case Nil
  then show ?case by simp
next
  case (Cons x xs)
  then show ?case
    by (cases "splitChar c xs") (auto simp: joinChar_Cons split: list.split, metis joinChar.simps(2) joinChar_Cons append_Cons)
qed

section \<open>strings.HasPrefix, TrimPrefix, Split, Join\<close>

definition HasPrefix :: "string \<Rightarrow> string \<Rightarrow> bool" where
  "HasPrefix s p \<longleftrightarrow> take (length p) s = p"

definition TrimPrefix :: "string \<Rightarrow> string \<Rightarrow> string" where
  "TrimPrefix s p = (if HasPrefix s p then drop (length p) s else s)"

lemma HasPrefix_append [simp]: "HasPrefix (p @ s) p"
  by (simp add: HasPrefix_def)

lemma HasPrefix_iff: "HasPrefix s p \<longleftrightarrow> (\<exists>t. s = p @ t)"
  by (metis HasPrefix_def append_eq_conv_conj append_take_drop_id)

fun strings_Join :: "string list \<Rightarrow> string \<Rightarrow> string" where
  "strings_Join [] sep = []"
| "strings_Join [w] sep = w"
| "strings_Join (w # v # ws) sep = w @ sep @ strings_Join (v # ws) sep"

text \<open>\<open>splitSep c p acc s\<close> splits \<open>s\<close> at the leftmost occurrences of \<open>c # p\<close>.\<close>

function splitSep :: "char \<Rightarrow> string \<Rightarrow> string \<Rightarrow> string \<Rightarrow> string list" where
  "splitSep c p acc [] = [acc]"
| "splitSep c p acc (x # xs) =
     (if x = c \<and> HasPrefix xs p then acc # splitSep c p [] (drop (length p) xs)
      else splitSep c p (acc @ [x]) xs)"
  by pat_completeness auto
termination
  by (relation "measure (\<lambda>(c, p, acc, s). length s)") auto

text \<open>
  An empty separator explodes the string into its UTF-8 sequences; \<open>runeLen\<close> is the
  size \<open>utf8.DecodeRuneInString\<close> reports, 1 for an invalid sequence.
\<close>

definition byteIn :: "nat \<Rightarrow> nat \<Rightarrow> char \<Rightarrow> bool" where
  "byteIn lo hi c \<longleftrightarrow> lo \<le> of_char c \<and> of_char c \<le> hi"

fun runeLen :: "string \<Rightarrow> nat" where
  "runeLen (a # b # c # d # s) =
     (if byteIn 0xC2 0xDF a \<and> byteIn 0x80 0xBF b then 2
      else if (byteIn 0xE0 0xE0 a \<and> byteIn 0xA0 0xBF b \<or> byteIn 0xE1 0xEC a \<and> byteIn 0x80 0xBF b
               \<or> byteIn 0xED 0xED a \<and> byteIn 0x80 0x9F b \<or> byteIn 0xEE 0xEF a \<and> byteIn 0x80 0xBF b)
              \<and> byteIn 0x80 0xBF c then 3
      else if (byteIn 0xF0 0xF0 a \<and> byteIn 0x90 0xBF b \<or> byteIn 0xF1 0xF3 a \<and> byteIn 0x80 0xBF b
               \<or> byteIn 0xF4 0xF4 a \<and> byteIn 0x80 0x8F b)
              \<and> byteIn 0x80 0xBF c \<and> byteIn 0x80 0xBF d then 4
      else 1)"
| "runeLen [a, b, c] =
     (if byteIn 0xC2 0xDF a \<and> byteIn 0x80 0xBF b then 2
      else if (byteIn 0xE0 0xE0 a \<and> byteIn 0xA0 0xBF b \<or> byteIn 0xE1 0xEC a \<and> byteIn 0x80 0xBF b
               \<or> byteIn 0xED 0xED a \<and> byteIn 0x80 0x9F b \<or> byteIn 0xEE 0xEF a \<and> byteIn 0x80 0xBF b)
              \<and> byteIn 0x80 0xBF c then 3
      else 1)"
| "runeLen [a, b] = (if byteIn 0xC2 0xDF a \<and> byteIn 0x80 0xBF b then 2 else 1)"
| "runeLen [a] = 1"
| "runeLen [] = 0"

lemma runeLen_pos: "s \<noteq> [] \<Longrightarrow> 0 < runeLen s"
  by (cases s rule: runeLen.cases) auto

function explode :: "string \<Rightarrow> string list" where
  "explode s = (if s = [] then [] else take (runeLen s) s # explode (drop (runeLen s) s))"
  by pat_completeness auto
termination
  by (relation "measure length") (auto simp: runeLen_pos)

declare explode.simps [simp del]

fun strings_Split :: "string \<Rightarrow> string \<Rightarrow> string list" where
  "strings_Split s [] = explode s"
| "strings_Split s (c # p) = splitSep c p [] s"

lemma splitSep_char:
  "splitSep c [] acc s = (case splitChar c s of [] \<Rightarrow> [acc] | w # ws \<Rightarrow> (acc @ w) # ws)"
proof (induction s arbitrary: acc)
  case Nil
  then show ?case by simp
next
  case (Cons x xs)
  then show ?case by (cases "splitChar c xs") (auto simp: HasPrefix_def split: list.split)
qed

lemma strings_Split_char [simp]: "splitSep c [] [] s = splitChar c s"
  by (cases "splitChar c s") (auto simp: splitSep_char)

section \<open>strings.TrimSpace\<close>

text \<open>The UTF-8 encodings of the code points \<open>unicode.IsSpace\<close> accepts.\<close>

definition spaceEncodings :: "string list" where
  "spaceEncodings =
     [[CHR 0x09], [CHR 0x0A], [CHR 0x0B], [CHR 0x0C], [CHR 0x0D], [CHR 0x20],
      [CHR 0xC2, CHR 0x85], [CHR 0xC2, CHR 0xA0], [CHR 0xE1, CHR 0x9A, CHR 0x80],
      [CHR 0xE2, CHR 0x80, CHR 0x80], [CHR 0xE2, CHR 0x80, CHR 0x81],
      [CHR 0xE2, CHR 0x80, CHR 0x82], [CHR 0xE2, CHR 0x80, CHR 0x83],
      [CHR 0xE2, CHR 0x80, CHR 0x84], [CHR 0xE2, CHR 0x80, CHR 0x85],
      [CHR 0xE2, CHR 0x80, CHR 0x86], [CHR 0xE2, CHR 0x80, CHR 0x87],
      [CHR 0xE2, CHR 0x80, CHR 0x88], [CHR 0xE2, CHR 0x80, CHR 0x89],
      [CHR 0xE2, CHR 0x80, CHR 0x8A], [CHR 0xE2, CHR 0x80, CHR 0xA8],
      [CHR 0xE2, CHR 0x80, CHR 0xA9], [CHR 0xE2, CHR 0x80, CHR 0xAF],
      [CHR 0xE2, CHR 0x81, CHR 0x9F], [CHR 0xE3, CHR 0x80, CHR 0x80]]"

function trimWith :: "string list \<Rightarrow> string \<Rightarrow> string" where
  "trimWith encs s =
     (case List.find (\<lambda>e. e \<noteq> [] \<and> HasPrefix s e) encs of
        None \<Rightarrow> s
      | Some e \<Rightarrow> trimWith encs (drop (length e) s))"
  by pat_completeness auto
termination
  by (relation "measure (\<lambda>(encs, s). length s)") (auto simp: find_Some_iff HasPrefix_iff)

declare trimWith.simps [simp del]

definition TrimSpace :: "string \<Rightarrow> string" where
  "TrimSpace s =
     rev (trimWith (map rev spaceEncodings) (rev (trimWith spaceEncodings s)))"

definition startsWithAny :: "string list \<Rightarrow> string \<Rightarrow> bool" where
  "startsWithAny encs s \<longleftrightarrow> (\<exists>e \<in> set encs. e \<noteq> [] \<and> HasPrefix s e)"

definition trimmed :: "string \<Rightarrow> bool" where
  "trimmed s \<longleftrightarrow>
     \<not> startsWithAny spaceEncodings s \<and> \<not> startsWithAny (map rev spaceEncodings) (rev s)"

lemma trimWith_stops: "\<not> startsWithAny encs s \<Longrightarrow> trimWith encs s = s"
proof -
  assume "\<not> startsWithAny encs s"
  then have "List.find (\<lambda>e. e \<noteq> [] \<and> HasPrefix s e) encs = None"
    by (auto simp: find_None_iff startsWithAny_def)
  then show ?thesis by (subst trimWith.simps) simp
qed

lemma trimWith_done: "\<not> startsWithAny encs (trimWith encs s)"
proof (induction encs s rule: trimWith.induct)
  case (1 encs s)
  show ?case
  proof (cases "List.find (\<lambda>e. e \<noteq> [] \<and> HasPrefix s e) encs")
    case None
    then have "trimWith encs s = s" by (simp add: trimWith.simps [of encs s])
    with None show ?thesis by (auto simp: find_None_iff startsWithAny_def)
  next
    case (Some e)
    then show ?thesis using "1.IH" [OF Some] by (simp add: trimWith.simps [of encs s])
  qed
qed

lemma trimWith_suffix: "\<exists>p. s = p @ trimWith encs s"
proof (induction encs s rule: trimWith.induct)
  case (1 encs s)
  show ?case
  proof (cases "List.find (\<lambda>e. e \<noteq> [] \<and> HasPrefix s e) encs")
    case None
    then show ?thesis by (subst trimWith.simps) simp
  next
    case (Some e)
    then obtain p where "drop (length e) s = p @ trimWith encs (drop (length e) s)"
      using "1.IH" [OF Some] by blast
    then have "s = (take (length e) s @ p) @ trimWith encs (drop (length e) s)"
      by (metis append.assoc append_take_drop_id)
    moreover have "trimWith encs s = trimWith encs (drop (length e) s)"
      using Some by (simp add: trimWith.simps [of encs s])
    ultimately show ?thesis by metis
  qed
qed

lemma trimmed_nil: "trimmed []"
  by (auto simp: trimmed_def startsWithAny_def HasPrefix_def)

lemma TrimSpace_trimmed: "trimmed s \<Longrightarrow> TrimSpace s = s"
  by (simp add: TrimSpace_def trimmed_def trimWith_stops)

lemma startsWithAny_append: "startsWithAny encs s \<Longrightarrow> startsWithAny encs (s @ t)"
  by (auto simp: startsWithAny_def HasPrefix_iff)

lemma trimmed_TrimSpace: "trimmed (TrimSpace s)"
proof -
  let ?l = "trimWith spaceEncodings s"
  let ?r = "trimWith (map rev spaceEncodings) (rev ?l)"
  obtain p where p: "rev ?l = p @ ?r" using trimWith_suffix by blast
  then have "?l = rev ?r @ rev p" by (metis rev_append rev_rev_ident)
  then have "\<not> startsWithAny spaceEncodings (rev ?r)"
    using trimWith_done [of spaceEncodings s] startsWithAny_append by metis
  then show ?thesis
    using trimWith_done [of "map rev spaceEncodings" "rev ?l"]
    by (simp add: trimmed_def TrimSpace_def)
qed

lemma set_TrimSpace: "set (TrimSpace s) \<subseteq> set s"
proof -
  have sub: "set (trimWith encs t) \<subseteq> set t" for encs t
    by (metis trimWith_suffix set_append Un_upper2)
  show ?thesis
    unfolding TrimSpace_def using sub [of spaceEncodings s]
      sub [of "map rev spaceEncodings" "rev (trimWith spaceEncodings s)"]
    by auto
qed

section \<open>utils.GetStringSlice\<close>

text \<open>
  \<open>args\<close> is Go's variadic tail: its first element, when there is one, replaces the
  default delimiter.
\<close>

definition GetStringSlice :: "string \<Rightarrow> string list \<Rightarrow> string list" where
  "GetStringSlice concatenated args =
     (let delimiter = (if args = [] then '';'' else hd args);
          split = strings_Split concatenated delimiter
      in filter (\<lambda>e. e \<noteq> []) (map TrimSpace split))"

lemma GetStringSlice_default: "GetStringSlice s [] = filter (\<lambda>e. e \<noteq> []) (map TrimSpace (splitChar CHR '';'' s))"
  by (simp add: GetStringSlice_def)

lemma GetStringSlice_entry:
  assumes "w \<in> set (GetStringSlice s [])"
  shows "w \<noteq> []" and "trimmed w" and "CHR '';'' \<notin> set w"
proof -
  from assms obtain v where "v \<in> set (splitChar CHR '';'' s)" and "w = TrimSpace v" and "w \<noteq> []"
    by (auto simp: GetStringSlice_default)
  then show "w \<noteq> []" and "trimmed w" and "CHR '';'' \<notin> set w"
    using trimmed_TrimSpace splitChar_no_sep set_TrimSpace by blast+
qed

definition listEntry :: "string \<Rightarrow> bool" where
  "listEntry w \<longleftrightarrow> w \<noteq> [] \<and> trimmed w \<and> CHR '';'' \<notin> set w"

lemma listEntry_slice:
  assumes ok: "list_all listEntry ws"
  shows "GetStringSlice (joinChar CHR '';'' ws) [] = ws"
proof (cases ws)
  case Nil
  then show ?thesis by (simp add: GetStringSlice_default TrimSpace_trimmed trimmed_nil)
next
  case (Cons v vs)
  with ok have "splitChar CHR '';'' (joinChar CHR '';'' ws) = ws"
    by (intro splitChar_joinChar) (auto simp: list_all_iff listEntry_def)
  moreover from ok have "map TrimSpace ws = ws" and "filter (\<lambda>e. e \<noteq> []) ws = ws"
    by (auto simp: list_all_iff listEntry_def TrimSpace_trimmed intro!: map_idI)
  ultimately show ?thesis by (simp add: GetStringSlice_default)
qed

text \<open>
  Round trip of the lists that cross the FFI: joining entries with \<open>;\<close>, as the Kotlin
  wrapper does, and reading them back with \<open>GetStringSlice\<close> gives the entries, in order and
  with duplicates, provided each is non-empty, has no surrounding white space and holds no
  delimiter; conversely whatever \<open>GetStringSlice\<close> returns, on any input, is such a list.
\<close>

theorem GetStringSlice_roundtrip:
  "(list_all listEntry ws \<longrightarrow> GetStringSlice (joinChar CHR '';'' ws) [] = ws)
   \<and> list_all listEntry (GetStringSlice s [])"
  using listEntry_slice [of ws] GetStringSlice_entry [of _ s] by (auto simp: list_all_iff listEntry_def)

theorem GetStringSlice_roundtrip_witness:
  "GetStringSlice (joinChar CHR '';'' [''a'', ''b c'', ''a'']) [] = [''a'', ''b c'', ''a'']"
proof -
  have "list_all listEntry [''a'', ''b c'', ''a'']"
    by (simp add: listEntry_def trimmed_def startsWithAny_def spaceEncodings_def HasPrefix_def)
  then show ?thesis using GetStringSlice_roundtrip by blast
qed

end
