(* ===== verification/Go_Path.thy ===== *)
theory Go_Path
  imports Go_Strings
begin

text \<open>
  What the code uses of \<open>path/filepath\<close> on the platforms it is built for (the separator
  is \<open>/\<close>, so \<open>FromSlash\<close> and \<open>ToSlash\<close> are the identity): \<open>Clean\<close>,
  \<open>Join\<close>, \<open>Dir\<close>, \<open>Base\<close>, and the lemmas about them that the
  staging code rests on.
\<close>

section \<open>Clean\<close>

text \<open>
  \<open>pushElem\<close> is one round of \<open>Clean\<close>'s loop; the stack holds the elements kept so far,
  last one first.
\<close>

fun pushElem :: "bool \<Rightarrow> string list \<Rightarrow> string \<Rightarrow> string list" where
  "pushElem rooted st e =
     (if e = [] \<or> e = ''.'' then st
      else if e = ''..'' then
        (case st of
           [] \<Rightarrow> (if rooted then [] else [''..''])
         | t # st' \<Rightarrow> (if t = ''..'' then ''..'' # st else st'))
      else e # st)"

definition isRooted :: "string \<Rightarrow> bool" where
  "isRooted p \<longleftrightarrow> p \<noteq> [] \<and> hd p = CHR ''/''"

definition cleanStack :: "string \<Rightarrow> string list" where
  "cleanStack p = foldl (pushElem (isRooted p)) [] (splitChar CHR ''/'' p)"

definition renderPath :: "bool \<Rightarrow> string list \<Rightarrow> string" where
  "renderPath rooted es =
     (if rooted then CHR ''/'' # joinChar CHR ''/'' es
      else if es = [] then ''.'' else joinChar CHR ''/'' es)"

definition Clean :: "string \<Rightarrow> string" where
  "Clean p = renderPath (isRooted p) (rev (cleanStack p))"

section \<open>Join, Dir, Base\<close>

definition Join :: "string \<Rightarrow> string \<Rightarrow> string" where
  "Join a b =
     (if a \<noteq> [] then Clean (a @ CHR ''/'' # b) else if b \<noteq> [] then Clean b else [])"

text \<open>\<open>Dir\<close> cleans everything up to and including the last separator.\<close>

fun upToLastSlash :: "string \<Rightarrow> string" where
  "upToLastSlash [] = []"
| "upToLastSlash (c # cs) =
     (if CHR ''/'' \<in> set (c # cs) then c # upToLastSlash cs else [])"

definition Dir :: "string \<Rightarrow> string" where
  "Dir p = Clean (upToLastSlash p)"

definition stripSlashes :: "string \<Rightarrow> string" where
  "stripSlashes p = rev (dropWhile (\<lambda>c. c = CHR ''/'') (rev p))"

definition Base :: "string \<Rightarrow> string" where
  "Base p =
     (if p = [] then ''.''
      else let e = last (splitChar CHR ''/'' (stripSlashes p)) in if e = [] then ''/'' else e)"

section \<open>Plain elements\<close>

text \<open>An element that names an entry of the directory it is joined to, and nothing else.\<close>

definition plainElem :: "string \<Rightarrow> bool" where
  "plainElem e \<longleftrightarrow> e \<noteq> [] \<and> e \<noteq> ''.'' \<and> e \<noteq> ''..'' \<and> CHR ''/'' \<notin> set e"

lemma pushElem_plain [simp]: "plainElem e \<Longrightarrow> pushElem r st e = e # st"
  by (simp add: plainElem_def)

lemma pushElem_Nil [simp]: "pushElem r st [] = st"
  by simp

declare pushElem.simps [simp del]

lemma foldl_pushElem_plain:
  "list_all plainElem es \<Longrightarrow> foldl (pushElem r) st es = rev es @ st"
  by (induction es arbitrary: st) auto

lemma pushElem_rooted_plain:
  "list_all plainElem st \<Longrightarrow> CHR ''/'' \<notin> set e \<Longrightarrow> list_all plainElem (pushElem True st e)"
  by (auto simp: pushElem.simps plainElem_def split: list.splits)

lemma foldl_pushElem_rooted_plain:
  "list_all plainElem st \<Longrightarrow> \<forall>e \<in> set es. CHR ''/'' \<notin> set e \<Longrightarrow>
     list_all plainElem (foldl (pushElem True) st es)"
  by (induction es arbitrary: st) (auto simp: pushElem_rooted_plain)

text \<open>An absolute path is cleaned to plain elements only: no \<open>..\<close> survives.\<close>

lemma cleanStack_rooted_plain: "isRooted p \<Longrightarrow> list_all plainElem (cleanStack p)"
  unfolding cleanStack_def
  using foldl_pushElem_rooted_plain [of "[]" "splitChar CHR ''/'' p"] splitChar_no_sep
  by auto

text \<open>Every stack element is free of separators and is not \<open>.\<close> or empty.\<close>

definition stackElem :: "string \<Rightarrow> bool" where
  "stackElem e \<longleftrightarrow> e \<noteq> [] \<and> e \<noteq> ''.'' \<and> CHR ''/'' \<notin> set e"

lemma pushElem_stackElem:
  "list_all stackElem st \<Longrightarrow> CHR ''/'' \<notin> set e \<Longrightarrow> list_all stackElem (pushElem r st e)"
  by (auto simp: pushElem.simps stackElem_def split: list.splits)

lemma foldl_pushElem_stackElem:
  "list_all stackElem st \<Longrightarrow> \<forall>e \<in> set es. CHR ''/'' \<notin> set e \<Longrightarrow>
     list_all stackElem (foldl (pushElem r) st es)"
  by (induction es arbitrary: st) (auto simp: pushElem_stackElem)

lemma cleanStack_stackElem: "list_all stackElem (cleanStack p)"
  unfolding cleanStack_def
  using foldl_pushElem_stackElem [of "[]" "splitChar CHR ''/'' p"] splitChar_no_sep by auto

lemma stackElem_no_sep: "list_all stackElem es \<Longrightarrow> \<forall>e \<in> set es. CHR ''/'' \<notin> set e"
  by (auto simp: list_all_iff stackElem_def)

lemma plainElem_stackElem: "plainElem e \<Longrightarrow> stackElem e"
  by (simp add: plainElem_def stackElem_def)

lemma list_all_plain_stack: "list_all plainElem es \<Longrightarrow> list_all stackElem es"
  by (auto simp: list_all_iff plainElem_stackElem)

section \<open>Cleaning is idempotent\<close>

text \<open>
  A stack as \<open>Clean\<close> builds it: plain elements on top of the \<open>..\<close> elements a
  relative path may start with.
\<close>

definition goodStack :: "bool \<Rightarrow> string list \<Rightarrow> bool" where
  "goodStack r st \<longleftrightarrow>
     list_all plainElem (takeWhile (\<lambda>e. e \<noteq> ''..'') st)
     \<and> list_all (\<lambda>e. e = ''..'') (dropWhile (\<lambda>e. e \<noteq> ''..'') st)
     \<and> (r \<longrightarrow> ''..'' \<notin> set st)"

lemma goodStack_Nil [simp]: "goodStack r []"
  by (simp add: goodStack_def)

lemma goodStack_Cons:
  "goodStack r (e # st) \<longleftrightarrow>
     (if e = ''..'' then \<not> r \<and> list_all (\<lambda>e. e = ''..'') st else plainElem e \<and> goodStack r st)"
proof (cases "e = ''..''")
  case True
  have "list_all (\<lambda>e. e = ''..'') st \<Longrightarrow> takeWhile (\<lambda>e. e \<noteq> ''..'') st = []"
    by (cases st) auto
  with True show ?thesis by (auto simp: goodStack_def)
qed (auto simp: goodStack_def)

lemma goodStack_pushElem:
  assumes "goodStack r st" and "CHR ''/'' \<notin> set e"
  shows "goodStack r (pushElem r st e)"
proof (cases st)
  case Nil
  then show ?thesis using assms by (auto simp: pushElem.simps goodStack_Cons plainElem_def)
next
  case (Cons t st')
  have "goodStack r st'" if "t \<noteq> ''..''" using assms that by (simp add: Cons goodStack_Cons)
  then show ?thesis using assms Cons
    by (auto simp: pushElem.simps goodStack_Cons plainElem_def)
qed

lemma goodStack_foldl:
  "goodStack r st \<Longrightarrow> \<forall>e \<in> set es. CHR ''/'' \<notin> set e \<Longrightarrow> goodStack r (foldl (pushElem r) st es)"
  by (induction es arbitrary: st) (auto simp: goodStack_pushElem)

lemma goodStack_cleanStack: "goodStack (isRooted p) (cleanStack p)"
  unfolding cleanStack_def using splitChar_no_sep by (intro goodStack_foldl) auto

text \<open>Pushing the elements of such a stack again rebuilds it.\<close>

lemma foldl_pushElem_goodStack:
  "goodStack r st \<Longrightarrow> foldl (pushElem r) [] (rev st) = st"
proof (induction st)
  case Nil
  then show ?case by simp
next
  case (Cons e st)
  show ?case
  proof (cases "e = ''..''")
    case True
    with Cons.prems have dots: "list_all (\<lambda>e. e = ''..'') st" and "\<not> r"
      by (simp_all add: goodStack_Cons)
    then have "goodStack r st" by (cases st) (auto simp: goodStack_Cons)
    with Cons.IH have "foldl (pushElem r) [] (rev st) = st" by simp
    then have "foldl (pushElem r) [] (rev (e # st)) = pushElem r st e" by simp
    also have "\<dots> = e # st" using True dots \<open>\<not> r\<close> by (cases st) (auto simp: pushElem.simps)
    finally show ?thesis .
  next
    case False
    with Cons.prems have "plainElem e" and "goodStack r st" by (simp_all add: goodStack_Cons)
    with Cons.IH show ?thesis by simp
  qed
qed

lemma goodStack_stackElem: "goodStack r st \<Longrightarrow> list_all stackElem st"
proof (induction st)
  case Nil
  then show ?case by simp
next
  case (Cons e st)
  show ?case
  proof (cases "e = ''..''")
    case True
    with Cons.prems have "list_all (\<lambda>e. e = ''..'') (e # st)" by (simp add: goodStack_Cons)
    then show ?thesis by (auto simp: list_all_iff stackElem_def)
  next
    case False
    with Cons show ?thesis by (simp add: goodStack_Cons plainElem_stackElem)
  qed
qed

lemma isRooted_joinChar:
  assumes "list_all stackElem es"
  shows "\<not> isRooted (joinChar CHR ''/'' es)"
proof (cases es)
  case Nil
  then show ?thesis by (simp add: isRooted_def)
next
  case (Cons w ws)
  with assms have "stackElem w" by simp
  then obtain c cs where w: "w = c # cs" and "c \<noteq> CHR ''/''"
    by (cases w) (auto simp: stackElem_def)
  then have "hd (joinChar CHR ''/'' es) = c" by (cases ws) (simp_all add: Cons)
  with \<open>c \<noteq> CHR ''/''\<close> show ?thesis by (simp add: isRooted_def)
qed

lemma isRooted_renderPath:
  "list_all stackElem es \<Longrightarrow> isRooted (renderPath r es) = r"
proof (cases r)
  case True
  then show ?thesis by (simp add: renderPath_def isRooted_def)
next
  case False
  assume "list_all stackElem es"
  then have "\<not> isRooted (joinChar CHR ''/'' es)" by (rule isRooted_joinChar)
  with False show ?thesis by (auto simp: renderPath_def isRooted_def)
qed

text \<open>The elements pushed by a rendered path: one empty element in front when it is rooted.\<close>

lemma foldl_pushElem_renderPath:
  assumes "list_all stackElem es"
  shows "foldl (pushElem q) st (splitChar CHR ''/'' (renderPath r es)) = foldl (pushElem q) st es"
proof (cases "es = []")
  case True
  then show ?thesis by (simp add: renderPath_def pushElem.simps)
next
  case False
  then have "splitChar CHR ''/'' (joinChar CHR ''/'' es) = es"
    using assms by (intro splitChar_joinChar stackElem_no_sep) auto
  with False show ?thesis by (simp add: renderPath_def)
qed

lemma cleanStack_renderPath:
  assumes "goodStack r st"
  shows "cleanStack (renderPath r (rev st)) = st"
proof -
  have se: "list_all stackElem (rev st)" using goodStack_stackElem [OF assms] by simp
  then show ?thesis
    using foldl_pushElem_goodStack [OF assms] isRooted_renderPath [OF se]
    by (simp add: cleanStack_def foldl_pushElem_renderPath)
qed

lemma Clean_Clean [simp]: "Clean (Clean p) = Clean p"
proof -
  have "cleanStack (Clean p) = cleanStack p"
    unfolding Clean_def by (rule cleanStack_renderPath) (rule goodStack_cleanStack)
  moreover have "isRooted (Clean p) = isRooted p"
    unfolding Clean_def by (rule isRooted_renderPath) (simp add: cleanStack_stackElem)
  ultimately show ?thesis by (simp add: Clean_def)
qed

section \<open>Joining plain elements to a directory\<close>

lemma cleanStack_append:
  assumes "a \<noteq> []"
  shows "cleanStack (a @ CHR ''/'' # b)
    = foldl (pushElem (isRooted a)) (cleanStack a) (splitChar CHR ''/'' b)"
  using assms by (simp add: cleanStack_def isRooted_def splitChar_append)

text \<open>
  Joining a relative or absolute rendering of plain elements to a non-empty directory
  appends them to its cleaned elements.
\<close>

lemma Join_plain:
  assumes "a \<noteq> []" and "list_all plainElem es"
  shows "Join a (renderPath r es) = renderPath (isRooted a) (rev (cleanStack a) @ es)"
proof -
  have "cleanStack (a @ CHR ''/'' # renderPath r es) = rev es @ cleanStack a"
    using assms by (simp add: cleanStack_append foldl_pushElem_renderPath
        list_all_plain_stack foldl_pushElem_plain)
  with assms(1) show ?thesis by (simp add: Join_def Clean_def isRooted_def)
qed

lemma Join_plain_elem:
  "a \<noteq> [] \<Longrightarrow> plainElem e \<Longrightarrow>
     Join a e = renderPath (isRooted a) (rev (cleanStack a) @ [e])"
  using Join_plain [of a "[e]" False] by (simp add: renderPath_def)

text \<open>
  A staging directory in clean form that is neither \<open>.\<close> nor \<open>/\<close>: joining plain
  elements to it extends it by a separator and the elements.
\<close>

definition properDir :: "string \<Rightarrow> bool" where
  "properDir d \<longleftrightarrow> Clean d = d \<and> d \<noteq> ''.'' \<and> d \<noteq> ''/''"

lemma properDir_stack:
  assumes "properDir d"
  shows "d \<noteq> []" and "cleanStack d \<noteq> []" and "d = renderPath (isRooted d) (rev (cleanStack d))"
proof -
  have c: "d = renderPath (isRooted d) (rev (cleanStack d))"
    using assms by (simp add: properDir_def Clean_def)
  then show "d = renderPath (isRooted d) (rev (cleanStack d))" .
  show "cleanStack d \<noteq> []"
  proof
    assume "cleanStack d = []"
    with c have "d = (if isRooted d then ''/'' else ''.'')"
      by (simp add: renderPath_def split: if_splits)
    with assms show False by (auto simp: properDir_def split: if_splits)
  qed
  show "d \<noteq> []" using assms by (auto simp: properDir_def Clean_def renderPath_def isRooted_def cleanStack_def)
qed

lemma renderPath_append:
  "xs \<noteq> [] \<Longrightarrow> ys \<noteq> [] \<Longrightarrow> renderPath r (xs @ ys) = renderPath r xs @ CHR ''/'' # joinChar CHR ''/'' ys"
  by (simp add: renderPath_def joinChar_append)

lemma Join_properDir:
  assumes "properDir d" and "list_all plainElem es" and "es \<noteq> []"
  shows "Join d (renderPath r es) = d @ CHR ''/'' # joinChar CHR ''/'' es"
proof -
  note d = properDir_stack [OF assms(1)]
  have "Join d (renderPath r es) = renderPath (isRooted d) (rev (cleanStack d) @ es)"
    using d(1) assms(2) by (rule Join_plain)
  also have "\<dots> = renderPath (isRooted d) (rev (cleanStack d)) @ CHR ''/'' # joinChar CHR ''/'' es"
    using d(2) assms(3) by (intro renderPath_append) auto
  finally show ?thesis using d(3) by simp
qed

lemma Join_properDir_elem:
  "properDir d \<Longrightarrow> plainElem e \<Longrightarrow> Join d e = d @ CHR ''/'' # e"
  using Join_properDir [of d "[e]" False] by (simp add: renderPath_def)

lemma properDir_Join:
  assumes "properDir d" and "plainElem e"
  shows "properDir (Join d e)"
proof -
  have c: "Clean (Join d e) = Join d e"
    using properDir_stack(1) [OF assms(1)] by (simp add: Join_def)
  have "length (Join d e) \<ge> 3"
    using assms properDir_stack(1) [OF assms(1)]
    by (cases d; cases e) (auto simp: Join_properDir_elem plainElem_def)
  with c show ?thesis by (auto simp: properDir_def)
qed

lemma Clean_not_Nil: "p \<noteq> [] \<Longrightarrow> Clean p \<noteq> []"
proof
  assume "p \<noteq> []" and c: "Clean p = []"
  then have ne: "\<not> isRooted p" "cleanStack p \<noteq> []" "joinChar CHR ''/'' (rev (cleanStack p)) = []"
    by (auto simp: Clean_def renderPath_def split: if_splits)
  then have "splitChar CHR ''/'' (joinChar CHR ''/'' (rev (cleanStack p))) = rev (cleanStack p)"
    using cleanStack_stackElem [of p] by (intro splitChar_joinChar stackElem_no_sep) auto
  with ne(3) have "[] \<in> set (rev (cleanStack p))" by (metis list.set_intros(1) splitChar.simps(1))
  then show False using cleanStack_stackElem [of p] by (auto simp: list_all_iff stackElem_def)
qed

text \<open>A clean relative path never starts with \<open>./\<close>.\<close>

lemma Clean_not_dot_slash: "\<not> HasPrefix (Clean p) ''./''"
proof
  assume pre: "HasPrefix (Clean p) ''./''"
  show False
  proof (cases "isRooted p")
    case True
    with pre show False by (simp add: Clean_def renderPath_def HasPrefix_def)
  next
    case False
    let ?es = "rev (cleanStack p)"
    have ne: "?es \<noteq> []"
      using pre False by (auto simp: Clean_def renderPath_def HasPrefix_def split: if_splits)
    then have "splitChar CHR ''/'' (Clean p) = ?es"
      using False cleanStack_stackElem [of p] stackElem_no_sep [of ?es]
      by (simp add: Clean_def renderPath_def splitChar_joinChar)
    moreover obtain t where "Clean p = ''./'' @ t" using pre by (auto simp: HasPrefix_iff)
    ultimately have "?es = ''.'' # splitChar CHR ''/'' t" by simp
    then have "''.'' \<in> set (cleanStack p)" by (metis list.set_intros(1) set_rev)
    with cleanStack_stackElem [of p] show False by (auto simp: list_all_iff stackElem_def)
  qed
qed

lemma upToLastSlash_eq: "CHR ''/'' \<notin> set x \<Longrightarrow> upToLastSlash (a @ CHR ''/'' # x) = a @ ''/''"
proof (induction a)
  case Nil
  then show ?case by (cases x) auto
qed auto

end
