(* ===== verification/Go_Errors.thy ===== *)
theory Go_Errors
  imports Prelude
begin

text \<open>
  The errors the client package creates and inspects: \<open>client.go\<close>'s \<open>ErrClosed\<close>,
  \<open>fallback.go\<close>'s \<open>SizeLimitError\<close>, \<open>utils/errors.go\<close>'s \<open>Timeout\<close>, the
  context and operating system errors it passes on, and the wrapping done by
  \<open>fmt.Errorf("... %w")\<close> and \<open>errors.Join\<close>. \<open>errors.Is\<close> and \<open>errors.As\<close>
  are the standard library's depth-first walks over that wrapping.
\<close>

section \<open>Error values\<close>

datatype io_error =
    ENOENT | EEXIST | ENOTDIR | EISDIR | ENOTEMPTY | EINVAL

datatype error =
    ErrClosed
  | SizeLimitError int64 int64
  | TimeoutError
  | Canceled
  | OsError string string io_error
  | Errorf string "string list"
  | Wrapped string error
  | Joined "error list"

text \<open>\<open>utils.Timeout\<close>: an error whose message is \<open>timeout\<close>.\<close>

definition Timeout :: error where
  "Timeout = TimeoutError"

section \<open>Contexts\<close>

text \<open>
  What \<open>ctx.Err()\<close> reports: nothing while the context is live, then why it ended.
  \<open>contextError\<close> of \<open>client.go\<close> maps that onto the error the caller sees.
\<close>

datatype ctxState = CtxLive | DeadlineExceeded | CtxCanceled

definition contextError :: "ctxState \<Rightarrow> error option" where
  "contextError ctx =
     (case ctx of
        DeadlineExceeded \<Rightarrow> Some Timeout
      | CtxCanceled \<Rightarrow> Some Canceled
      | CtxLive \<Rightarrow> None)"

lemma contextError_None [simp]: "contextError ctx = None \<longleftrightarrow> ctx = CtxLive"
  by (cases ctx) (simp_all add: contextError_def)

lemma contextError_Some [simp]: "(\<exists>e. contextError ctx = Some e) \<longleftrightarrow> ctx \<noteq> CtxLive"
  by (cases ctx) (simp_all add: contextError_def)

section \<open>errors.Is and errors.As\<close>

fun errorsIs :: "error \<Rightarrow> error \<Rightarrow> bool" where
  "errorsIs (Wrapped m e) target \<longleftrightarrow> Wrapped m e = target \<or> errorsIs e target"
| "errorsIs (Joined es) target \<longleftrightarrow> Joined es = target \<or> (\<exists>e \<in> set es. errorsIs e target)"
| "errorsIs e target \<longleftrightarrow> e = target"

text \<open>
  \<open>errors.As(err, &tooBig)\<close> with \<open>var tooBig *SizeLimitError\<close>: the first size limit
  error of the tree in depth-first order, as its two figures.
\<close>

fun asSizeLimit :: "error \<Rightarrow> (int64 \<times> int64) option"
  and asSizeLimits :: "error list \<Rightarrow> (int64 \<times> int64) option" where
  "asSizeLimit (SizeLimitError s l) = Some (s, l)"
| "asSizeLimit (Wrapped m e) = asSizeLimit e"
| "asSizeLimit (Joined es) = asSizeLimits es"
| "asSizeLimit ErrClosed = None"
| "asSizeLimit TimeoutError = None"
| "asSizeLimit Canceled = None"
| "asSizeLimit (OsError op p k) = None"
| "asSizeLimit (Errorf m args) = None"
| "asSizeLimits [] = None"
| "asSizeLimits (e # es) =
     (case asSizeLimit e of Some r \<Rightarrow> Some r | None \<Rightarrow> asSizeLimits es)"

section \<open>Messages\<close>

text \<open>The decimal rendering behind \<open>%d\<close>.\<close>

fun showDigits :: "nat \<Rightarrow> string" where
  "showDigits n =
     (if n < 10 then [char_of (48 + n)] else showDigits (n div 10) @ [char_of (48 + n mod 10)])"

declare showDigits.simps [simp del]

definition showInt :: "int \<Rightarrow> string" where
  "showInt n = (if n < 0 then CHR ''-'' # showDigits (nat (- n)) else showDigits (nat n))"

fun showIoError :: "io_error \<Rightarrow> string" where
  "showIoError ENOENT = ''no such file or directory''"
| "showIoError EEXIST = ''file exists''"
| "showIoError ENOTDIR = ''not a directory''"
| "showIoError EISDIR = ''is a directory''"
| "showIoError ENOTEMPTY = ''directory not empty''"
| "showIoError EINVAL = ''invalid argument''"

text \<open>
  \<open>SizeLimitError.Error\<close>. The Kotlin wrapper raises its \<open>SizeLimitExceededException\<close>
  on the prefix \<open>size limit exceeded\<close> of this message.
\<close>

definition SizeLimitError_Error :: "int64 \<Rightarrow> int64 \<Rightarrow> string" where
  "SizeLimitError_Error actual limit =
     ''size limit exceeded (actual size = '' @ showInt actual @ '' limit = '' @ showInt limit @ '' bytes)''"

definition sizeLimitPrefix :: string where
  "sizeLimitPrefix = ''size limit exceeded''"

fun joinLines :: "string list \<Rightarrow> string" where
  "joinLines [] = []"
| "joinLines [x] = x"
| "joinLines (x # y # zs) = x @ ''\<newline>'' @ joinLines (y # zs)"

text \<open>
  \<open>Error()\<close>. How \<open>fmt\<close> renders the formats that carry arguments is the argument
  \<open>sprintf\<close>: no property depends on it.
\<close>

fun errorMessage :: "(string \<Rightarrow> string list \<Rightarrow> string) \<Rightarrow> error \<Rightarrow> string" where
  "errorMessage sprintf ErrClosed = ''client is closed''"
| "errorMessage sprintf (SizeLimitError s l) = SizeLimitError_Error s l"
| "errorMessage sprintf TimeoutError = ''timeout''"
| "errorMessage sprintf Canceled = ''context canceled''"
| "errorMessage sprintf (OsError op p k) = op @ '' '' @ p @ '': '' @ showIoError k"
| "errorMessage sprintf (Errorf m args) = sprintf m args"
| "errorMessage sprintf (Wrapped m e) = m @ '': '' @ errorMessage sprintf e"
| "errorMessage sprintf (Joined es) = joinLines (map (errorMessage sprintf) es)"

definition hasMessagePrefix :: "(string \<Rightarrow> string list \<Rightarrow> string) \<Rightarrow> string \<Rightarrow> error \<Rightarrow> bool" where
  "hasMessagePrefix sprintf p e \<longleftrightarrow> take (length p) (errorMessage sprintf e) = p"

lemma hasMessagePrefix_SizeLimitError [simp]:
  "hasMessagePrefix sprintf sizeLimitPrefix (SizeLimitError s l)"
  by (simp add: hasMessagePrefix_def sizeLimitPrefix_def SizeLimitError_Error_def)

section \<open>Which failures end the search for content\<close>

text \<open>\<open>conclusive\<close>: no other source would answer these differently.\<close>

definition conclusive :: "error \<Rightarrow> bool" where
  "conclusive err \<longleftrightarrow> asSizeLimit err \<noteq> None \<or> errorsIs err ErrClosed"

lemma conclusive_simps [simp]:
  "conclusive ErrClosed"
  "conclusive (SizeLimitError s l)"
  "\<not> conclusive TimeoutError"
  "\<not> conclusive Canceled"
  "\<not> conclusive (OsError op p k)"
  "\<not> conclusive (Errorf m args)"
  "conclusive (Wrapped m e) = conclusive e"
  by (simp_all add: conclusive_def)

text \<open>
  An error value as the code creates it: size limit errors are never wrapped or joined, so
  whoever finds one with \<open>errors.As\<close> has the error itself.
\<close>

fun bareSizeLimit :: "error \<Rightarrow> bool" where
  "bareSizeLimit (SizeLimitError s l) \<longleftrightarrow> True"
| "bareSizeLimit e \<longleftrightarrow> asSizeLimit e = None"

lemma bareSizeLimit_cases:
  "bareSizeLimit e \<Longrightarrow> asSizeLimit e = Some (s, l) \<Longrightarrow> e = SizeLimitError s l"
  by (cases e) auto

end
