(* ===== verification/Path_Locks.thy ===== *)
theory Path_Locks
  imports Prelude Go_Path Go_Errors
begin

text \<open>
  \<open>pathLocks\<close> of \<open>output.go\<close>: one lock per output path, created when it is first wanted and
  dropped when nobody uses it any more. Every section of \<open>lock\<close> that runs under
  \<open>locks.mutex\<close> is one operation on the locks, and a goroutine moves between them by one step
  at a time, so every interleaving of callers is a run of \<open>lockStep\<close>.
\<close>

section \<open>State and operations\<close>

text \<open>
  A gate is a channel of capacity one; \<open>tokens\<close> is the number of values each one holds.
  \<open>nextGate\<close> names the channel the next \<open>make\<close> returns.
\<close>

type_synonym gate = nat

record pathLocks =
  held :: "string \<Rightarrow> gate option"
  waiting :: "string \<Rightarrow> nat option"
  tokens :: "gate \<Rightarrow> nat"
  nextGate :: gate

definition newPathLocks :: pathLocks where
  "newPathLocks = \<lparr>held = \<lambda>_. None, waiting = \<lambda>_. None, tokens = \<lambda>_. 0, nextGate = 0\<rparr>"

text \<open>A missing key reads as zero, as in a Go map of integers.\<close>

definition waitingCount :: "pathLocks \<Rightarrow> string \<Rightarrow> nat" where
  "waitingCount l key = (case waiting l key of Some n \<Rightarrow> n | None \<Rightarrow> 0)"

definition joinQueue :: "string \<Rightarrow> pathLocks \<Rightarrow> gate \<times> pathLocks" where
  "joinQueue key l =
     (let (g, l') =
        (case held l key of
           Some g \<Rightarrow> (g, l)
         | None \<Rightarrow> (nextGate l, l\<lparr>held := (held l)(key \<mapsto> nextGate l), nextGate := Suc (nextGate l)\<rparr>))
      in (g, l'\<lparr>waiting := (waiting l')(key \<mapsto> waitingCount l' key + 1)\<rparr>))"

definition releasePath :: "string \<Rightarrow> pathLocks \<Rightarrow> pathLocks" where
  "releasePath key l =
     (let l' = l\<lparr>waiting := (waiting l)(key \<mapsto> waitingCount l key - 1)\<rparr>
      in if waiting l' key = Some 0
         then l'\<lparr>waiting := (waiting l')(key := None), held := (held l')(key := None)\<rparr>
         else l')"

definition sendGate :: "gate \<Rightarrow> pathLocks \<Rightarrow> pathLocks option" where
  "sendGate g l = (if tokens l g < 1 then Some (l\<lparr>tokens := (tokens l)(g := tokens l g + 1)\<rparr>) else None)"

definition receiveGate :: "gate \<Rightarrow> pathLocks \<Rightarrow> pathLocks option" where
  "receiveGate g l = (if 0 < tokens l g then Some (l\<lparr>tokens := (tokens l)(g := tokens l g - 1)\<rparr>) else None)"

section \<open>Goroutines\<close>

text \<open>
  Where a goroutine is in \<open>lock\<close>, or in the function it returned: outside of both; at the
  \<open>select\<close>; between the return of \<open>lock\<close> and the call of the unlock function; on the way to
  \<open>release\<close>, after the gate was drained or the context ended.
\<close>

datatype lockPc = Outside | Selecting string gate | Holding string gate | Leaving string

record lockSystem =
  locks :: pathLocks
  pcs :: "nat \<Rightarrow> lockPc"

definition lockInit :: lockSystem where
  "lockInit = \<lparr>locks = newPathLocks, pcs = \<lambda>_. Outside\<rparr>"

definition moveTo :: "nat \<Rightarrow> lockPc \<Rightarrow> pathLocks \<Rightarrow> lockSystem \<Rightarrow> lockSystem" where
  "moveTo i p l s = s\<lparr>locks := l, pcs := (pcs s)(i := p)\<rparr>"

inductive lockStep :: "lockSystem \<Rightarrow> lockSystem \<Rightarrow> bool" where
  lock_call:
    "\<lbrakk>pcs s i = Outside; key = Clean path; joinQueue key (locks s) = (g, l)\<rbrakk>
      \<Longrightarrow> lockStep s (moveTo i (Selecting key g) l s)"
| lock_granted:
    "\<lbrakk>pcs s i = Selecting key g; sendGate g (locks s) = Some l\<rbrakk>
      \<Longrightarrow> lockStep s (moveTo i (Holding key g) l s)"
| lock_done:
    "pcs s i = Selecting key g \<Longrightarrow> lockStep s (moveTo i (Leaving key) (locks s) s)"
| lock_unlock:
    "\<lbrakk>pcs s i = Holding key g; receiveGate g (locks s) = Some l\<rbrakk>
      \<Longrightarrow> lockStep s (moveTo i (Leaving key) l s)"
| lock_release:
    "pcs s i = Leaving key \<Longrightarrow> lockStep s (moveTo i Outside (releasePath key (locks s)) s)"

inductive_cases lockStep_cases: "lockStep s t"

text \<open>Who uses a key, and who holds a gate.\<close>

fun pcKey :: "lockPc \<Rightarrow> string option" where
  "pcKey Outside = None"
| "pcKey (Selecting k g) = Some k"
| "pcKey (Holding k g) = Some k"
| "pcKey (Leaving k) = Some k"

fun pcGate :: "lockPc \<Rightarrow> gate option" where
  "pcGate (Selecting k g) = Some g"
| "pcGate (Holding k g) = Some g"
| "pcGate p = None"

fun holdsGate :: "gate \<Rightarrow> lockPc \<Rightarrow> bool" where
  "holdsGate g (Holding k h) \<longleftrightarrow> g = h"
| "holdsGate g p \<longleftrightarrow> False"

definition users :: "string \<Rightarrow> lockSystem \<Rightarrow> nat set" where
  "users key s = {i. pcKey (pcs s i) = Some key}"

definition holders :: "gate \<Rightarrow> lockSystem \<Rightarrow> nat set" where
  "holders g s = {i. holdsGate g (pcs s i)}"

definition lockInv :: "lockSystem \<Rightarrow> bool" where
  "lockInv s \<longleftrightarrow>
     (\<forall>key. finite (users key s))
     \<and> (\<forall>key. waiting (locks s) key = (if users key s = {} then None else Some (card (users key s))))
     \<and> (\<forall>key. held (locks s) key = None \<longleftrightarrow> users key s = {})
     \<and> (\<forall>i key g. pcKey (pcs s i) = Some key \<longrightarrow> pcGate (pcs s i) = Some g \<longrightarrow> held (locks s) key = Some g)
     \<and> (\<forall>key g. held (locks s) key = Some g \<longrightarrow> g < nextGate (locks s))
     \<and> (\<forall>key key' g. held (locks s) key = Some g \<longrightarrow> held (locks s) key' = Some g \<longrightarrow> key = key')
     \<and> (\<forall>g. finite (holders g s) \<and> tokens (locks s) g = card (holders g s) \<and> card (holders g s) \<le> 1)"

section \<open>The invariant is kept\<close>

lemma users_moveTo:
  "users key (moveTo i p l s) = (if pcKey p = Some key then insert i (users key s) else users key s - {i})"
  by (auto simp: users_def moveTo_def)

lemma holders_moveTo:
  "holders g (moveTo i p l s) = (if holdsGate g p then insert i (holders g s) else holders g s - {i})"
  by (auto simp: holders_def moveTo_def)

lemma moveTo_simps [simp]:
  "locks (moveTo i p l s) = l" "pcs (moveTo i p l s) = (pcs s)(i := p)"
  by (simp_all add: moveTo_def)

lemma in_users: "i \<in> users key s \<longleftrightarrow> pcKey (pcs s i) = Some key"
  by (simp add: users_def)

lemma in_holders: "i \<in> holders g s \<longleftrightarrow> holdsGate g (pcs s i)"
  by (simp add: holders_def)

lemma users_same: "pcKey (pcs s i) = pcKey p \<Longrightarrow> users key (moveTo i p l s) = users key s"
  by (auto simp: users_moveTo in_users)

lemma holders_same:
  "holdsGate g (pcs s i) = holdsGate g p \<Longrightarrow> holders g (moveTo i p l s) = holders g s"
  by (auto simp: holders_moveTo in_holders)

lemma lockInv_held:
  "lockInv s \<Longrightarrow> pcKey (pcs s i) = Some k \<Longrightarrow> pcGate (pcs s i) = Some g \<Longrightarrow> held (locks s) k = Some g"
  by (simp add: lockInv_def)

lemma lockInv_init: "lockInv lockInit"
  by (simp add: lockInv_def lockInit_def newPathLocks_def users_def holders_def)

lemma joinQueue_fields:
  assumes "joinQueue key l = (g, l')"
  shows "g = (case held l key of Some g \<Rightarrow> g | None \<Rightarrow> nextGate l)"
    and "held l' = (held l)(key \<mapsto> g)"
    and "waiting l' = (waiting l)(key \<mapsto> waitingCount l key + 1)"
    and "tokens l' = tokens l"
    and "nextGate l' = (case held l key of Some g \<Rightarrow> nextGate l | None \<Rightarrow> Suc (nextGate l))"
  using assms
  by (auto simp: joinQueue_def waitingCount_def fun_upd_idem_iff split: option.splits)

lemma lockInv_call:
  assumes inv: "lockInv s" and pc: "pcs s i = Outside" and join: "joinQueue key (locks s) = (g, l)"
  shows "lockInv (moveTo i (Selecting key g) l s)"
proof -
  let ?t = "moveTo i (Selecting key g) l s"
  note f = joinQueue_fields [OF join]
  have us: "users k ?t = (if k = key then insert i (users k s) else users k s)" for k
    using pc by (auto simp: users_moveTo in_users)
  have hs: "holders h ?t = holders h s" for h
    by (rule holders_same) (simp add: pc)
  have new: "i \<notin> users key s" using pc by (simp add: in_users)
  have cnt: "waitingCount (locks s) key = card (users key s)"
    using inv by (simp add: lockInv_def waitingCount_def)
  have "waiting l k = (if users k ?t = {} then None else Some (card (users k ?t)))" for k
    using inv new by (auto simp: us f(3) cnt lockInv_def)
  moreover have "held l k = None \<longleftrightarrow> users k ?t = {}" for k
    using inv by (simp add: us f(2) lockInv_def)
  moreover have "held l k = Some h"
    if "pcKey (((pcs s)(i := Selecting key g)) j) = Some k" "pcGate (((pcs s)(i := Selecting key g)) j) = Some h" for j k h
  proof (cases "j = i")
    case False
    then have "held (locks s) k = Some h" using inv that unfolding lockInv_def by simp
    then show ?thesis using f(1,2) by auto
  qed (use that f(2) in auto)
  moreover have "h < nextGate l" if "held l k = Some h" for k h
    using inv that f(1) by (auto simp: f(2,5) lockInv_def less_Suc_eq split: if_splits option.splits)
  moreover have "k = k'" if "held l k = Some h" "held l k' = Some h" for k k' h
    using inv that f(1) unfolding f(2) lockInv_def
    by (auto split: if_splits option.splits)
  ultimately show ?thesis using inv by (auto simp: lockInv_def us hs f(4))
qed

lemma lockInv_granted:
  assumes inv: "lockInv s" and pc: "pcs s i = Selecting key g" and send: "sendGate g (locks s) = Some l"
  shows "lockInv (moveTo i (Holding key g) l s)"
proof -
  let ?t = "moveTo i (Holding key g) l s"
  have l: "held l = held (locks s)" "waiting l = waiting (locks s)" "nextGate l = nextGate (locks s)"
    "tokens l = (tokens (locks s))(g := Suc (tokens (locks s) g))"
    and free: "tokens (locks s) g = 0"
    using send by (auto simp: sendGate_def split: if_splits)
  have us: "users k ?t = users k s" for k by (rule users_same) (simp add: pc)
  have hs: "holders h ?t = (if h = g then insert i (holders h s) else holders h s)" for h
    using pc by (auto simp: holders_moveTo in_holders)
  have none: "holders g s = {}" using inv free by (auto simp: lockInv_def)
  have "held l k = Some h"
    if "pcKey (((pcs s)(i := Holding key g)) j) = Some k" "pcGate (((pcs s)(i := Holding key g)) j) = Some h" for j k h
    using that pc lockInv_held [OF inv, of j] lockInv_held [OF inv, of i]
    unfolding l by (cases "j = i") auto
  moreover have "finite (holders h ?t) \<and> tokens l h = card (holders h ?t) \<and> card (holders h ?t) \<le> 1" for h
    using inv none by (auto simp: hs l lockInv_def)
  ultimately show ?thesis using inv by (auto simp: lockInv_def us l(1-3))
qed

lemma lockInv_done:
  assumes inv: "lockInv s" and pc: "pcs s i = Selecting key g"
  shows "lockInv (moveTo i (Leaving key) (locks s) s)"
proof -
  let ?t = "moveTo i (Leaving key) (locks s) s"
  have us: "users k ?t = users k s" for k by (rule users_same) (simp add: pc)
  have hs: "holders h ?t = holders h s" for h by (rule holders_same) (simp add: pc)
  show ?thesis using inv by (auto simp: lockInv_def us hs)
qed

lemma lockInv_unlock:
  assumes inv: "lockInv s" and pc: "pcs s i = Holding key g" and receive: "receiveGate g (locks s) = Some l"
  shows "lockInv (moveTo i (Leaving key) l s)"
proof -
  let ?t = "moveTo i (Leaving key) l s"
  have l: "held l = held (locks s)" "waiting l = waiting (locks s)" "nextGate l = nextGate (locks s)"
    "tokens l = (tokens (locks s))(g := tokens (locks s) g - 1)"
    using receive by (auto simp: receiveGate_def split: if_splits)
  have us: "users k ?t = users k s" for k by (rule users_same) (simp add: pc)
  have hs: "holders h ?t = (if h = g then holders h s - {i} else holders h s)" for h
    using pc by (auto simp: holders_moveTo in_holders)
  have mem: "i \<in> holders g s" by (simp add: in_holders pc)
  have "finite (holders h ?t) \<and> tokens l h = card (holders h ?t) \<and> card (holders h ?t) \<le> 1" for h
    using inv mem by (auto simp: hs l lockInv_def)
  then show ?thesis using inv by (auto simp: lockInv_def us l(1-3))
qed

lemma releasePath_fields:
  shows "waiting (releasePath key l) = (waiting l)(key := (if waitingCount l key - 1 = 0 then None else Some (waitingCount l key - 1)))"
    and "held (releasePath key l) = (if waitingCount l key - 1 = 0 then (held l)(key := None) else held l)"
    and "tokens (releasePath key l) = tokens l"
    and "nextGate (releasePath key l) = nextGate l"
  by (simp_all add: releasePath_def Let_def)

lemma lockInv_release:
  assumes inv: "lockInv s" and pc: "pcs s i = Leaving key"
  shows "lockInv (moveTo i Outside (releasePath key (locks s)) s)"
proof -
  let ?t = "moveTo i Outside (releasePath key (locks s)) s"
  note f = releasePath_fields [of key "locks s"]
  have us: "users k ?t = (if k = key then users k s - {i} else users k s)" for k
    using pc by (auto simp: users_moveTo in_users)
  have hs: "holders h ?t = holders h s" for h by (rule holders_same) (simp add: pc)
  have mem: "i \<in> users key s" by (simp add: in_users pc)
  have fin: "finite (users k s)" for k using inv by (simp add: lockInv_def)
  have cnt: "waitingCount (locks s) key = card (users key s)"
    using inv mem by (auto simp: lockInv_def waitingCount_def)
  have left: "card (users key s - {i}) = card (users key s) - 1"
    using mem by (rule card_Diff_singleton)
  have last: "card (users key s) - 1 = 0 \<longleftrightarrow> users key s - {i} = {}"
    unfolding left [symmetric] using fin by simp
  have "waiting (locks ?t) k = (if users k ?t = {} then None else Some (card (users k ?t)))" for k
    using inv left unfolding moveTo_simps f(1) cnt last us by (simp add: lockInv_def)
  moreover have heldt: "held (releasePath key (locks s)) = (if users key s - {i} = {} then (held (locks s))(key := None) else held (locks s))"
    by (simp only: f(2) cnt last moveTo_simps)
  moreover have "held (locks ?t) k = None \<longleftrightarrow> users k ?t = {}" for k
    using inv mem by (auto simp: heldt us lockInv_def)
  moreover have "held (locks ?t) k = Some h"
    if "pcKey (pcs ?t j) = Some k" "pcGate (pcs ?t j) = Some h" for j k h
  proof -
    have j: "j \<noteq> i" using that by auto
    then have "held (locks s) k = Some h" using inv that unfolding lockInv_def by simp
    moreover have "j \<in> users k s - {i}" using that j by (simp add: in_users)
    ultimately show ?thesis by (auto simp: heldt)
  qed
  ultimately show ?thesis using inv by (auto simp: lockInv_def us hs f(3,4))
qed

lemma lockInv_step: "lockStep s t \<Longrightarrow> lockInv s \<Longrightarrow> lockInv t"
  by (erule lockStep_cases)
     (auto intro: lockInv_call lockInv_granted lockInv_done lockInv_unlock lockInv_release)

interpretation path_locks: invariant_system lockInit lockStep lockInv
  by unfold_locales (auto intro: lockInv_init lockInv_step)

section \<open>Properties of the path locks\<close>

lemma holder_unique:
  assumes inv: "lockInv s" and i: "pcs s i = Holding key g" and j: "pcs s j = Holding key h"
  shows "i = j"
proof -
  have "h = g" using lockInv_held [OF inv, of i key g] lockInv_held [OF inv, of j key h] i j by simp
  then have "i \<in> holders g s" "j \<in> holders g s" using i j by (simp_all add: in_holders)
  moreover have "finite (holders g s)" "card (holders g s) \<le> 1" using inv by (simp_all add: lockInv_def)
  ultimately show ?thesis by (metis card_le_Suc0_iff_eq One_nat_def)
qed

lemma gate_of_holder:
  assumes "lockInv s" and "pcs s i = Holding key g"
  shows "tokens (locks s) g = 1"
proof -
  have "i \<in> holders g s" using assms(2) by (simp add: in_holders)
  moreover have "finite (holders g s)" "card (holders g s) \<le> 1" "tokens (locks s) g = card (holders g s)"
    using assms(1) by (simp_all add: lockInv_def)
  ultimately show ?thesis by (metis One_nat_def card_0_eq empty_iff le_SucE le_zero_eq)
qed

text \<open>Two goroutines inside \<open>lock\<close>, the first of which was granted the path.\<close>

definition contended :: lockSystem where
  "contended =
     (let (g, l1) = joinQueue ''out'' newPathLocks;
          l2 = the (sendGate g l1);
          (h, l3) = joinQueue ''out'' l2
      in \<lparr>locks = l3, pcs = (\<lambda>_. Outside)(0 := Holding ''out'' g, 1 := Selecting ''out'' h)\<rparr>)"

lemma Clean_out: "Clean ''out'' = ''out''" "Clean ''./out'' = ''out''"
  by (simp_all add: Clean_def isRooted_def cleanStack_def renderPath_def pushElem.simps)

lemma contended_reach: "reach lockInit lockStep contended"
proof -
  obtain l1 where l1: "joinQueue ''out'' newPathLocks = (0, l1)"
    by (simp add: joinQueue_def newPathLocks_def)
  obtain l2 where l2: "sendGate 0 l1 = Some l2"
    using l1 by (auto simp: joinQueue_def newPathLocks_def sendGate_def)
  obtain l3 where l3: "joinQueue ''out'' l2 = (0, l3)"
    using l1 l2 by (auto simp: joinQueue_def newPathLocks_def sendGate_def waitingCount_def)
  let ?s1 = "moveTo 0 (Selecting ''out'' 0) l1 lockInit"
  let ?s2 = "moveTo 0 (Holding ''out'' 0) l2 ?s1"
  let ?s3 = "moveTo 1 (Selecting ''out'' 0) l3 ?s2"
  have "lockStep lockInit ?s1"
    by (rule lock_call [of _ _ _ "''out''"]) (simp_all add: lockInit_def l1 Clean_out)
  moreover have "lockStep ?s1 ?s2" by (rule lock_granted) (simp_all add: l2)
  moreover have "lockStep ?s2 ?s3"
    by (rule lock_call [of _ _ _ "''./out''"]) (simp_all add: l3 Clean_out lockInit_def)
  ultimately have "reach lockInit lockStep ?s3" by (meson reach_start reach_step)
  moreover have "?s3 = contended" by (simp add: contended_def l1 l2 l3 moveTo_def lockInit_def)
  ultimately show ?thesis by simp
qed

lemma contended_pcs: "pcs contended = (\<lambda>_. Outside)(0 := Holding ''out'' 0, 1 := Selecting ''out'' 0)"
  by (simp add: contended_def joinQueue_def sendGate_def newPathLocks_def waitingCount_def)

text \<open>
  An output path is held by one download at a time, however the callers interleave and however
  they spell it: while goroutine \<open>i\<close> is between the return of \<open>lock\<close> for a path and its unlock, no
  other goroutine is there for any path that cleans to the same one. Its unlock never blocks.
\<close>

theorem path_lock_exclusive:
  assumes "reach lockInit lockStep s" and "pcs s i = Holding (Clean path) g"
  shows "(\<forall>j other h. pcs s j = Holding (Clean other) h \<longrightarrow> Clean other = Clean path \<longrightarrow> j = i)
    \<and> (\<exists>l. receiveGate g (locks s) = Some l)"
  using holder_unique [OF path_locks.reach_inv [OF assms(1)] assms(2)]
    gate_of_holder [OF path_locks.reach_inv [OF assms(1)] assms(2)]
  by (auto simp: receiveGate_def)

theorem path_lock_exclusive_witness:
  "pcs contended 0 = Holding ''out'' 0
   \<and> {j. \<exists>h. pcs contended j = Holding ''out'' h} = {0}"
proof -
  have here: "pcs contended 0 = Holding ''out'' 0" by (simp add: contended_pcs)
  then have "pcs contended 0 = Holding (Clean ''./out'') 0" by (simp only: Clean_out)
  note only = path_lock_exclusive [OF contended_reach this, THEN conjunct1, unfolded Clean_out]
  have "j = 0" if "pcs contended j = Holding ''out'' h" for j h
    using only [rule_format, of j "''out''" h] that by (simp only: Clean_out)
  with here show ?thesis by blast
qed

lemma free_gate:
  assumes inv: "lockInv s" and i: "pcs s i = Selecting key g" and free: "\<forall>j h. pcs s j \<noteq> Holding key h"
  shows "\<exists>l. sendGate g (locks s) = Some l"
proof -
  have here: "held (locks s) key = Some g" using lockInv_held [OF inv, of i] i by simp
  have "holders g s = {}"
  proof (rule ccontr)
    assume "holders g s \<noteq> {}"
    then obtain j where "holdsGate g (pcs s j)" by (auto simp: holders_def)
    then obtain k where j: "pcs s j = Holding k g" by (cases "pcs s j") auto
    then have "held (locks s) k = Some g" using lockInv_held [OF inv, of j] by simp
    with here inv have "k = key" by (auto simp: lockInv_def)
    with j free show False by blast
  qed
  then have "tokens (locks s) g = 0" using inv by (simp add: lockInv_def)
  then show ?thesis by (auto simp: sendGate_def)
qed

text \<open>
  No path stays locked for want of a holder: in every reachable state a goroutine waiting for a
  path that nobody holds can be granted it, so a download that gave up at its deadline, before or
  after others queued behind it, leaves nothing behind that blocks them.
\<close>

theorem path_lock_free_grants:
  assumes "reach lockInit lockStep s" and "pcs s i = Selecting key g"
    and "\<forall>j h. pcs s j \<noteq> Holding key h"
  shows "\<exists>t. lockStep s t \<and> pcs t i = Holding key g"
proof -
  obtain l where "sendGate g (locks s) = Some l"
    using free_gate [OF path_locks.reach_inv [OF assms(1)] assms(2,3)] by blast
  then have "lockStep s (moveTo i (Holding key g) l s)" using assms(2) by (rule lock_granted [rotated])
  then show ?thesis by (metis fun_upd_same moveTo_simps(2))
qed

definition queued :: lockSystem where
  "queued = moveTo 0 (Selecting ''out'' 0) (snd (joinQueue ''out'' newPathLocks)) lockInit"

lemma queued_reach: "reach lockInit lockStep queued"
proof -
  have "joinQueue ''out'' newPathLocks = (0, snd (joinQueue ''out'' newPathLocks))"
    by (simp add: joinQueue_def newPathLocks_def)
  then have "lockStep lockInit queued" unfolding queued_def
    by (intro lock_call [of _ _ _ "''out''"]) (simp_all add: lockInit_def Clean_out)
  then show ?thesis by (rule reach_one)
qed

theorem path_lock_free_grants_witness:
  "\<exists>t. lockStep queued t \<and> pcs t 0 = Holding ''out'' 0"
  using path_lock_free_grants [OF queued_reach, of 0 "''out''" 0]
  by (simp add: queued_def lockInit_def)

text \<open>
  The locks do not accumulate: in every reachable state the maps hold exactly the paths somebody
  is waiting for, holding or about to release, each with its number of users, so both are empty once
  every caller is done.
\<close>

theorem path_locks_forgotten:
  assumes "reach lockInit lockStep s"
  shows "(held (locks s) key = None \<longleftrightarrow> users key s = {})
    \<and> waiting (locks s) key = (if users key s = {} then None else Some (card (users key s)))"
  using path_locks.reach_inv [OF assms] by (simp add: lockInv_def)

theorem path_locks_forgotten_witness:
  "held (locks contended) ''out'' \<noteq> None \<and> waiting (locks contended) ''other'' = None"
proof -
  have "0 \<in> users ''out'' contended" "users ''other'' contended = {}"
    by (auto simp: users_def contended_pcs)
  then show ?thesis using path_locks_forgotten [OF contended_reach] by auto
qed

end
