(* ===== verification/Lifecycle.thy ===== *)
theory Lifecycle
  imports Prelude Go_Errors
begin

text \<open>
  The life of the node inside a \<open>Client\<close> (\<open>client.go\<close>): \<open>acquire\<close>, \<open>release\<close>,
  \<open>closeIdle\<close>, \<open>Close\<close> and \<open>stopTimer\<close>. Each section that runs under
  \<open>client.mutex\<close> is one function on the record \<open>clientState\<close>. Goroutines - downloads,
  calls of \<open>Close\<close>, and the functions the idle timer starts - move between these sections by
  \<open>lifeStep\<close>, one atomic action at a time, so a run of \<open>lifeStep\<close> is an interleaving.

  Channels, timers and nodes are named by numbers: \<open>make\<close>, \<open>time.AfterFunc\<close> and
  \<open>startNode\<close> return names that were not in use before.
\<close>

section \<open>State\<close>

type_synonym chan = nat
type_synonym timerId = nat
type_synonym nodeId = nat

text \<open>
  The fields of \<open>Client\<close> that change, and the idle timeout, which does not. \<open>armed\<close> are
  the timers that were started and have neither been stopped nor fired; \<open>redials\<close> logs the
  nodes \<open>redial\<close> was called on. \<open>idleTimeout\<close> is \<open>client.idle\<close>.
\<close>

record clientState =
  idleTimeout :: int64
  closed :: bool
  retired :: bool
  node :: "nodeId option"
  starting :: "chan option"
  inflight :: int
  timer :: "timerId option"
  armed :: "timerId set"
  nextChan :: chan
  nextTimer :: timerId
  redials :: "nodeId list"

definition newClientState :: "int64 \<Rightarrow> clientState" where
  "newClientState idle =
     \<lparr>idleTimeout = idle, closed = False, retired = False, node = None, starting = None,
      inflight = 0, timer = None, armed = {}, nextChan = 0, nextTimer = 0, redials = []\<rparr>"

section \<open>The sections under the mutex\<close>

definition stopTimer :: "clientState \<Rightarrow> clientState" where
  "stopTimer c =
     (case timer c of
        Some t \<Rightarrow> c\<lparr>armed := armed c - {t}, timer := None\<rparr>
      | None \<Rightarrow> c)"

text \<open>What one pass of the loop in \<open>acquire\<close> finds under the mutex.\<close>

datatype acquired = AcquireClosed | AcquireNode nodeId | AcquireWait chan | AcquireStart chan

definition acquire :: "clientState \<Rightarrow> acquired \<times> clientState" where
  "acquire c =
     (if closed c then (AcquireClosed, c)
      else
        let c = stopTimer c in
        case node c of
          Some n \<Rightarrow> (AcquireNode n, c\<lparr>inflight := inflight c + 1, redials := redials c @ [n]\<rparr>)
        | None \<Rightarrow>
          (case starting c of
             Some pending \<Rightarrow> (AcquireWait pending, c)
           | None \<Rightarrow>
             (AcquireStart (nextChan c),
              c\<lparr>starting := Some (nextChan c), nextChan := Suc (nextChan c), inflight := inflight c + 1\<rparr>)))"

text \<open>The second section of \<open>acquire\<close>, after \<open>startNode\<close>: whether the client was closed meanwhile.\<close>

definition recordStart :: "error + nodeId \<Rightarrow> clientState \<Rightarrow> bool \<times> clientState" where
  "recordStart started c =
     (let c = c\<lparr>starting := None\<rparr> in
      (closed c,
       case started of
         Inr n \<Rightarrow> if closed c then c else c\<lparr>node := Some n\<rparr>
       | Inl e \<Rightarrow> c))"

definition release :: "clientState \<Rightarrow> clientState" where
  "release c =
     (let c = c\<lparr>inflight := inflight c - 1\<rparr> in
      if inflight c > 0 \<or> closed c \<or> idleTimeout c \<le> 0 then c
      else
        let c = stopTimer c in
        c\<lparr>timer := Some (nextTimer c), armed := insert (nextTimer c) (armed c),
          nextTimer := Suc (nextTimer c)\<rparr>)"

text \<open>\<open>closeIdle\<close> and \<open>Close\<close> return the node to tear down once the mutex is free.\<close>

definition closeIdle :: "clientState \<Rightarrow> nodeId option \<times> clientState" where
  "closeIdle c =
     (if closed c \<or> inflight c > 0 \<or> node c = None then (None, c)
      else (node c, c\<lparr>node := None, timer := None\<rparr>))"

definition closeClient :: "clientState \<Rightarrow> nodeId option \<times> clientState" where
  "closeClient c =
     (if closed c then (None, c)
      else
        let c = stopTimer (c\<lparr>closed := True\<rparr>); c = c\<lparr>retired := True\<rparr> in
        (node c, c\<lparr>node := None\<rparr>))"

text \<open>What \<open>Get\<close> reads before it asks the gateways.\<close>

definition isClosed :: "clientState \<Rightarrow> bool" where
  "isClosed c \<longleftrightarrow> closed c"

section \<open>Goroutines\<close>

text \<open>
  Where a goroutine is. The first group is a download, as \<open>getPrimary\<close> starts it:
  at the top of \<open>acquire\<close>'s loop, waiting for another's start, inside \<open>startNode\<close>, back from
  it, past the second section (with what that saw of \<open>closed\<close>), closing the node it may not
  keep, downloading, and about to call \<open>release\<close>; the result goes to the channel
  \<open>getPrimary\<close> waits on. The second group is a timer's \<open>closeIdle\<close> and a call of
  \<open>Close\<close>, before and after their sections.
\<close>

datatype lifePc =
    Idle
  | AtAcquire
  | Waiting chan
  | Starting chan
  | Started chan "error + nodeId"
  | Recorded chan "error + nodeId" bool
  | Discarding nodeId
  | Using nodeId
  | Releasing "error option"
  | Returned "error option"
  | AtCloseIdle
  | AtClose
  | Closing nodeId

record lifeSystem =
  client :: clientState
  goroutines :: "nat \<Rightarrow> lifePc"
  closedChans :: "chan set"
  live :: "nodeId set"
  nextNode :: nodeId

definition lifeInit :: "int64 \<Rightarrow> lifeSystem" where
  "lifeInit idle =
     \<lparr>client = newClientState idle, goroutines = \<lambda>_. Idle, closedChans = {}, live = {}, nextNode = 0\<rparr>"

fun afterAcquire :: "acquired \<Rightarrow> lifePc" where
  "afterAcquire AcquireClosed = Returned (Some ErrClosed)"
| "afterAcquire (AcquireNode n) = Using n"
| "afterAcquire (AcquireWait pending) = Waiting pending"
| "afterAcquire (AcquireStart pending) = Starting pending"

text \<open>After \<open>close(pending)\<close>: the branches on \<open>err\<close> and \<open>closed\<close>.\<close>

fun afterWake :: "error + nodeId \<Rightarrow> bool \<Rightarrow> lifePc" where
  "afterWake (Inl e) wasClosed = Releasing (Some e)"
| "afterWake (Inr n) wasClosed = (if wasClosed then Discarding n else Using n)"

fun afterClose :: "nodeId option \<Rightarrow> lifePc" where
  "afterClose (Some n) = Closing n"
| "afterClose None = Returned None"

definition go :: "nat \<Rightarrow> lifePc \<Rightarrow> clientState \<Rightarrow> lifeSystem \<Rightarrow> lifeSystem" where
  "go i p c s = s\<lparr>client := c, goroutines := (goroutines s)(i := p)\<rparr>"

inductive lifeStep :: "lifeSystem \<Rightarrow> lifeSystem \<Rightarrow> bool" where
  life_get:
    "goroutines s i = Idle \<Longrightarrow> lifeStep s (go i AtAcquire (client s) s)"
| life_acquire:
    "\<lbrakk>goroutines s i = AtAcquire; acquire (client s) = (r, c)\<rbrakk>
      \<Longrightarrow> lifeStep s (go i (afterAcquire r) c s)"
| life_woken:
    "\<lbrakk>goroutines s i = Waiting ch; ch \<in> closedChans s\<rbrakk>
      \<Longrightarrow> lifeStep s (go i AtAcquire (client s) s)"
| life_gave_up:
    "\<lbrakk>goroutines s i = Waiting ch; ctx \<noteq> CtxLive\<rbrakk>
      \<Longrightarrow> lifeStep s (go i (Returned (contextError ctx)) (client s) s)"
| life_started:
    "goroutines s i = Starting ch
      \<Longrightarrow> lifeStep s (go i (Started ch (Inr (nextNode s))) (client s)
            (s\<lparr>live := insert (nextNode s) (live s), nextNode := Suc (nextNode s)\<rparr>))"
| life_start_failed:
    "goroutines s i = Starting ch \<Longrightarrow> lifeStep s (go i (Started ch (Inl e)) (client s) s)"
| life_record:
    "\<lbrakk>goroutines s i = Started ch r; recordStart r (client s) = (wasClosed, c)\<rbrakk>
      \<Longrightarrow> lifeStep s (go i (Recorded ch r wasClosed) c s)"
| life_wake:
    "\<lbrakk>goroutines s i = Recorded ch r wasClosed; ch \<notin> closedChans s\<rbrakk>
      \<Longrightarrow> lifeStep s (go i (afterWake r wasClosed) (client s) (s\<lparr>closedChans := insert ch (closedChans s)\<rparr>))"
| life_discard:
    "goroutines s i = Discarding n
      \<Longrightarrow> lifeStep s (go i (Releasing (Some ErrClosed)) (client s) (s\<lparr>live := live s - {n}\<rparr>))"
| life_downloaded:
    "goroutines s i = Using n \<Longrightarrow> lifeStep s (go i (Releasing result) (client s) s)"
| life_release:
    "goroutines s i = Releasing result
      \<Longrightarrow> lifeStep s (go i (Returned result) (release (client s)) s)"
| life_timer:
    "\<lbrakk>goroutines s i = Idle; t \<in> armed (client s)\<rbrakk>
      \<Longrightarrow> lifeStep s (go i AtCloseIdle ((client s)\<lparr>armed := armed (client s) - {t}\<rparr>) s)"
| life_close_idle:
    "\<lbrakk>goroutines s i = AtCloseIdle; closeIdle (client s) = (taken, c)\<rbrakk>
      \<Longrightarrow> lifeStep s (go i (afterClose taken) c s)"
| life_close_call:
    "goroutines s i = Idle \<Longrightarrow> lifeStep s (go i AtClose (client s) s)"
| life_close:
    "\<lbrakk>goroutines s i = AtClose; closeClient (client s) = (taken, c)\<rbrakk>
      \<Longrightarrow> lifeStep s (go i (afterClose taken) c s)"
| life_closed:
    "goroutines s i = Closing n
      \<Longrightarrow> lifeStep s (go i (Returned None) (client s) (s\<lparr>live := live s - {n}\<rparr>))"

inductive_cases lifeStep_cases: "lifeStep s t"

end
