(* ===== verification/Lifecycle_Inv.thy ===== *)
theory Lifecycle_Inv
  imports Lifecycle
begin

text \<open>
  The invariants of the client's life: how the downloads are counted, who closes the channel
  others wait on, who owns every live node, and which timer or pending sweep will close an idle
  one. Each is proved step by step; together they interpret \<open>invariant_system\<close>.
\<close>

section \<open>Classes of program points\<close>

text \<open>Downloads counted in \<open>inflight\<close>.\<close>

fun claims :: "lifePc \<Rightarrow> bool" where
  "claims (Starting ch) \<longleftrightarrow> True"
| "claims (Started ch r) \<longleftrightarrow> True"
| "claims (Recorded ch r b) \<longleftrightarrow> True"
| "claims (Discarding n) \<longleftrightarrow> True"
| "claims (Using n) \<longleftrightarrow> True"
| "claims (Releasing r) \<longleftrightarrow> True"
| "claims p \<longleftrightarrow> False"

text \<open>Building a node behind channel \<open>ch\<close>; still to close it.\<close>

fun builds :: "chan \<Rightarrow> lifePc \<Rightarrow> bool" where
  "builds ch (Starting ch') \<longleftrightarrow> ch = ch'"
| "builds ch (Started ch' r) \<longleftrightarrow> ch = ch'"
| "builds ch p \<longleftrightarrow> False"

fun announces :: "chan \<Rightarrow> lifePc \<Rightarrow> bool" where
  "announces ch (Recorded ch' r b) \<longleftrightarrow> ch = ch'"
| "announces ch p \<longleftrightarrow> builds ch p"

text \<open>Bound to close node \<open>n\<close>, or to hand it to the client; expecting the client to hold it.\<close>

fun owns :: "nodeId \<Rightarrow> lifePc \<Rightarrow> bool" where
  "owns n (Started ch (Inr m)) \<longleftrightarrow> n = m"
| "owns n (Recorded ch (Inr m) wasClosed) \<longleftrightarrow> n = m \<and> wasClosed"
| "owns n (Discarding m) \<longleftrightarrow> n = m"
| "owns n (Closing m) \<longleftrightarrow> n = m"
| "owns n p \<longleftrightarrow> False"

fun expects :: "nodeId \<Rightarrow> lifePc \<Rightarrow> bool" where
  "expects n (Using m) \<longleftrightarrow> n = m"
| "expects n (Recorded ch (Inr m) wasClosed) \<longleftrightarrow> n = m \<and> \<not> wasClosed"
| "expects n p \<longleftrightarrow> False"

section \<open>The invariants\<close>

definition countInv :: "lifeSystem \<Rightarrow> bool" where
  "countInv s \<longleftrightarrow>
     finite {i. claims (goroutines s i)} \<and> inflight (client s) = int (card {i. claims (goroutines s i)})"

definition closedInv :: "lifeSystem \<Rightarrow> bool" where
  "closedInv s \<longleftrightarrow> (closed (client s) \<longrightarrow> node (client s) = None \<and> retired (client s))"

definition chanInv :: "lifeSystem \<Rightarrow> bool" where
  "chanInv s \<longleftrightarrow>
     (\<forall>i j ch. announces ch (goroutines s i) \<longrightarrow> announces ch (goroutines s j) \<longrightarrow> i = j)
     \<and> (\<forall>i ch. announces ch (goroutines s i) \<longrightarrow> ch < nextChan (client s) \<and> ch \<notin> closedChans s)
     \<and> (\<forall>ch. starting (client s) = Some ch \<longleftrightarrow> (\<exists>i. builds ch (goroutines s i)))
     \<and> (\<forall>ch\<in>closedChans s. ch < nextChan (client s))
     \<and> (\<forall>i ch. goroutines s i = Waiting ch \<longrightarrow> ch \<in> closedChans s \<or> (\<exists>j. announces ch (goroutines s j)))
     \<and> (starting (client s) \<noteq> None \<longrightarrow> node (client s) = None)"

definition ownInv :: "lifeSystem \<Rightarrow> bool" where
  "ownInv s \<longleftrightarrow>
     (\<forall>i j n. owns n (goroutines s i) \<longrightarrow> owns n (goroutines s j) \<longrightarrow> i = j)
     \<and> (\<forall>i n. owns n (goroutines s i) \<longrightarrow> n \<in> live s \<and> node (client s) \<noteq> Some n)
     \<and> (\<forall>n. node (client s) = Some n \<longrightarrow> n \<in> live s)
     \<and> (\<forall>n\<in>live s. n < nextNode s \<and> (node (client s) = Some n \<or> (\<exists>i. owns n (goroutines s i))))"

definition useInv :: "lifeSystem \<Rightarrow> bool" where
  "useInv s \<longleftrightarrow> (\<forall>i n. expects n (goroutines s i) \<longrightarrow> \<not> closed (client s) \<longrightarrow> node (client s) = Some n)"

definition timerInv :: "lifeSystem \<Rightarrow> bool" where
  "timerInv s \<longleftrightarrow>
     (0 < idleTimeout (client s) \<longrightarrow> \<not> closed (client s) \<longrightarrow> node (client s) \<noteq> None \<longrightarrow> inflight (client s) = 0
        \<longrightarrow> (\<exists>x. timer (client s) = Some x \<and> (x \<in> armed (client s) \<or> (\<exists>i. goroutines s i = AtCloseIdle))))
     \<and> (idleTimeout (client s) \<le> 0
        \<longrightarrow> armed (client s) = {} \<and> (\<forall>i. goroutines s i \<noteq> AtCloseIdle))"

definition lifeInv :: "lifeSystem \<Rightarrow> bool" where
  "lifeInv s \<longleftrightarrow> countInv s \<and> closedInv s \<and> chanInv s \<and> ownInv s \<and> useInv s \<and> timerInv s"

section \<open>What the sections change\<close>

lemma stopTimer_fields [simp]:
  "closed (stopTimer c) = closed c" "retired (stopTimer c) = retired c" "node (stopTimer c) = node c"
  "starting (stopTimer c) = starting c" "inflight (stopTimer c) = inflight c"
  "idleTimeout (stopTimer c) = idleTimeout c" "nextChan (stopTimer c) = nextChan c"
  "nextTimer (stopTimer c) = nextTimer c" "timer (stopTimer c) = None"
  "redials (stopTimer c) = redials c"
  by (simp_all add: stopTimer_def split: option.splits)

lemma stopTimer_armed: "armed (stopTimer c) \<subseteq> armed c"
  by (auto simp: stopTimer_def split: option.splits)

lemma acquire_cases:
  assumes "acquire c = (r, c')"
  obtains "closed c" "r = AcquireClosed" "c' = c"
  | n where "\<not> closed c" "node c = Some n" "r = AcquireNode n"
      "c' = (stopTimer c)\<lparr>inflight := inflight c + 1, redials := redials c @ [n]\<rparr>"
  | ch where "\<not> closed c" "node c = None" "starting c = Some ch" "r = AcquireWait ch" "c' = stopTimer c"
  | "\<not> closed c" "node c = None" "starting c = None" "r = AcquireStart (nextChan c)"
      "c' = (stopTimer c)\<lparr>starting := Some (nextChan c), nextChan := Suc (nextChan c), inflight := inflight c + 1\<rparr>"
proof (cases "closed c")
  case True
  show ?thesis by (rule that(1)) (use assms True in \<open>simp_all add: acquire_def\<close>)
next
  case alive: False
  show ?thesis
  proof (cases "node c")
    case (Some n)
    show ?thesis by (rule that(2) [of n]) (use assms alive Some in \<open>simp_all add: acquire_def Let_def\<close>)
  next
    case None
    show ?thesis
    proof (cases "starting c")
      case (Some ch)
      show ?thesis by (rule that(3) [of ch]) (use assms alive None Some in \<open>simp_all add: acquire_def Let_def\<close>)
    next
      case starting: None
      show ?thesis by (rule that(4)) (use assms alive None starting in \<open>simp_all add: acquire_def Let_def\<close>)
    qed
  qed
qed

lemma recordStart_fields:
  assumes "recordStart r c = (b, c')"
  shows "b = closed c" "closed c' = closed c" "retired c' = retired c" "starting c' = None"
    "inflight c' = inflight c" "nextChan c' = nextChan c" "armed c' = armed c"
    "idleTimeout c' = idleTimeout c"
    "node c' = (case r of Inr n \<Rightarrow> if closed c then node c else Some n | Inl e \<Rightarrow> node c)"
  using assms by (auto simp: recordStart_def Let_def split: sum.splits if_splits)

lemma release_fields [simp]:
  "closed (release c) = closed c" "retired (release c) = retired c" "node (release c) = node c"
  "starting (release c) = starting c" "inflight (release c) = inflight c - 1"
  "idleTimeout (release c) = idleTimeout c" "nextChan (release c) = nextChan c"
  by (simp_all add: release_def Let_def)

lemma release_armed:
  "armed (release c) =
     (if inflight c > 1 \<or> closed c \<or> idleTimeout c \<le> 0 then armed c
      else insert (nextTimer c) (armed (stopTimer (c\<lparr>inflight := inflight c - 1\<rparr>))))"
  by (simp add: release_def Let_def)

lemma release_timer:
  "\<lbrakk>inflight c \<le> 1; \<not> closed c; 0 < idleTimeout c\<rbrakk> \<Longrightarrow> timer (release c) = Some (nextTimer c)"
  by (simp add: release_def Let_def)

lemma closeIdle_cases:
  assumes "closeIdle c = (taken, c')"
  obtains "closed c \<or> inflight c > 0 \<or> node c = None" "taken = None" "c' = c"
  | n where "\<not> closed c" "inflight c \<le> 0" "node c = Some n" "taken = Some n"
      "c' = c\<lparr>node := None, timer := None\<rparr>"
proof (cases "closed c \<or> inflight c > 0 \<or> node c = None")
  case True
  show ?thesis by (rule that(1)) (use assms True in \<open>simp_all add: closeIdle_def\<close>)
next
  case False
  then obtain n where "node c = Some n" by auto
  with False show ?thesis
    by (intro that(2) [of n]) (use assms in \<open>simp_all add: closeIdle_def\<close>)
qed

lemma closeClient_cases:
  assumes "closeClient c = (taken, c')"
  obtains "closed c" "taken = None" "c' = c"
  | "\<not> closed c" "taken = node c" "closed c'" "retired c'" "node c' = None"
      "starting c' = starting c" "inflight c' = inflight c" "nextChan c' = nextChan c"
      "idleTimeout c' = idleTimeout c" "armed c' \<subseteq> armed c"
proof (cases "closed c")
  case True
  show ?thesis by (rule that(1)) (use assms True in \<open>simp_all add: closeClient_def\<close>)
next
  case False
  have "armed (stopTimer (c\<lparr>closed := True\<rparr>)) \<subseteq> armed c"
    using stopTimer_armed [of "c\<lparr>closed := True\<rparr>"] by simp
  then show ?thesis
    by (intro that(2)) (use assms False in \<open>auto simp: closeClient_def Let_def\<close>)
qed

lemma go_simps [simp]:
  "client (go i p c s) = c" "goroutines (go i p c s) = (goroutines s)(i := p)"
  "closedChans (go i p c s) = closedChans s" "live (go i p c s) = live s"
  "nextNode (go i p c s) = nextNode s"
  by (simp_all add: go_def)

section \<open>Counting downloads\<close>

lemma countInv_same:
  assumes "countInv s" and "claims p = claims (goroutines s i)" and "inflight c = inflight (client s)"
    and "goroutines s1 = goroutines s"
  shows "countInv (go i p c s1)"
  using assms upd_same_class [of claims "goroutines s" i p] by (simp add: countInv_def)

lemma countInv_enter:
  assumes "countInv s" and "claims p" and "\<not> claims (goroutines s i)" and "inflight c = inflight (client s) + 1"
  shows "countInv (go i p c s)"
  using assms card_upd_enter [of claims "goroutines s" i p] by (simp add: countInv_def)

lemma countInv_leave:
  assumes "countInv s" and "\<not> claims p" and "claims (goroutines s i)" and "inflight c = inflight (client s) - 1"
  shows "countInv (go i p c s)"
  using assms card_upd_leave [of claims "goroutines s" i p] by (simp add: countInv_def)

lemma claims_afterWake [simp]: "claims (afterWake r b)"
  by (cases r) auto

lemma claims_afterClose [simp]: "\<not> claims (afterClose taken)"
  by (cases taken) auto

lemma closeIdle_inflight: "closeIdle c = (taken, c') \<Longrightarrow> inflight c' = inflight c"
  by (erule closeIdle_cases) auto

lemma closeClient_inflight: "closeClient c = (taken, c') \<Longrightarrow> inflight c' = inflight c"
  by (erule closeClient_cases) auto

lemma countInv_step:
  assumes "lifeStep s t" and inv: "countInv s"
  shows "countInv t"
  using assms(1)
proof (cases rule: lifeStep.cases)
  case (life_acquire i r c)
  from life_acquire(3) show ?thesis
    by (cases rule: acquire_cases)
       (auto simp: life_acquire intro: countInv_same [OF inv] countInv_enter [OF inv])
qed (auto intro: countInv_same [OF inv] countInv_leave [OF inv]
       simp: recordStart_fields(5) closeIdle_inflight closeClient_inflight)

section \<open>Closed clients\<close>

lemma closedInv_step:
  assumes "lifeStep s t" and inv: "closedInv s"
  shows "closedInv t"
  using assms(1)
proof (cases rule: lifeStep.cases)
  case (life_acquire i r c)
  from life_acquire(3) show ?thesis
    using inv by (cases rule: acquire_cases) (auto simp: life_acquire closedInv_def)
next
  case (life_record i ch r wasClosed c)
  then show ?thesis using inv recordStart_fields [OF life_record(3)]
    by (auto simp: closedInv_def split: sum.split)
next
  case (life_close_idle i taken c)
  from life_close_idle(3) show ?thesis
    using inv by (cases rule: closeIdle_cases) (auto simp: life_close_idle closedInv_def)
next
  case (life_close i taken c)
  from life_close(3) show ?thesis
    using inv by (cases rule: closeClient_cases) (auto simp: life_close closedInv_def)
qed (use inv in \<open>simp_all add: closedInv_def\<close>)

section \<open>Channels\<close>

lemma chanInvI:
  assumes "\<And>i j ch. announces ch (goroutines s i) \<Longrightarrow> announces ch (goroutines s j) \<Longrightarrow> i = j"
    and "\<And>i ch. announces ch (goroutines s i) \<Longrightarrow> ch < nextChan (client s) \<and> ch \<notin> closedChans s"
    and "\<And>ch. starting (client s) = Some ch \<longleftrightarrow> (\<exists>i. builds ch (goroutines s i))"
    and "\<And>ch. ch \<in> closedChans s \<Longrightarrow> ch < nextChan (client s)"
    and "\<And>i ch. goroutines s i = Waiting ch \<Longrightarrow> ch \<in> closedChans s \<or> (\<exists>j. announces ch (goroutines s j))"
    and "starting (client s) \<noteq> None \<Longrightarrow> node (client s) = None"
  shows "chanInv s"
  unfolding chanInv_def using assms by blast

lemma chanInvD:
  assumes "chanInv s"
  shows chan_unique: "announces ch (goroutines s i) \<Longrightarrow> announces ch (goroutines s j) \<Longrightarrow> i = j"
    and chan_open: "announces ch (goroutines s i) \<Longrightarrow> ch < nextChan (client s) \<and> ch \<notin> closedChans s"
    and chan_starting: "starting (client s) = Some ch \<longleftrightarrow> (\<exists>i. builds ch (goroutines s i))"
    and chan_below: "ch \<in> closedChans s \<Longrightarrow> ch < nextChan (client s)"
    and chan_wait: "goroutines s i = Waiting ch \<Longrightarrow> ch \<in> closedChans s \<or> (\<exists>j. announces ch (goroutines s j))"
    and chan_no_node: "starting (client s) \<noteq> None \<Longrightarrow> node (client s) = None"
  using assms unfolding chanInv_def by blast+

lemma builds_announces: "builds ch p \<Longrightarrow> announces ch p"
  by (cases p) auto

lemma chanInv_same:
  assumes inv: "chanInv s"
    and "\<And>ch. announces ch p = announces ch (goroutines s i)"
    and "\<And>ch. builds ch p = builds ch (goroutines s i)"
    and wait: "\<And>ch. p = Waiting ch \<Longrightarrow> starting (client s) = Some ch"
    and "starting c = starting (client s)" and "nextChan c = nextChan (client s)"
    and "node c = node (client s) \<or> node c = None"
    and "closedChans s1 = closedChans s" and "goroutines s1 = goroutines s"
  shows "chanInv (go i p c s1)"
proof -
  have an: "announces ch (((goroutines s)(i := p)) j) = announces ch (goroutines s j)" for ch j
    using assms(2) by simp
  have bu: "builds ch (((goroutines s)(i := p)) j) = builds ch (goroutines s j)" for ch j
    using assms(3) by simp
  have "ch \<in> closedChans s \<or> (\<exists>j. announces ch (goroutines s j))"
    if "((goroutines s)(i := p)) j = Waiting ch" for j ch
  proof (cases "j = i")
    case True
    then have "starting (client s) = Some ch" using that wait by simp
    then obtain k where "builds ch (goroutines s k)" using chan_starting [OF inv] by blast
    then show ?thesis using builds_announces by blast
  next
    case False
    then show ?thesis using that inv by (auto simp: chanInv_def)
  qed
  moreover note assms(5-9)
  ultimately show ?thesis
    using chan_unique [OF inv] chan_open [OF inv] chan_starting [OF inv] chan_below [OF inv] chan_no_node [OF inv]
    by (intro chanInvI; simp only: go_simps an bu; blast?; auto)
qed

lemma chanInv_start:
  assumes inv: "chanInv s" and pc: "goroutines s i = AtAcquire"
    and none: "node (client s) = None" "starting (client s) = None"
    and c: "starting c = Some (nextChan (client s))" "nextChan c = Suc (nextChan (client s))" "node c = None"
  shows "chanInv (go i (Starting (nextChan (client s))) c s)" (is "chanInv ?t")
proof -
  let ?n = "nextChan (client s)"
  have nob: "\<not> builds ch (goroutines s j)" for ch j
    using chan_starting [OF inv, of ch] none(2) by auto
  have an: "announces ch (goroutines ?t j) \<longleftrightarrow> (if j = i then ch = ?n else announces ch (goroutines s j))" for ch j
    by simp
  show ?thesis
  proof (rule chanInvI)
    show "j = k" if "announces ch (goroutines ?t j)" "announces ch (goroutines ?t k)" for j k ch
      using that chan_open [OF inv] chan_unique [OF inv] unfolding an by (metis less_irrefl)
    show "ch < nextChan (client ?t) \<and> ch \<notin> closedChans ?t" if "announces ch (goroutines ?t j)" for j ch
      using that chan_open [OF inv, of ch j] chan_below [OF inv, of ?n] c(2) unfolding an
      by (auto split: if_splits)
    show "starting (client ?t) = Some ch \<longleftrightarrow> (\<exists>j. builds ch (goroutines ?t j))" for ch
      using nob c(1) by auto
    show "ch < nextChan (client ?t)" if "ch \<in> closedChans ?t" for ch
      using that chan_below [OF inv, of ch] c(2) by simp
    show "ch \<in> closedChans ?t \<or> (\<exists>j. announces ch (goroutines ?t j))" if "goroutines ?t j = Waiting ch" for j ch
    proof -
      have "goroutines s j = Waiting ch" using that by (simp split: if_splits)
      then have "ch \<in> closedChans s \<or> (\<exists>k. announces ch (goroutines s k))" by (rule chan_wait [OF inv])
      moreover have "\<not> announces ch (goroutines s i)" by (simp add: pc)
      ultimately show ?thesis unfolding an by (simp only: go_simps) metis
    qed
  qed (simp add: c(3))
qed

lemma chanInv_record:
  assumes inv: "chanInv s" and pc: "goroutines s i = Started ch r"
    and c: "starting c = None" "nextChan c = nextChan (client s)"
  shows "chanInv (go i (Recorded ch r b) c s)" (is "chanInv ?t")
proof -
  have an: "announces ch' (goroutines ?t j) = announces ch' (goroutines s j)" for ch' j
    by (simp add: pc)
  have me: "builds ch (goroutines s i)" by (simp add: pc)
  have start: "starting (client s) = Some ch" using chan_starting [OF inv] me by blast
  have nob: "\<not> builds ch' (goroutines ?t j)" for ch' j
  proof
    assume b: "builds ch' (goroutines ?t j)"
    then have j: "j \<noteq> i" and old: "builds ch' (goroutines s j)" by (auto split: if_splits)
    have "starting (client s) = Some ch'" using chan_starting [OF inv] old by blast
    with start have "ch' = ch" by simp
    with old me j show False
      using chan_unique [OF inv] builds_announces by blast
  qed
  show ?thesis
  proof (rule chanInvI)
    show "starting (client ?t) = Some ch' \<longleftrightarrow> (\<exists>j. builds ch' (goroutines ?t j))" for ch'
      using nob c(1) by simp
    show "ch' \<in> closedChans ?t \<or> (\<exists>j. announces ch' (goroutines ?t j))" if "goroutines ?t j = Waiting ch'" for j ch'
    proof -
      have "goroutines s j = Waiting ch'" using that by (simp split: if_splits)
      then show ?thesis unfolding an using chan_wait [OF inv] by simp
    qed
    show "starting (client ?t) \<noteq> None \<Longrightarrow> node (client ?t) = None" by (simp add: c(1))
  qed (use chan_unique [OF inv] chan_open [OF inv] chan_below [OF inv] in \<open>unfold an, simp_all add: c(2)\<close>)
qed

lemma builds_afterWake [simp]: "\<not> builds ch (afterWake r b)"
  by (cases r) auto

lemma announces_afterWake [simp]: "\<not> announces ch (afterWake r b)"
  by (cases r) auto

lemma afterWake_not_Waiting [simp]: "afterWake r b \<noteq> Waiting ch"
  by (cases r) auto

lemma chanInv_wake:
  assumes inv: "chanInv s" and pc: "goroutines s i = Recorded ch r b"
  shows "chanInv (go i (afterWake r b) (client s) (s\<lparr>closedChans := insert ch (closedChans s)\<rparr>))" (is "chanInv ?t")
proof -
  have me: "announces ch (goroutines s i)" by (simp add: pc)
  have an: "announces ch' (goroutines ?t j) \<longleftrightarrow> j \<noteq> i \<and> announces ch' (goroutines s j)" for ch' j
    by simp
  have bu: "builds ch' (goroutines ?t j) \<longleftrightarrow> builds ch' (goroutines s j)" for ch' j
    by (simp add: pc)
  show ?thesis
  proof (rule chanInvI)
    show "ch' < nextChan (client ?t) \<and> ch' \<notin> closedChans ?t" if "announces ch' (goroutines ?t j)" for j ch'
      using that chan_open [OF inv, of ch' j] chan_unique [OF inv, of ch i j] me unfolding an by auto
    show "ch' < nextChan (client ?t)" if "ch' \<in> closedChans ?t" for ch'
      using that chan_below [OF inv] chan_open [OF inv me] by auto
    show "ch' \<in> closedChans ?t \<or> (\<exists>j. announces ch' (goroutines ?t j))" if "goroutines ?t j = Waiting ch'" for j ch'
    proof -
      have "goroutines s j = Waiting ch'" using that by (simp split: if_splits)
      then have "ch' \<in> closedChans s \<or> (\<exists>k. announces ch' (goroutines s k))" by (rule chan_wait [OF inv])
      moreover have "announces ch' (goroutines s i) \<longleftrightarrow> ch' = ch" by (simp add: pc)
      ultimately show ?thesis unfolding an by simp metis
    qed
    show "starting (client ?t) = Some ch' \<longleftrightarrow> (\<exists>j. builds ch' (goroutines ?t j))" for ch'
      unfolding bu using chan_starting [OF inv] by simp
    show "j = k" if "announces ch' (goroutines ?t j)" "announces ch' (goroutines ?t k)" for j k ch'
      using that chan_unique [OF inv] unfolding an by blast
  qed (use chan_no_node [OF inv] in simp)
qed

lemma afterClose_quiet [simp]:
  "\<not> builds ch (afterClose taken)" "\<not> announces ch (afterClose taken)" "afterClose taken \<noteq> Waiting ch"
  by (cases taken; simp)+

lemma closeIdle_fields:
  assumes "closeIdle c = (taken, c')"
  shows "starting c' = starting c" "nextChan c' = nextChan c" "node c' = node c \<or> node c' = None"
    "closed c' = closed c" "idleTimeout c' = idleTimeout c" "armed c' = armed c"
  using assms by (cases rule: closeIdle_cases; simp)+

lemma closeClient_fields:
  assumes "closeClient c = (taken, c')"
  shows "starting c' = starting c" "nextChan c' = nextChan c" "node c' = node c \<or> node c' = None"
    "closed c'" "idleTimeout c' = idleTimeout c" "armed c' \<subseteq> armed c"
  using assms by (cases rule: closeClient_cases; simp)+

lemma chanInv_acquire:
  assumes inv: "chanInv s" and pc: "goroutines s i = AtAcquire" and step: "acquire (client s) = (r, c)"
  shows "chanInv (go i (afterAcquire r) c s)"
  using step
proof (cases rule: acquire_cases)
  case 4
  then show ?thesis using chanInv_start [OF inv pc] by simp
qed (auto intro!: chanInv_same [OF inv] simp: pc)

lemma chanInv_step:
  assumes "lifeStep s t" and inv: "chanInv s"
  shows "chanInv t"
  using assms(1)
proof (cases rule: lifeStep.cases)
  case (life_acquire i r c)
  then show ?thesis using chanInv_acquire [OF inv] by simp
next
  case (life_record i ch r wasClosed c)
  then show ?thesis
    using chanInv_record [OF inv life_record(2)] recordStart_fields [OF life_record(3)] by simp
next
  case (life_wake i ch r wasClosed)
  then show ?thesis using chanInv_wake [OF inv] by simp
next
  case (life_close_idle i taken c)
  then show ?thesis
    using closeIdle_fields [OF life_close_idle(3)] by (auto intro!: chanInv_same [OF inv])
next
  case (life_close i taken c)
  then show ?thesis
    using closeClient_fields [OF life_close(3)] by (auto intro!: chanInv_same [OF inv])
qed (auto intro!: chanInv_same [OF inv])

section \<open>Who closes a node\<close>

lemma ownInvI:
  assumes "\<And>i j n. owns n (goroutines s i) \<Longrightarrow> owns n (goroutines s j) \<Longrightarrow> i = j"
    and "\<And>i n. owns n (goroutines s i) \<Longrightarrow> n \<in> live s \<and> node (client s) \<noteq> Some n"
    and "\<And>n. node (client s) = Some n \<Longrightarrow> n \<in> live s"
    and "\<And>n. n \<in> live s \<Longrightarrow> n < nextNode s \<and> (node (client s) = Some n \<or> (\<exists>i. owns n (goroutines s i)))"
  shows "ownInv s"
  unfolding ownInv_def using assms by blast

lemma ownInvD:
  assumes "ownInv s"
  shows own_unique: "owns n (goroutines s i) \<Longrightarrow> owns n (goroutines s j) \<Longrightarrow> i = j"
    and own_live: "owns n (goroutines s i) \<Longrightarrow> n \<in> live s \<and> node (client s) \<noteq> Some n"
    and node_live: "node (client s) = Some n \<Longrightarrow> n \<in> live s"
    and live_owned: "n \<in> live s \<Longrightarrow> n < nextNode s \<and> (node (client s) = Some n \<or> (\<exists>i. owns n (goroutines s i)))"
  using assms unfolding ownInv_def by blast+

text \<open>A node changes hands, or none does.\<close>

lemma ownInv_same:
  assumes inv: "ownInv s" and "\<And>n. owns n p = owns n (goroutines s i)" and "node c = node (client s)"
    and "live s1 = live s" "nextNode s1 = nextNode s" "goroutines s1 = goroutines s"
  shows "ownInv (go i p c s1)"
proof -
  have ow: "owns n (((goroutines s)(i := p)) j) = owns n (goroutines s j)" for n j
    using assms(2) by simp
  show ?thesis
    using ownInvD [OF inv] assms(3-) by (intro ownInvI; simp only: go_simps ow; blast?)
qed

lemma ownInv_taken:
  assumes inv: "ownInv s" and idle: "\<And>n. \<not> owns n (goroutines s i)" and new: "node (client s) = Some m"
    and p: "\<And>n. owns n p \<longleftrightarrow> n = m" and c: "node c = None"
  shows "ownInv (go i p c s)"
proof -
  have ow: "owns n (((goroutines s)(i := p)) j) \<longleftrightarrow> (if j = i then n = m else owns n (goroutines s j))" for n j
    using p by simp
  have "\<not> owns m (goroutines s j)" for j using own_live [OF inv, of m j] new by blast
  then show ?thesis
    using ownInvD [OF inv] idle new c
    by (intro ownInvI; simp only: go_simps ow split: if_splits) (metis option.inject option.distinct(1))+
qed

lemma ownInv_given:
  assumes inv: "ownInv s" and pc: "\<And>n. owns n (goroutines s i) \<longleftrightarrow> n = m" and none: "node (client s) = None"
    and p: "\<And>n. \<not> owns n p" and c: "node c = Some m"
  shows "ownInv (go i p c s)"
proof -
  have ow: "owns n (((goroutines s)(i := p)) j) \<longleftrightarrow> j \<noteq> i \<and> owns n (goroutines s j)" for n j
    using p by simp
  show ?thesis
    using ownInvD [OF inv] pc none c
    by (intro ownInvI; simp only: go_simps ow) (metis option.inject option.distinct(1))+
qed

lemma ownInv_born:
  assumes inv: "ownInv s" and idle: "\<And>n. \<not> owns n (goroutines s i)" and p: "\<And>n. owns n p \<longleftrightarrow> n = nextNode s"
    and c: "node c = node (client s)"
    and s1: "live s1 = insert (nextNode s) (live s)" "nextNode s1 = Suc (nextNode s)" "goroutines s1 = goroutines s"
  shows "ownInv (go i p c s1)"
proof -
  have ow: "owns n (((goroutines s)(i := p)) j) \<longleftrightarrow> (if j = i then n = nextNode s else owns n (goroutines s j))" for n j
    using p by simp
  have fresh: "nextNode s \<notin> live s" using live_owned [OF inv] by blast
  then show ?thesis
    using ownInvD [OF inv] idle c s1
    by (intro ownInvI; simp only: go_simps ow split: if_splits) (metis insert_iff less_SucI lessI)+
qed

lemma ownInv_gone:
  assumes inv: "ownInv s" and pc: "\<And>n. owns n (goroutines s i) \<longleftrightarrow> n = m" and p: "\<And>n. \<not> owns n p"
    and c: "node c = node (client s)"
    and s1: "live s1 = live s - {m}" "nextNode s1 = nextNode s" "goroutines s1 = goroutines s"
  shows "ownInv (go i p c s1)"
proof -
  have ow: "owns n (((goroutines s)(i := p)) j) \<longleftrightarrow> j \<noteq> i \<and> owns n (goroutines s j)" for n j
    using p by simp
  show ?thesis
    using ownInvD [OF inv] pc c s1
    by (intro ownInvI; simp only: go_simps ow) (metis Diff_iff singletonD singletonI)+
qed

lemma acquire_frame:
  assumes "acquire c = (r, c')"
  shows "node c' = node c" "closed c' = closed c" "idleTimeout c' = idleTimeout c" "\<not> owns n (afterAcquire r)"
  using assms by (cases rule: acquire_cases; simp)+

lemma started_no_node:
  assumes "chanInv s" and "goroutines s i = Started ch r"
  shows "node (client s) = None"
proof -
  have "builds ch (goroutines s i)" using assms(2) by simp
  then have "starting (client s) = Some ch" using chan_starting [OF assms(1)] by blast
  then show ?thesis using chan_no_node [OF assms(1)] by simp
qed

lemma ownInv_record:
  assumes inv: "ownInv s" "chanInv s" and pc: "goroutines s i = Started ch r"
    and step: "recordStart r (client s) = (b, c)"
  shows "ownInv (go i (Recorded ch r b) c s)"
proof (cases r)
  case (Inl e)
  then show ?thesis using recordStart_fields [OF step] pc by (intro ownInv_same [OF inv(1)]) auto
next
  case (Inr n)
  note f = recordStart_fields [OF step] and none = started_no_node [OF inv(2) pc]
  show ?thesis
  proof (cases "closed (client s)")
    case True
    then show ?thesis using f pc Inr by (intro ownInv_same [OF inv(1)]) auto
  next
    case False
    then show ?thesis using f pc Inr none by (intro ownInv_given [OF inv(1), of _ n]) auto
  qed
qed

lemma ownInv_close_idle:
  assumes inv: "ownInv s" and pc: "goroutines s i = AtCloseIdle" and step: "closeIdle (client s) = (taken, c)"
  shows "ownInv (go i (afterClose taken) c s)"
  using step
proof (cases rule: closeIdle_cases)
  case 1
  then show ?thesis using pc by (intro ownInv_same [OF inv]) auto
next
  case (2 n)
  then show ?thesis using pc by (intro ownInv_taken [OF inv, of _ n]) auto
qed

lemma ownInv_close:
  assumes inv: "ownInv s" and pc: "goroutines s i = AtClose" and step: "closeClient (client s) = (taken, c)"
  shows "ownInv (go i (afterClose taken) c s)"
  using step
proof (cases rule: closeClient_cases)
  case 1
  then show ?thesis using pc by (intro ownInv_same [OF inv]) auto
next
  case 2
  show ?thesis
  proof (cases "node (client s)")
    case None
    then show ?thesis using 2 pc by (intro ownInv_same [OF inv]) auto
  next
    case (Some n)
    then show ?thesis using 2 pc by (intro ownInv_taken [OF inv, of _ n]) auto
  qed
qed

lemma owns_afterWake [simp]: "owns n (afterWake r b) = owns n (Recorded ch r b)"
  by (cases r) auto

lemma ownInv_step:
  assumes "lifeStep s t" and inv: "ownInv s" "chanInv s"
  shows "ownInv t"
  using assms(1)
proof (cases rule: lifeStep.cases)
  case (life_acquire i r c)
  then show ?thesis using acquire_frame [OF life_acquire(3)] by (auto intro!: ownInv_same [OF inv(1)])
next
  case (life_started i ch)
  then show ?thesis by (auto intro!: ownInv_born [OF inv(1)])
next
  case (life_record i ch r wasClosed c)
  then show ?thesis using ownInv_record [OF inv] by simp
next
  case (life_wake i ch r wasClosed)
  then show ?thesis by (auto intro!: ownInv_same [OF inv(1)] simp del: owns.simps simp: owns_afterWake [of _ _ _ ch])
next
  case (life_discard i n)
  then show ?thesis by (auto intro!: ownInv_gone [OF inv(1), of _ n])
next
  case (life_close_idle i taken c)
  then show ?thesis using ownInv_close_idle [OF inv(1)] by simp
next
  case (life_close i taken c)
  then show ?thesis using ownInv_close [OF inv(1)] by simp
next
  case (life_closed i n)
  then show ?thesis by (auto intro!: ownInv_gone [OF inv(1), of _ n])
qed (auto intro!: ownInv_same [OF inv(1)])

section \<open>Nodes in use\<close>

lemma expects_claims: "expects n p \<Longrightarrow> claims p"
  by (cases p) auto

lemma claim_counted:
  assumes "countInv s" and "claims (goroutines s i)"
  shows "0 < inflight (client s)"
proof -
  have "i \<in> {i. claims (goroutines s i)}" using assms(2) by simp
  then show ?thesis using assms(1) by (auto simp: countInv_def card_gt_0_iff)
qed

lemma useInv_same:
  assumes inv: "useInv s" and p: "\<And>n. expects n p \<Longrightarrow> \<not> closed c \<Longrightarrow> node c = Some n"
    and c: "\<not> closed c \<Longrightarrow> \<not> closed (client s) \<and> node c = node (client s)"
    and s1: "goroutines s1 = goroutines s"
  shows "useInv (go i p c s1)"
  using assms by (auto simp: useInv_def)

lemma expects_afterWake [simp]: "expects n (afterWake r b) = expects n (Recorded ch r b)"
  by (cases r) auto

lemma expects_afterClose [simp]: "\<not> expects n (afterClose taken)"
  by (cases taken) auto

lemma useInv_acquire:
  assumes inv: "useInv s" and step: "acquire (client s) = (r, c)"
  shows "useInv (go i (afterAcquire r) c s)"
  using step by (cases rule: acquire_cases) (auto intro!: useInv_same [OF inv])

lemma useInv_record:
  assumes inv: "useInv s" "chanInv s" and pc: "goroutines s i = Started ch r"
    and step: "recordStart r (client s) = (b, c)"
  shows "useInv (go i (Recorded ch r b) c s)"
proof -
  note f = recordStart_fields [OF step] and none = started_no_node [OF inv(2) pc]
  have "\<not> expects n (goroutines s j)" if "\<not> closed (client s)" for n j
    using inv(1) none that by (auto simp: useInv_def)
  then show ?thesis using f none by (cases r) (auto simp: useInv_def split: if_splits)
qed

lemma useInv_close_idle:
  assumes inv: "useInv s" "countInv s" and step: "closeIdle (client s) = (taken, c)"
  shows "useInv (go i (afterClose taken) c s)"
  using step
proof (cases rule: closeIdle_cases)
  case 1
  then show ?thesis by (auto intro!: useInv_same [OF inv(1)])
next
  case (2 n)
  then have "\<not> expects m (goroutines s j)" for m j
    using claim_counted [OF inv(2)] expects_claims by (metis linorder_not_less)
  then show ?thesis by (auto simp: useInv_def)
qed

lemma useInv_step:
  assumes "lifeStep s t" and inv: "useInv s" "chanInv s" "countInv s"
  shows "useInv t"
  using assms(1)
proof (cases rule: lifeStep.cases)
  case (life_acquire i r c)
  then show ?thesis using useInv_acquire [OF inv(1)] by simp
next
  case (life_record i ch r wasClosed c)
  then show ?thesis using useInv_record [OF inv(1,2)] by simp
next
  case (life_wake i ch r wasClosed)
  have "node (client s) = Some n" if "expects n (afterWake r wasClosed)" "\<not> closed (client s)" for n
    using that inv(1) life_wake(2) unfolding useInv_def expects_afterWake [of _ _ _ ch] by metis
  then show ?thesis using life_wake(1) by (auto intro!: useInv_same [OF inv(1)])
next
  case (life_close_idle i taken c)
  then show ?thesis using useInv_close_idle [OF inv(1,3)] by simp
next
  case (life_close i taken c)
  then show ?thesis
    using closeClient_fields [OF life_close(3)] by (auto intro!: useInv_same [OF inv(1)])
qed (auto intro!: useInv_same [OF inv(1)])

section \<open>Idle nodes\<close>

lemma timerInv_same:
  assumes inv: "timerInv s" and pc: "goroutines s i \<noteq> AtCloseIdle" "p \<noteq> AtCloseIdle"
    and c: "closed c = closed (client s)" "idleTimeout c = idleTimeout (client s)" "node c = node (client s)"
      "inflight c = inflight (client s)" "armed c = armed (client s)" "timer c = timer (client s)"
    and s1: "goroutines s1 = goroutines s"
  shows "timerInv (go i p c s1)"
proof -
  have "(\<exists>j. ((goroutines s)(i := p)) j = AtCloseIdle) \<longleftrightarrow> (\<exists>j. goroutines s j = AtCloseIdle)"
    using pc by (metis fun_upd_apply)
  then show ?thesis using inv pc c s1 by (auto simp: timerInv_def)
qed

text \<open>A step after which the client is closed, in use or without a node.\<close>

lemma timerInv_busy:
  assumes inv: "timerInv s" and p: "p \<noteq> AtCloseIdle"
    and "idleTimeout c = idleTimeout (client s)" "armed c \<subseteq> armed (client s)"
    and "closed c \<or> node c = None \<or> inflight c \<noteq> 0"
    and s1: "goroutines s1 = goroutines s"
  shows "timerInv (go i p c s1)"
  using assms by (auto simp: timerInv_def)

lemma countInv_nonneg: "countInv s \<Longrightarrow> 0 \<le> inflight (client s)"
  by (simp add: countInv_def)

lemma afterAcquire_not_sweep [simp]: "afterAcquire r \<noteq> AtCloseIdle"
  by (cases r) auto

lemma afterWake_not_sweep [simp]: "afterWake r b \<noteq> AtCloseIdle"
  by (cases r) auto

lemma afterClose_not_sweep [simp]: "afterClose taken \<noteq> AtCloseIdle"
  by (cases taken) auto

lemma timerInv_acquire:
  assumes inv: "timerInv s" "countInv s" and pc: "goroutines s i = AtAcquire"
    and step: "acquire (client s) = (r, c)"
  shows "timerInv (go i (afterAcquire r) c s)"
  using step
proof (cases rule: acquire_cases)
  case 1
  then show ?thesis using pc by (auto intro!: timerInv_same [OF inv(1)])
qed (use stopTimer_armed [of "client s"] countInv_nonneg [OF inv(2)] in \<open>auto intro!: timerInv_busy [OF inv(1)]\<close>)

lemma timerInv_release:
  assumes inv: "timerInv s" and pc: "goroutines s i = Releasing r"
  shows "timerInv (go i (Returned r) (release (client s)) s)"
  using inv pc by (auto simp: timerInv_def release_armed release_timer)

lemma timerInv_fire:
  assumes inv: "timerInv s" and t: "t \<in> armed (client s)"
  shows "timerInv (go i AtCloseIdle ((client s)\<lparr>armed := armed (client s) - {t}\<rparr>) s)"
  using inv t by (auto simp: timerInv_def)

lemma timerInv_step:
  assumes "lifeStep s t" and inv: "timerInv s" "countInv s"
  shows "timerInv t"
  using assms(1)
proof (cases rule: lifeStep.cases)
  case (life_acquire i r c)
  then show ?thesis using timerInv_acquire [OF inv] by simp
next
  case (life_record i ch r wasClosed c)
  have "0 < inflight (client s)" by (rule claim_counted [OF inv(2), of i]) (simp add: life_record)
  then show ?thesis using life_record(1) recordStart_fields [OF life_record(3)]
    by (auto intro!: timerInv_busy [OF inv(1)])
next
  case (life_release i r)
  then show ?thesis using timerInv_release [OF inv(1)] by simp
next
  case (life_timer i t)
  then show ?thesis using timerInv_fire [OF inv(1)] by simp
next
  case (life_close_idle i taken c)
  from life_close_idle(3) show ?thesis
    by (cases rule: closeIdle_cases) (auto simp: life_close_idle intro!: timerInv_busy [OF inv(1)])
next
  case (life_close i taken c)
  then show ?thesis
    using closeClient_fields [OF life_close(3)] by (auto intro!: timerInv_busy [OF inv(1)])
qed (auto intro!: timerInv_same [OF inv(1)])

section \<open>The client's life as an invariant system\<close>

lemma lifeInv_init: "lifeInv (lifeInit idle)"
  by (simp add: lifeInv_def countInv_def closedInv_def chanInv_def ownInv_def useInv_def timerInv_def
      lifeInit_def newClientState_def)

lemma lifeInv_step: "lifeStep s t \<Longrightarrow> lifeInv s \<Longrightarrow> lifeInv t"
  unfolding lifeInv_def
  using countInv_step closedInv_step chanInv_step ownInv_step useInv_step timerInv_step by blast

interpretation life: invariant_system "lifeInit idle" lifeStep lifeInv for idle
  by unfold_locales (auto intro: lifeInv_init lifeInv_step)

lemma life_reach:
  assumes "reach (lifeInit idle) lifeStep s"
  shows "countInv s" "closedInv s" "chanInv s" "ownInv s" "useInv s" "timerInv s"
  using life.reach_inv [OF assms] by (simp_all add: lifeInv_def)

end
