(* ===== verification/Lifecycle_Props.thy ===== *)
theory Lifecycle_Props
  imports Lifecycle_Inv
begin

text \<open>
  The properties of the client's life, drawn from its invariants, with an executable scheduler
  that replays concrete interleavings.
\<close>

section \<open>Replaying an interleaving\<close>

text \<open>What the environment decides when a goroutine moves; \<open>Proceed\<close> leaves nothing to decide.\<close>

datatype move = CallGet | CallClose | Fire timerId | GiveUp ctxState | StartOk | StartFail error
  | Finish "error option" | Proceed

definition perform :: "nat \<Rightarrow> move \<Rightarrow> lifeSystem \<Rightarrow> lifeSystem option" where
  "perform i m s =
     (case (goroutines s i, m) of
        (Idle, CallGet) \<Rightarrow> Some (go i AtAcquire (client s) s)
      | (Idle, CallClose) \<Rightarrow> Some (go i AtClose (client s) s)
      | (Idle, Fire t) \<Rightarrow>
          (if t \<in> armed (client s)
           then Some (go i AtCloseIdle ((client s)\<lparr>armed := armed (client s) - {t}\<rparr>) s) else None)
      | (AtAcquire, Proceed) \<Rightarrow>
          Some (go i (afterAcquire (fst (acquire (client s)))) (snd (acquire (client s))) s)
      | (Waiting ch, Proceed) \<Rightarrow> (if ch \<in> closedChans s then Some (go i AtAcquire (client s) s) else None)
      | (Waiting ch, GiveUp ctx) \<Rightarrow>
          (if ctx \<noteq> CtxLive then Some (go i (Returned (contextError ctx)) (client s) s) else None)
      | (Starting ch, StartOk) \<Rightarrow>
          Some (go i (Started ch (Inr (nextNode s))) (client s)
            (s\<lparr>live := insert (nextNode s) (live s), nextNode := Suc (nextNode s)\<rparr>))
      | (Starting ch, StartFail e) \<Rightarrow> Some (go i (Started ch (Inl e)) (client s) s)
      | (Started ch r, Proceed) \<Rightarrow>
          Some (go i (Recorded ch r (fst (recordStart r (client s)))) (snd (recordStart r (client s))) s)
      | (Recorded ch r b, Proceed) \<Rightarrow>
          (if ch \<notin> closedChans s
           then Some (go i (afterWake r b) (client s) (s\<lparr>closedChans := insert ch (closedChans s)\<rparr>)) else None)
      | (Discarding n, Proceed) \<Rightarrow>
          Some (go i (Releasing (Some ErrClosed)) (client s) (s\<lparr>live := live s - {n}\<rparr>))
      | (Using n, Finish r) \<Rightarrow> Some (go i (Releasing r) (client s) s)
      | (Releasing r, Proceed) \<Rightarrow> Some (go i (Returned r) (release (client s)) s)
      | (AtCloseIdle, Proceed) \<Rightarrow>
          Some (go i (afterClose (fst (closeIdle (client s)))) (snd (closeIdle (client s))) s)
      | (AtClose, Proceed) \<Rightarrow>
          Some (go i (afterClose (fst (closeClient (client s)))) (snd (closeClient (client s))) s)
      | (Closing n, Proceed) \<Rightarrow> Some (go i (Returned None) (client s) (s\<lparr>live := live s - {n}\<rparr>))
      | _ \<Rightarrow> None)"

lemma perform_step: "perform i m s = Some t \<Longrightarrow> lifeStep s t"
  by (cases "goroutines s i"; cases m)
     (auto simp: perform_def split: if_splits intro: lifeStep.intros prod.collapse [symmetric])

fun replay :: "(nat \<times> move) list \<Rightarrow> lifeSystem \<Rightarrow> lifeSystem option" where
  "replay [] s = Some s"
| "replay ((i, m) # ms) s = (case perform i m s of None \<Rightarrow> None | Some t \<Rightarrow> replay ms t)"

lemma replay_reach: "replay ms s = Some t \<Longrightarrow> reach s0 lifeStep s \<Longrightarrow> reach s0 lifeStep t"
  by (induction ms s rule: replay.induct) (auto split: option.splits intro: reach_step perform_step)

lemmas replay_simps =
  perform_def lifeInit_def newClientState_def acquire_def stopTimer_def recordStart_def release_def
  closeIdle_def closeClient_def go_def

text \<open>A download that started the node and is using it; the same with the node idle afterwards.\<close>

definition warmUp :: "(nat \<times> move) list" where
  "warmUp = [(0, CallGet), (0, Proceed), (0, StartOk), (0, Proceed), (0, Proceed)]"

definition coolDown :: "(nat \<times> move) list" where
  "coolDown = [(0, Finish None), (0, Proceed)]"

lemma replay_append:
  "replay (ms @ ns) s = (case replay ms s of None \<Rightarrow> None | Some t \<Rightarrow> replay ns t)"
  by (induction ms s rule: replay.induct) (auto split: option.splits)

lemma warm:
  "\<exists>s. replay warmUp (lifeInit 5) = Some s \<and> goroutines s = (\<lambda>_. Idle)(0 := Using 0)
     \<and> client s = (newClientState 5)\<lparr>node := Some 0, nextChan := 1, inflight := 1\<rparr>
     \<and> live s = {0} \<and> closedChans s = {0} \<and> nextNode s = 1"
  by (simp add: warmUp_def replay_simps)

lemma warm_state:
  obtains s where "reach (lifeInit 5) lifeStep s" "goroutines s = (\<lambda>_. Idle)(0 := Using 0)"
    "client s = (newClientState 5)\<lparr>node := Some 0, nextChan := 1, inflight := 1\<rparr>"
    "live s = {0}" "closedChans s = {0}" "nextNode s = 1"
proof -
  obtain s where r: "replay warmUp (lifeInit 5) = Some s" and s: "goroutines s = (\<lambda>_. Idle)(0 := Using 0)"
    "client s = (newClientState 5)\<lparr>node := Some 0, nextChan := 1, inflight := 1\<rparr>"
    "live s = {0}" "closedChans s = {0}" "nextNode s = 1"
    using warm by auto
  show ?thesis by (rule that [OF replay_reach [OF r reach_start] s])
qed

section \<open>Downloads and their node\<close>

text \<open>
  C1. A node in use is never taken from under a download: however downloads, timers and calls of
  \<open>Close\<close> interleave, while a download is using a node and the client has not been closed, that node
  is live and is the client's node, and the idle sweep leaves everything as it is.
\<close>

theorem node_in_use_stays:
  assumes "reach (lifeInit idle) lifeStep s" and "goroutines s i = Using n" and "\<not> closed (client s)"
  shows "node (client s) = Some n \<and> n \<in> live s \<and> closeIdle (client s) = (None, client s)"
proof -
  note inv = life_reach [OF assms(1)]
  have "expects n (goroutines s i)" "claims (goroutines s i)" using assms(2) by simp_all
  then have "node (client s) = Some n" "0 < inflight (client s)"
    using inv(1,5) assms(3) claim_counted by (auto simp: useInv_def)
  then show ?thesis using node_live [OF inv(4)] by (simp add: closeIdle_def)
qed

theorem node_in_use_stays_witness:
  "\<exists>s. reach (lifeInit 5) lifeStep s \<and> goroutines s 0 = Using 0 \<and> 0 \<in> live s
     \<and> closeIdle (client s) = (None, client s)"
proof -
  obtain s where s: "reach (lifeInit 5) lifeStep s" "goroutines s = (\<lambda>_. Idle)(0 := Using 0)"
    "client s = (newClientState 5)\<lparr>node := Some 0, nextChan := 1, inflight := 1\<rparr>"
    by (rule warm_state)
  then have "goroutines s 0 = Using 0" "\<not> closed (client s)" by (simp_all add: newClientState_def)
  with node_in_use_stays [OF s(1)] show ?thesis using s(1) by blast
qed

text \<open>
  One caller starts the node and the rest wait: at most one goroutine is building a node at any
  time, and only while the client has none.
\<close>

theorem single_start:
  assumes "reach (lifeInit idle) lifeStep s" and "builds ch (goroutines s i)"
  shows "node (client s) = None \<and> starting (client s) = Some ch
    \<and> (\<forall>j ch'. builds ch' (goroutines s j) \<longrightarrow> j = i \<and> ch' = ch)"
proof -
  note inv = life_reach(3) [OF assms(1)]
  have start: "starting (client s) = Some ch" using chan_starting [OF inv] assms(2) by blast
  have "j = i \<and> ch' = ch" if "builds ch' (goroutines s j)" for j ch'
  proof -
    have "starting (client s) = Some ch'" using chan_starting [OF inv] that by blast
    with start have "ch' = ch" by simp
    with that assms(2) show ?thesis using chan_unique [OF inv] builds_announces by blast
  qed
  then show ?thesis using start chan_no_node [OF inv] by simp
qed

definition crowd :: "(nat \<times> move) list" where
  "crowd = [(0, CallGet), (1, CallGet), (0, Proceed), (1, Proceed)]"

lemma crowd_state:
  obtains s where "reach (lifeInit 5) lifeStep s"
    "goroutines s = (\<lambda>_. Idle)(0 := Starting 0, 1 := Waiting 0)"
proof -
  have "\<exists>s. replay crowd (lifeInit 5) = Some s \<and> goroutines s = (\<lambda>_. Idle)(0 := Starting 0, 1 := Waiting 0)"
    by (simp add: crowd_def replay_simps)
  then obtain s where r: "replay crowd (lifeInit 5) = Some s"
    and s: "goroutines s = (\<lambda>_. Idle)(0 := Starting 0, 1 := Waiting 0)" by auto
  show ?thesis by (rule that [OF replay_reach [OF r reach_start] s])
qed

theorem single_start_witness:
  "\<exists>s. reach (lifeInit 5) lifeStep s \<and> goroutines s 1 = Waiting 0
     \<and> {(j, ch'). builds ch' (goroutines s j)} = {(0, 0)}"
proof -
  obtain s where s: "reach (lifeInit 5) lifeStep s"
    "goroutines s = (\<lambda>_. Idle)(0 := Starting 0, 1 := Waiting 0)"
    by (rule crowd_state)
  then have "builds 0 (goroutines s 0)" "goroutines s 1 = Waiting 0" by simp_all
  with single_start [OF s(1)] show ?thesis using s(1) by blast
qed

text \<open>
  A waiter still where it waited, its channel closed; and how each point of the starter's way leads
  there.
\<close>

definition wakeable :: "nat \<Rightarrow> chan \<Rightarrow> lifeSystem \<Rightarrow> bool" where
  "wakeable i ch s \<longleftrightarrow> (\<exists>t. reach s lifeStep t \<and> goroutines t i = Waiting ch \<and> ch \<in> closedChans t)"

lemma wakeable_step: "lifeStep s u \<Longrightarrow> wakeable i ch u \<Longrightarrow> wakeable i ch s"
  unfolding wakeable_def by (meson reach_trans reach_start reach_step)

lemma wakeable_now: "goroutines s i = Waiting ch \<Longrightarrow> ch \<in> closedChans s \<Longrightarrow> wakeable i ch s"
  unfolding wakeable_def using reach_start by metis

lemma wakeable_recorded:
  assumes "chanInv s" and pc: "goroutines s j = Recorded ch r b" and me: "goroutines s i = Waiting ch"
  shows "wakeable i ch s"
proof (rule wakeable_step)
  have "ch \<notin> closedChans s" using chan_open [OF assms(1), of ch j] pc by simp
  then show "lifeStep s (go j (afterWake r b) (client s) (s\<lparr>closedChans := insert ch (closedChans s)\<rparr>))"
    by (rule life_wake [OF pc])
  show "wakeable i ch (go j (afterWake r b) (client s) (s\<lparr>closedChans := insert ch (closedChans s)\<rparr>))"
    using pc me by (intro wakeable_now) auto
qed

lemma wakeable_started:
  assumes "chanInv s" and pc: "goroutines s j = Started ch r" and me: "goroutines s i = Waiting ch"
  shows "wakeable i ch s"
proof -
  obtain b c where "recordStart r (client s) = (b, c)" by (cases "recordStart r (client s)")
  then have st: "lifeStep s (go j (Recorded ch r b) c s)" by (rule life_record [OF pc])
  have "wakeable i ch (go j (Recorded ch r b) c s)"
    using pc me by (intro wakeable_recorded [where j = j, OF chanInv_step [OF st assms(1)]]) auto
  then show ?thesis by (rule wakeable_step [OF st])
qed

lemma wakeable_starting:
  assumes "chanInv s" and pc: "goroutines s j = Starting ch" and me: "goroutines s i = Waiting ch"
  shows "wakeable i ch s"
proof -
  have st: "lifeStep s (go j (Started ch (Inl ErrClosed)) (client s) s)" using pc by (rule life_start_failed)
  have "wakeable i ch (go j (Started ch (Inl ErrClosed)) (client s) s)"
    using pc me by (intro wakeable_started [where j = j, OF chanInv_step [OF st assms(1)]]) auto
  then show ?thesis by (rule wakeable_step [OF st])
qed

lemma announces_wakes:
  assumes "chanInv s" and "announces ch (goroutines s j)" and "goroutines s i = Waiting ch"
  shows "wakeable i ch s"
  using assms wakeable_starting wakeable_started wakeable_recorded by (cases "goroutines s j") auto

text \<open>
  C3. No download waits for ever on another's start. Whenever a goroutine waits for a node to be
  built, the run can go on to where the channel it waits on is closed and the waiter still there, so it
  is never left with nobody to close the channel; and no channel is closed twice, which would panic.
\<close>

theorem waiter_gets_woken:
  assumes "reach (lifeInit idle) lifeStep s" and "goroutines s i = Waiting ch"
  shows "(\<exists>t. reach s lifeStep t \<and> goroutines t i = Waiting ch \<and> ch \<in> closedChans t)
    \<and> (\<forall>j ch' r b. goroutines s j = Recorded ch' r b \<longrightarrow> ch' \<notin> closedChans s)"
proof (rule conjI)
  note inv = life_reach(3) [OF assms(1)]
  show "\<forall>j ch' r b. goroutines s j = Recorded ch' r b \<longrightarrow> ch' \<notin> closedChans s"
    using chan_open [OF inv] by (metis announces.simps(1))
  have "wakeable i ch s"
    using chan_wait [OF inv assms(2)] wakeable_now [OF assms(2)] announces_wakes [OF inv _ assms(2)] by blast
  then show "\<exists>t. reach s lifeStep t \<and> goroutines t i = Waiting ch \<and> ch \<in> closedChans t"
    by (simp add: wakeable_def)
qed

theorem waiter_gets_woken_witness:
  "\<exists>s t. reach (lifeInit 5) lifeStep s \<and> goroutines s 0 = Starting 0 \<and> reach s lifeStep t
     \<and> goroutines t 1 = Waiting 0 \<and> 0 \<in> closedChans t"
proof -
  obtain s where s: "reach (lifeInit 5) lifeStep s"
    "goroutines s = (\<lambda>_. Idle)(0 := Starting 0, 1 := Waiting 0)"
    by (rule crowd_state)
  then have "goroutines s 1 = Waiting 0" "goroutines s 0 = Starting 0" by simp_all
  with waiter_gets_woken [OF s(1)] show ?thesis using s(1) by blast
qed

definition settled :: "lifePc \<Rightarrow> bool" where
  "settled p \<longleftrightarrow> (\<forall>n. \<not> owns n p)"

text \<open>
  C2. No node is leaked and none is closed twice: in every reachable state each live node is either
  the client's or in the hands of exactly one goroutine that will close it or hand it over, and a
  goroutine about to close a node finds it live. So once the client is closed and no goroutine has
  a node in its hands, every node that was ever started has been closed.
\<close>

theorem no_node_leaked:
  assumes "reach (lifeInit idle) lifeStep s"
  shows "(\<forall>n\<in>live s. node (client s) = Some n \<or> (\<exists>!i. owns n (goroutines s i)))
    \<and> (\<forall>i n. goroutines s i = Closing n \<or> goroutines s i = Discarding n \<longrightarrow> n \<in> live s)
    \<and> (closed (client s) \<longrightarrow> (\<forall>i. settled (goroutines s i)) \<longrightarrow> live s = {})"
proof -
  note inv = life_reach(2,4) [OF assms]
  have "node (client s) = Some n \<or> (\<exists>!i. owns n (goroutines s i))" if "n \<in> live s" for n
    using live_owned [OF inv(2) that] own_unique [OF inv(2)] by blast
  moreover have "n \<in> live s" if "goroutines s i = Closing n \<or> goroutines s i = Discarding n" for i n
    using own_live [OF inv(2), of n i] that by auto
  moreover have "live s = {}" if "closed (client s)" "\<forall>i. settled (goroutines s i)"
    using that inv(1) live_owned [OF inv(2)] by (auto simp: closedInv_def settled_def)
  ultimately show ?thesis by blast
qed

definition shutDown :: "(nat \<times> move) list" where
  "shutDown = warmUp @ [(1, CallClose), (1, Proceed), (0, Finish (Some Canceled)), (1, Proceed), (0, Proceed)]"

theorem no_node_leaked_witness:
  "\<exists>s. replay shutDown (lifeInit 5) = Some s \<and> closed (client s) \<and> nextNode s = 1 \<and> live s = {}"
proof -
  have "\<exists>s. replay shutDown (lifeInit 5) = Some s \<and> closed (client s) \<and> nextNode s = 1
      \<and> goroutines s = (\<lambda>_. Idle)(1 := Returned None, 0 := Returned (Some Canceled))"
    by (simp add: shutDown_def warmUp_def replay_simps)
  then obtain s where r: "replay shutDown (lifeInit 5) = Some s" "closed (client s)" "nextNode s = 1"
    and g: "goroutines s = (\<lambda>_. Idle)(1 := Returned None, 0 := Returned (Some Canceled))" by auto
  have "settled (goroutines s i)" for i by (simp add: g settled_def)
  then have "live s = {}" using no_node_leaked [OF replay_reach [OF r(1) reach_start]] r(2) by blast
  then show ?thesis using r by blast
qed

lemma closed_step:
  assumes "lifeStep s t" and "closed (client s)"
  shows "closed (client t) \<and> armed (client t) \<subseteq> armed (client s)"
  using assms(1)
proof (cases rule: lifeStep.cases)
  case (life_acquire i r c)
  from life_acquire(3) show ?thesis
    using assms(2) by (cases rule: acquire_cases) (auto simp: life_acquire)
next
  case (life_record i ch r b c)
  then show ?thesis using assms(2) recordStart_fields [OF life_record(3)] by simp
next
  case (life_release i r)
  then show ?thesis using assms(2) by (simp add: release_armed)
next
  case (life_close_idle i taken c)
  then show ?thesis using assms(2) closeIdle_fields [OF life_close_idle(3)] by simp
next
  case (life_close i taken c)
  then show ?thesis using closeClient_fields [OF life_close(3)] by simp
qed (use assms(2) in auto)

lemma closed_reach:
  "reach s lifeStep t \<Longrightarrow> closed (client s) \<Longrightarrow> closed (client t) \<and> armed (client t) \<subseteq> armed (client s)"
  by (induction rule: reach.induct) (use closed_step in blast)+

text \<open>
  C25. Closed means closed: from a reachable state in which \<open>Close\<close> has run, whatever happens next,
  the client stays closed and without a node, \<open>acquire\<close> returns \<open>ErrClosed\<close> and changes
  nothing, a node whose start was in flight is not kept, and no timer is armed again.
\<close>

theorem closed_for_good:
  assumes "reach (lifeInit idle) lifeStep s" and "closed (client s)" and "reach s lifeStep t"
  shows "closed (client t) \<and> retired (client t) \<and> node (client t) = None
    \<and> acquire (client t) = (AcquireClosed, client t)
    \<and> node (snd (recordStart (Inr n) (client t))) = None
    \<and> armed (client t) \<subseteq> armed (client s)"
proof -
  have t: "closed (client t)" "armed (client t) \<subseteq> armed (client s)"
    using closed_reach [OF assms(3,2)] by simp_all
  have "closedInv t" using life_reach(2) [OF reach_trans [OF assms(3,1)]] .
  then show ?thesis using t by (simp add: closedInv_def acquire_def recordStart_def Let_def)
qed

theorem closed_for_good_witness:
  "\<exists>s. replay shutDown (lifeInit 5) = Some s \<and> acquire (client s) = (AcquireClosed, client s)"
proof -
  have "\<exists>s. replay shutDown (lifeInit 5) = Some s \<and> closed (client s)"
    by (simp add: shutDown_def warmUp_def replay_simps)
  then obtain s where r: "replay shutDown (lifeInit 5) = Some s" "closed (client s)" by auto
  then show ?thesis
    using closed_for_good [OF replay_reach [OF r(1) reach_start] r(2) reach_start] by blast
qed

text \<open>
  \<open>inflight\<close> is the number of downloads that hold the node or are starting it, so it never goes
  negative and is zero exactly when no download needs the node.
\<close>

theorem inflight_counts:
  assumes "reach (lifeInit idle) lifeStep s"
  shows "inflight (client s) = int (card {i. claims (goroutines s i)})
    \<and> (inflight (client s) = 0 \<longleftrightarrow> (\<forall>i. \<not> claims (goroutines s i)))"
  using life_reach(1) [OF assms] by (auto simp: countInv_def)

theorem inflight_counts_witness:
  "\<exists>s. reach (lifeInit 5) lifeStep s \<and> inflight (client s) \<noteq> 0"
proof -
  obtain s where s: "reach (lifeInit 5) lifeStep s" "goroutines s = (\<lambda>_. Idle)(0 := Using 0)"
    by (rule warm_state)
  then have "claims (goroutines s 0)" by simp
  then show ?thesis using inflight_counts [OF s(1)] s(1) by blast
qed

lemma one_moves: "lifeStep s t \<Longrightarrow> \<exists>i p. goroutines t = (goroutines s)(i := p)"
  by (cases rule: lifeStep.cases, assumption) (simp_all, blast+)

lemma finite_active: "reach (lifeInit idle) lifeStep s \<Longrightarrow> finite {i. goroutines s i \<noteq> Idle}"
proof (induction rule: reach.induct)
  case reach_start
  then show ?case by (simp add: lifeInit_def)
next
  case (reach_step s t)
  obtain i p where "goroutines t = (goroutines s)(i := p)" using one_moves [OF reach_step(2)] by blast
  then have "{j. goroutines t j \<noteq> Idle} \<subseteq> insert i {j. goroutines s j \<noteq> Idle}" by auto
  then show ?case using reach_step(3) by (simp add: finite_subset)
qed

lemma idle_goroutine: "reach (lifeInit idle) lifeStep s \<Longrightarrow> \<exists>i. goroutines s i = Idle"
  using finite_active infinite_UNIV_nat by (metis (mono_tags, lifting) UNIV_eq_I mem_Collect_eq)

lemma sweep_takes:
  assumes "inflight c = 0" and "\<not> closed c" and "node c = Some n"
  shows "closeIdle c = (Some n, c\<lparr>node := None, timer := None\<rparr>)"
  using assms by (simp add: closeIdle_def)

text \<open>The sweep of goroutine \<open>i\<close> from its section to the end of \<open>node.Close\<close>.\<close>

definition sweptBy :: "nat \<Rightarrow> nodeId \<Rightarrow> lifeSystem \<Rightarrow> bool" where
  "sweptBy i n u \<longleftrightarrow> goroutines u i = AtCloseIdle
     \<and> (\<exists>v w. lifeStep u v \<and> goroutines v = (goroutines u)(i := Closing n) \<and> node (client v) = None
          \<and> closed (client v) = closed (client u)
          \<and> lifeStep v w \<and> goroutines w = (goroutines u)(i := Returned None) \<and> live w = live u - {n})"

lemma sweptByI:
  assumes pc: "goroutines u i = AtCloseIdle"
    and c: "inflight (client u) = 0" "\<not> closed (client u)" "node (client u) = Some n"
  shows "sweptBy i n u"
proof -
  let ?v = "go i (Closing n) ((client u)\<lparr>node := None, timer := None\<rparr>) u"
  let ?w = "go i (Returned None) (client ?v) (?v\<lparr>live := live ?v - {n}\<rparr>)"
  have "lifeStep u ?v" using life_close_idle [OF pc sweep_takes [OF c]] by simp
  moreover have "lifeStep ?v ?w" by (rule life_closed) simp
  ultimately show ?thesis
    unfolding sweptBy_def using pc by (intro conjI exI [of _ ?v] exI [of _ ?w]) (simp_all add: go_def)
qed

text \<open>
  C26. With an idle timeout, an unused node does not stay up for ever. In every reachable state where
  the client is open, has a node and no download needs it, the client records a timer, and that timer
  is armed or a sweep is already on its way. Both lead to the node's end by the sweep's own steps, no
  call of \<open>Close\<close> among them: when an armed timer fires, its goroutine comes to the sweep with the
  node still unused; a goroutine at the sweep takes the node from the client, which stays open, and
  closes it; and no step of that goroutine does anything else. Without an idle timeout (zero or
  negative) no timer is ever armed and no sweep ever runs.
\<close>

theorem idle_node_closes:
  assumes "reach (lifeInit idle) lifeStep s" and "inflight (client s) = 0" and "\<not> closed (client s)"
    and "node (client s) = Some n"
  shows "(0 < idleTimeout (client s) \<longrightarrow>
        (\<exists>x. timer (client s) = Some x \<and> (x \<in> armed (client s) \<or> (\<exists>i. goroutines s i = AtCloseIdle))))
    \<and> (\<forall>x\<in>armed (client s). \<exists>i u. lifeStep s u \<and> goroutines u = (goroutines s)(i := AtCloseIdle)
        \<and> armed (client u) = armed (client s) - {x} \<and> sweptBy i n u)
    \<and> (\<forall>i. goroutines s i = AtCloseIdle \<longrightarrow> sweptBy i n s)
    \<and> (\<forall>i u. goroutines s i = AtCloseIdle \<and> lifeStep s u \<and> goroutines u i \<noteq> AtCloseIdle
        \<longrightarrow> goroutines u i = Closing n \<and> node (client u) = None)
    \<and> (idleTimeout (client s) \<le> 0 \<longrightarrow> armed (client s) = {} \<and> (\<forall>i. goroutines s i \<noteq> AtCloseIdle))"
proof (intro conjI ballI allI impI, goal_cases)
  case 1
  then show ?case using life_reach(6) [OF assms(1)] assms(2-4) by (simp add: timerInv_def)
next
  case (2 x)
  obtain j where j: "goroutines s j = Idle" using idle_goroutine [OF assms(1)] by blast
  let ?u = "go j AtCloseIdle ((client s)\<lparr>armed := armed (client s) - {x}\<rparr>) s"
  have "lifeStep s ?u" using j 2 by (rule life_timer)
  moreover have "sweptBy j n ?u" using assms(2-4) by (intro sweptByI) simp_all
  ultimately show ?case by (intro exI [of _ j] exI [of _ ?u]) (simp add: go_def)
next
  case (3 i)
  then show ?case using assms(2-4) by (intro sweptByI)
next
  case (4 i u)
  then show ?case using sweep_takes [OF assms(2-4)] by (auto elim!: lifeStep_cases split: if_splits)
next
  case (5 i u)
  then show ?case using sweep_takes [OF assms(2-4)] by (auto elim!: lifeStep_cases split: if_splits)
qed (use life_reach(6) [OF assms(1)] in \<open>simp_all add: timerInv_def\<close>)

theorem idle_node_closes_witness:
  "\<exists>s i u. replay (warmUp @ coolDown) (lifeInit 5) = Some s \<and> node (client s) = Some 0
     \<and> timer (client s) = Some 0 \<and> lifeStep s u \<and> armed (client u) = {} \<and> sweptBy i 0 u"
proof -
  have "\<exists>s. replay (warmUp @ coolDown) (lifeInit 5) = Some s \<and> inflight (client s) = 0
      \<and> \<not> closed (client s) \<and> node (client s) = Some 0 \<and> timer (client s) = Some 0 \<and> armed (client s) = {0}"
    by (simp add: warmUp_def coolDown_def replay_simps)
  then obtain s where r: "replay (warmUp @ coolDown) (lifeInit 5) = Some s" and s: "inflight (client s) = 0"
      "\<not> closed (client s)" "node (client s) = Some 0" "timer (client s) = Some 0" "armed (client s) = {0}"
    by auto
  from idle_node_closes [OF replay_reach [OF r reach_start] s(1-3)]
  obtain i u where "lifeStep s u" "armed (client u) = armed (client s) - {0}" "sweptBy i 0 u" using s(5) by blast
  then show ?thesis using r s by auto
qed

definition staleSweep :: "(nat \<times> move) list" where
  "staleSweep = warmUp @ coolDown
     @ [(1, Fire 0), (2, CallGet), (2, Proceed), (2, Finish None), (2, Proceed), (1, Proceed)]"

text \<open>
  A timer that fired can outlive its download and close a node early. In some interleavings of
  one download after another, the sweep of a timer that the second download came too late to stop
  runs after that download has finished and armed a new timer: it closes a node that has only just
  gone idle, and forgets the new timer without stopping it. That timer stays armed, no later
  \<open>acquire\<close> can stop it, and it sweeps the next node before that node's own timeout.
\<close>

theorem stale_sweep_closes_early:
  "\<exists>s. reach (lifeInit 5) lifeStep s
     \<and> goroutines s 1 = AtCloseIdle
     \<and> node (client s) = Some 0 \<and> timer (client s) = Some 1 \<and> armed (client s) = {1}
     \<and> fst (closeIdle (client s)) = Some 0
     \<and> timer (snd (closeIdle (client s))) = None
     \<and> armed (stopTimer (snd (closeIdle (client s)))) = {1}"
proof -
  let ?ms = "butlast staleSweep"
  have "\<exists>s. replay ?ms (lifeInit 5) = Some s \<and> goroutines s 1 = AtCloseIdle
     \<and> node (client s) = Some 0 \<and> timer (client s) = Some 1 \<and> armed (client s) = {1}
     \<and> \<not> closed (client s) \<and> inflight (client s) = 0"
    by (simp add: staleSweep_def warmUp_def coolDown_def replay_simps)
  then obtain s where r: "replay ?ms (lifeInit 5) = Some s" and s: "goroutines s 1 = AtCloseIdle"
     "node (client s) = Some 0" "timer (client s) = Some 1" "armed (client s) = {1}"
     "\<not> closed (client s)" "inflight (client s) = 0" by auto
  have "reach (lifeInit 5) lifeStep s" by (rule replay_reach [OF r reach_start])
  then show ?thesis using s by (intro exI [of _ s]) (simp add: closeIdle_def stopTimer_def)
qed

end
