(* ===== verification/Refinements.thy ===== *)
theory Refinements
  imports Path_Locks Lifecycle_Props
begin

text \<open>
  The two concurrent components against what they promise, as state machines of their own: the path
  locks are one mutex per path, and the client's node has four phases it moves between.
\<close>

section \<open>A mutex per path\<close>

inductive mutexStep :: "(string \<Rightarrow> nat option) \<Rightarrow> (string \<Rightarrow> nat option) \<Rightarrow> bool" where
  mutex_take: "m key = None \<Longrightarrow> mutexStep m (m(key \<mapsto> i))"
| mutex_drop: "m key = Some i \<Longrightarrow> mutexStep m (m(key := None))"

definition ownedBy :: "lockSystem \<Rightarrow> (string \<Rightarrow> nat option) \<Rightarrow> bool" where
  "ownedBy s m \<longleftrightarrow> (\<forall>key i. m key = Some i \<longleftrightarrow> (\<exists>g. pcs s i = Holding key g))"

lemma ownedBy_same:
  "ownedBy s m \<Longrightarrow> (\<And>key g. pcs s i \<noteq> Holding key g) \<Longrightarrow> (\<And>key g. p \<noteq> Holding key g) \<Longrightarrow> ownedBy (moveTo i p l s) m"
  by (auto simp: ownedBy_def moveTo_def)

lemma ownedBy_take:
  assumes own: "ownedBy s m" and inv: "lockInv (moveTo i (Holding key g) l s)" and pc: "pcs s i = Selecting key g"
  shows "m key = None" and "ownedBy (moveTo i (Holding key g) l s) (m(key \<mapsto> i))"
proof -
  have free: "pcs s j \<noteq> Holding key h" for j h
  proof
    assume j: "pcs s j = Holding key h"
    then have "j \<noteq> i" using pc by auto
    moreover have "j = i"
      by (rule holder_unique [OF inv, of j key h i g]) (use j \<open>j \<noteq> i\<close> in \<open>auto simp: moveTo_def\<close>)
    ultimately show False by simp
  qed
  then have none: "m key \<noteq> Some j" for j using own by (auto simp: ownedBy_def)
  then show "m key = None" by (cases "m key") auto
  show "ownedBy (moveTo i (Holding key g) l s) (m(key \<mapsto> i))"
    using own free pc by (auto simp: ownedBy_def moveTo_def)
qed

lemma ownedBy_drop:
  assumes own: "ownedBy s m" and inv: "lockInv s" and pc: "pcs s i = Holding key g"
  shows "m key = Some i" and "ownedBy (moveTo i (Leaving key) l s) (m(key := None))"
proof -
  show "m key = Some i" using own pc by (auto simp: ownedBy_def)
  have "\<not> (\<exists>h. pcs s j = Holding key h)" if "j \<noteq> i" for j
    using holder_unique [OF inv pc, of j] that by blast
  then show "ownedBy (moveTo i (Leaving key) l s) (m(key := None))"
    using own pc by (auto simp: ownedBy_def moveTo_def) 
qed

interpretation locks_mutex: simulation lockInit lockStep lockInv Map.empty mutexStep ownedBy
proof unfold_locales
  show "ownedBy lockInit Map.empty" by (simp add: ownedBy_def lockInit_def)
next
  fix s t m
  assume st: "lockStep s t" and inv: "lockInv s" and own: "ownedBy s m"
  from st show "\<exists>b. ownedBy t b \<and> (b = m \<or> mutexStep m b)"
  proof (cases rule: lockStep.cases)
    case (lock_granted i key g l)
    then show ?thesis using ownedBy_take [OF own _ lock_granted(2)] lockInv_step [OF st inv] mutex_take by blast
  next
    case (lock_unlock i key g l)
    then show ?thesis using ownedBy_drop [OF own inv lock_unlock(2)] mutex_drop by blast
  qed (use own in \<open>auto intro!: ownedBy_same\<close>)
qed

section \<open>The phases of a client's node\<close>

datatype phase = Absent | Booting | Up nat | Retired

text \<open>With the number of downloads that use the node or start it.\<close>

inductive phaseStep :: "phase \<times> int \<Rightarrow> phase \<times> int \<Rightarrow> bool" where
  phase_boot: "phaseStep (Absent, u) (Booting, u + 1)"
| phase_up: "0 < u \<Longrightarrow> phaseStep (Booting, u) (Up n, u)"
| phase_failed: "0 < u \<Longrightarrow> phaseStep (Booting, u) (Absent, u)"
| phase_join: "phaseStep (Up n, u) (Up n, u + 1)"
| phase_leave: "0 < u \<Longrightarrow> phaseStep (p, u) (p, u - 1)"
| phase_idle: "phaseStep (Up n, 0) (Absent, 0)"
| phase_retire: "p \<noteq> Retired \<Longrightarrow> phaseStep (p, u) (Retired, u)"

definition phaseOf :: "clientState \<Rightarrow> phase" where
  "phaseOf c =
     (if closed c then Retired
      else case node c of
        Some n \<Rightarrow> Up n
      | None \<Rightarrow> if starting c \<noteq> None then Booting else Absent)"

definition inPhase :: "lifeSystem \<Rightarrow> phase \<times> int \<Rightarrow> bool" where
  "inPhase s a \<longleftrightarrow> a = (phaseOf (client s), inflight (client s))"

lemma phase_acquire:
  assumes "acquire c = (r, c')"
  shows "(phaseOf c', inflight c') = (phaseOf c, inflight c)
    \<or> phaseStep (phaseOf c, inflight c) (phaseOf c', inflight c')"
  using assms by (cases rule: acquire_cases) (auto simp: phaseOf_def intro: phaseStep.intros)

lemma phase_record:
  assumes inv: "chanInv s" "countInv s" and pc: "goroutines s i = Started ch r" and rec: "recordStart r (client s) = (b, c')"
  shows "(phaseOf c', inflight c') = (phaseOf (client s), inflight (client s))
    \<or> phaseStep (phaseOf (client s), inflight (client s)) (phaseOf c', inflight c')"
proof (cases "closed (client s)")
  case True
  then show ?thesis using recordStart_fields [OF rec] by (simp add: phaseOf_def)
next
  case False
  have "starting (client s) = Some ch" using chan_starting [OF inv(1)] pc by (metis builds.simps(2))
  moreover have "node (client s) = None" using chan_no_node [OF inv(1)] calculation by simp
  moreover have "0 < inflight (client s)" using claim_counted [OF inv(2), of i] pc by simp
  ultimately show ?thesis
    using False recordStart_fields [OF rec] by (cases r) (auto simp: phaseOf_def intro: phaseStep.intros)
qed

lemma phase_close_idle:
  assumes "closeIdle c = (taken, c')" and "0 \<le> inflight c"
  shows "(phaseOf c', inflight c') = (phaseOf c, inflight c)
    \<or> phaseStep (phaseOf c, inflight c) (phaseOf c', inflight c')
    \<or> starting c \<noteq> None \<and> node c \<noteq> None"
  using assms(1)
proof (cases rule: closeIdle_cases)
  case (2 n)
  then have "inflight c = 0" using assms(2) by simp
  then show ?thesis using 2 by (auto simp: phaseOf_def intro: phase_idle)
qed simp

lemma phase_close:
  assumes "closeClient c = (taken, c')"
  shows "(phaseOf c', inflight c') = (phaseOf c, inflight c)
    \<or> phaseStep (phaseOf c, inflight c) (phaseOf c', inflight c')"
  using assms
proof (cases rule: closeClient_cases)
  case 2
  then show ?thesis by (auto simp: phaseOf_def intro!: phase_retire split: option.split)
qed simp

lemma phase_life_step:
  assumes st: "lifeStep s t" and inv: "lifeInv s"
  shows "(phaseOf (client t), inflight (client t)) = (phaseOf (client s), inflight (client s))
    \<or> phaseStep (phaseOf (client s), inflight (client s)) (phaseOf (client t), inflight (client t))"
proof -
  have c: "countInv s" "chanInv s" using inv by (simp_all add: lifeInv_def)
  from st show ?thesis
  proof (cases rule: lifeStep.cases)
    case (life_acquire i r c)
    then show ?thesis using phase_acquire by simp
  next
    case (life_record i ch r wasClosed c')
    then show ?thesis using phase_record [OF c(2,1) life_record(2,3)] by simp
  next
    case (life_release i result)
    then have "0 < inflight (client s)" using claim_counted [OF c(1), of i] by simp
    moreover have "phaseOf (release (client s)) = phaseOf (client s)" by (auto simp: phaseOf_def)
    ultimately show ?thesis using life_release phase_leave by simp
  next
    case (life_close_idle i taken c')
    have "0 \<le> inflight (client s)" using c(1) by (simp add: countInv_def)
    then show ?thesis using life_close_idle phase_close_idle [OF life_close_idle(3)] chan_no_node [OF c(2)] by auto
  next
    case (life_close i taken c')
    then show ?thesis using phase_close by simp
  qed (auto simp: phaseOf_def)
qed

interpretation life_phases: simulation "lifeInit idle" lifeStep lifeInv "(Absent, 0)" phaseStep inPhase for idle
proof unfold_locales
  show "inPhase (lifeInit idle) (Absent, 0)" by (simp add: inPhase_def lifeInit_def newClientState_def phaseOf_def)
next
  fix s t a
  assume "lifeStep s t" "lifeInv s" "inPhase s a"
  then show "\<exists>b. inPhase t b \<and> (b = a \<or> phaseStep a b)" using phase_life_step by (simp add: inPhase_def)
qed

text \<open>What a step that changes the node, the start or the closing of the client must have been.\<close>

lemma node_lost:
  assumes st: "lifeStep s t" and inv: "countInv s" "chanInv s"
    and n: "node (client s) = Some n \<and> \<not> closed (client t) \<and> node (client t) \<noteq> Some n"
  shows "inflight (client s) = 0 \<and> node (client t) = None
    \<and> (\<exists>i. goroutines s i = AtCloseIdle \<and> goroutines t i = Closing n)"
  using st
proof (cases rule: lifeStep.cases)
  case (life_acquire i r c)
  from life_acquire(3) show ?thesis using n by (cases rule: acquire_cases) (auto simp: life_acquire)
next
  case (life_record i ch r b c)
  have "starting (client s) = Some ch" using chan_starting [OF inv(2)] life_record(2) by (metis builds.simps(2))
  then show ?thesis using chan_no_node [OF inv(2)] n by simp
next
  case (life_close_idle i taken c)
  from life_close_idle(3) show ?thesis
    using n inv(1) by (cases rule: closeIdle_cases) (auto simp: life_close_idle countInv_def)
next
  case (life_close i taken c)
  then show ?thesis using n closeClient_fields [OF life_close(3)] by simp
qed (use n in auto)

lemma node_gained:
  assumes st: "lifeStep s t" and inv: "countInv s" "chanInv s"
    and n: "node (client t) = Some n \<and> node (client s) \<noteq> Some n"
  shows "node (client s) = None \<and> 0 < inflight (client s)
    \<and> (\<exists>i ch. goroutines s i = Started ch (Inr n) \<and> starting (client s) = Some ch)"
  using st
proof (cases rule: lifeStep.cases)
  case (life_acquire i r c)
  from life_acquire(3) show ?thesis using n by (cases rule: acquire_cases) (auto simp: life_acquire)
next
  case (life_record i ch r b c)
  have "starting (client s) = Some ch" using chan_starting [OF inv(2)] life_record(2) by (metis builds.simps(2))
  moreover have "0 < inflight (client s)" by (rule claim_counted [OF inv(1), of i]) (simp add: life_record)
  moreover have "r = Inr n" using n life_record recordStart_fields [OF life_record(3)] by (cases r) auto
  ultimately show ?thesis using chan_no_node [OF inv(2)] life_record(2) by auto
next
  case (life_close_idle i taken c)
  from life_close_idle(3) show ?thesis
    using n by (cases rule: closeIdle_cases) (auto simp: life_close_idle)
next
  case (life_close i taken c)
  from life_close(3) show ?thesis using n by (cases rule: closeClient_cases) (auto simp: life_close)
qed (use n in auto)

lemma start_begun:
  assumes st: "lifeStep s t" and n: "starting (client s) = None \<and> starting (client t) \<noteq> None"
  shows "node (client s) = None \<and> \<not> closed (client s) \<and> inflight (client t) = inflight (client s) + 1
    \<and> (\<exists>i. goroutines s i = AtAcquire)"
  using st
proof (cases rule: lifeStep.cases)
  case (life_acquire i r c)
  from life_acquire(3) show ?thesis 
    using n life_acquire(2) by (cases rule: acquire_cases) (auto simp: life_acquire(1))
next
  case (life_record i ch r b c)
  then show ?thesis using n recordStart_fields [OF life_record(3)] by simp
next
  case (life_close_idle i taken c)
  from life_close_idle(3) show ?thesis using n by (cases rule: closeIdle_cases) (auto simp: life_close_idle)
next
  case (life_close i taken c)
  from life_close(3) show ?thesis using n by (cases rule: closeClient_cases) (auto simp: life_close)
qed (use n in auto)

section \<open>Properties\<close>

text \<open>
  C18. The path locks implement one mutex per path. Whatever interleaving of callers, gates, counters
  and departures led to a state, a run of the plain mutexes - take a free one, give back one's own -
  leads to one where each path is owned by exactly the goroutine between the return of \<open>lock\<close> and its
  unlock, and by nobody else.
\<close>

theorem locks_refine_mutex:
  assumes "reach lockInit lockStep s"
  shows "\<exists>m. reach Map.empty mutexStep m \<and> (\<forall>key i. m key = Some i \<longleftrightarrow> (\<exists>g. pcs s i = Holding key g))"
  using locks_mutex.reach_spec [OF assms] by (simp add: ownedBy_def)

theorem locks_refine_mutex_witness:
  "\<exists>m. reach Map.empty mutexStep m \<and> m ''out'' = Some 0"
proof -
  obtain m where "reach Map.empty mutexStep m"
    and "\<And>key i. m key = Some i \<longleftrightarrow> (\<exists>g. pcs contended i = Holding key g)"
    using locks_refine_mutex [OF contended_reach] by blast
  then show ?thesis using contended_pcs by (intro exI [of _ m]) simp
qed

text \<open>
  C4. The client implements the life cycle its documentation describes, step by step: from any state
  its downloads, timers and closing can produce, whatever happens next leaves the phase of the client
  and the number of downloads as they are, or is one step of a machine of four phases - a node boots
  only from nothing and comes up or fails while a download waits for it, downloads join an up node and
  leave one at a time, an up node goes away only when none is left, and retirement is final. So an open
  client loses its node only to the idle sweep, with no download in flight; it gets one only from the
  download that is recorded as starting it; it starts one only for a download that acquires, counts it,
  and finds neither a node nor a start; and it never opens again.
\<close>

theorem life_refines_phases:
  assumes "reach (lifeInit idle) lifeStep s" and "lifeStep s t"
  shows "((phaseOf (client t), inflight (client t)) = (phaseOf (client s), inflight (client s))
        \<or> phaseStep (phaseOf (client s), inflight (client s)) (phaseOf (client t), inflight (client t)))
    \<and> (\<forall>n. node (client s) = Some n \<and> \<not> closed (client t) \<and> node (client t) \<noteq> Some n \<longrightarrow>
         inflight (client s) = 0 \<and> node (client t) = None
         \<and> (\<exists>i. goroutines s i = AtCloseIdle \<and> goroutines t i = Closing n))
    \<and> (\<forall>n. node (client t) = Some n \<and> node (client s) \<noteq> Some n \<longrightarrow>
         node (client s) = None \<and> 0 < inflight (client s)
         \<and> (\<exists>i ch. goroutines s i = Started ch (Inr n) \<and> starting (client s) = Some ch))
    \<and> (starting (client s) = None \<and> starting (client t) \<noteq> None \<longrightarrow>
         node (client s) = None \<and> \<not> closed (client s) \<and> inflight (client t) = inflight (client s) + 1
         \<and> (\<exists>i. goroutines s i = AtAcquire))
    \<and> (closed (client s) \<longrightarrow> closed (client t))"
proof (intro conjI)
  have "inPhase s (phaseOf (client s), inflight (client s))" by (simp add: inPhase_def)
  from life_phases.step_spec [OF assms this]
  show "(phaseOf (client t), inflight (client t)) = (phaseOf (client s), inflight (client s))
        \<or> phaseStep (phaseOf (client s), inflight (client s)) (phaseOf (client t), inflight (client t))"
    by (auto simp: inPhase_def)
qed (use life_reach [OF assms(1)] assms(2) node_lost node_gained start_begun closed_step in blast)+

theorem life_refines_phases_witness:
  "\<exists>s t. reach (lifeInit 5) lifeStep s \<and> lifeStep s t
     \<and> phaseStep (phaseOf (client s), inflight (client s)) (phaseOf (client t), inflight (client t))"
proof -
  obtain s where s: "reach (lifeInit 5) lifeStep s" "goroutines s = (\<lambda>_. Idle)(0 := Using 0)"
    "client s = (newClientState 5)\<lparr>node := Some 0, nextChan := 1, inflight := 1\<rparr>" by (rule warm_state)
  obtain t where t: "t = go 0 (Releasing None) (client s) s" by simp
  obtain u where u: "u = go 0 (Returned None) (release (client t)) t" by simp
  have "lifeStep s t" unfolding t by (rule life_downloaded [of _ _ 0]) (simp add: s)
  then have reach: "reach (lifeInit 5) lifeStep t" by (rule reach_step [OF s(1)])
  have st: "lifeStep t u" unfolding u by (rule life_release) (simp add: t)
  have "inflight (client u) \<noteq> inflight (client t)" by (simp add: t u)
  then have "phaseStep (phaseOf (client t), inflight (client t)) (phaseOf (client u), inflight (client u))"
    using life_refines_phases [OF reach st] by simp
  then show ?thesis using reach st by blast
qed

end
