(* ===== verification/Deadline.thy ===== *)
theory Deadline
  imports Prelude
begin

text \<open>
  How long the primary phase may run: \<open>primaryDeadline\<close>, \<open>fallbackAvailable\<close> and
  \<open>orDefault\<close> of \<open>client.go\<close>. The share of the caller's time is computed in floating point,
  so the conversion to \<open>float64\<close>, the product and the conversion back are written out: a double
  holds 53 significant bits and rounds to nearest, ties to even.
\<close>

section \<open>Doubles that are integers, and a product with three quarters\<close>

fun bitLen :: "nat \<Rightarrow> nat" where
  "bitLen n = (if n = 0 then 0 else Suc (bitLen (n div 2)))"

declare bitLen.simps [simp del]

definition roundHalfEven :: "nat \<Rightarrow> nat \<Rightarrow> nat" where
  "roundHalfEven n e =
     (let q = n div 2 ^ e; r = n mod 2 ^ e; h = 2 ^ (e - 1) in
      if e = 0 then n
      else if r < h \<or> r = h \<and> even q then q * 2 ^ e else (q + 1) * 2 ^ e)"

definition toDouble :: "nat \<Rightarrow> nat" where
  "toDouble n = roundHalfEven n (bitLen n - 53)"

text \<open>
  \<open>time.Duration(float64(remaining) * primaryShare)\<close> for a positive duration: scaling by a power of
  two is exact, so the product with 0.75 rounds as three times the double does, and the conversion
  to an integer drops the fraction.
\<close>

definition primaryShareOf :: "int64 \<Rightarrow> int64" where
  "primaryShareOf remaining = int (toDouble (3 * toDouble (nat remaining)) div 4)"

lemma bitLen_bounds: "n \<noteq> 0 \<Longrightarrow> 2 ^ (bitLen n - 1) \<le> n \<and> n < 2 ^ bitLen n"
proof (induction n rule: bitLen.induct)
  case (1 n)
  show ?case
  proof (cases "n div 2 = 0")
    case True
    then have "n = 1" using 1 by simp
    then show ?thesis by (simp add: bitLen.simps)
  next
    case False
    then have ih: "2 ^ (bitLen (n div 2) - 1) \<le> n div 2" "n div 2 < 2 ^ bitLen (n div 2)"
      using 1 by auto
    have b: "bitLen n = Suc (bitLen (n div 2))" using 1 by (simp add: bitLen.simps [of n])
    have pos: "0 < bitLen (n div 2)" using False by (simp add: bitLen.simps [of "n div 2"])
    have "2 ^ (bitLen n - 1) = (2::nat) * 2 ^ (bitLen (n div 2) - 1)"
      using pos by (simp add: b power_eq_if)
    then show ?thesis using ih by (simp add: b) linarith
  qed
qed

lemma bitLen_small: "n < 2 ^ k \<Longrightarrow> bitLen n \<le> k"
proof (cases "n = 0")
  case False
  assume "n < 2 ^ k"
  with bitLen_bounds [OF False] have "(2::nat) ^ (bitLen n - 1) < 2 ^ k" by linarith
  then show ?thesis by (simp add: power_strict_increasing_iff)
qed (simp add: bitLen.simps)

text \<open>A double is off by at most one part in \<open>2 ^ 53\<close>, and exact below \<open>2 ^ 53\<close>.\<close>

lemma roundHalfEven_close: "roundHalfEven n e \<le> n + 2 ^ (e - 1) \<and> n \<le> roundHalfEven n e + 2 ^ (e - 1)"
proof (cases "e = 0")
  case False
  then have p: "(2::nat) ^ e = 2 * 2 ^ (e - 1)" by (cases e) simp_all
  define m r h where "m = n div 2 ^ e * 2 ^ e" and "r = n mod 2 ^ e" and "h = (2::nat) ^ (e - 1)"
  have n: "n = m + r" unfolding m_def r_def by (rule div_mult_mod_eq [symmetric])
  have r: "r < 2 * h" using p mod_less_divisor [of "2 ^ e" n] by (simp add: r_def h_def)
  have "(n div 2 ^ e + 1) * 2 ^ e = m + 2 * h" using p by (simp add: m_def h_def)
  then have "roundHalfEven n e = m \<and> r \<le> h \<or> roundHalfEven n e = m + 2 * h \<and> h \<le> r"
    using False by (auto simp: roundHalfEven_def Let_def m_def r_def h_def)
  then show ?thesis using n r unfolding h_def [symmetric] by linarith
qed (simp add: roundHalfEven_def)

lemma toDouble_exact: "n < 2 ^ 53 \<Longrightarrow> toDouble n = n"
  using bitLen_small [of n 53] by (simp add: toDouble_def roundHalfEven_def)

lemma toDouble_close: "toDouble n * 2 ^ 53 \<le> n * (2 ^ 53 + 1)"
proof (cases "bitLen n \<le> 53")
  case True
  then show ?thesis by (simp add: toDouble_def roundHalfEven_def)
next
  case False
  then have "n \<noteq> 0" by (cases "n = 0") (simp_all add: bitLen.simps)
  have "54 \<le> bitLen n" using False by simp
  then obtain k where k: "bitLen n = 54 + k" using le_Suc_ex by blast
  have "(2::nat) ^ (bitLen n - 53 - 1) * 2 ^ 53 = 2 ^ (bitLen n - 1)"
    by (simp add: k power_add)
  also have "\<dots> \<le> n" using bitLen_bounds [OF \<open>n \<noteq> 0\<close>] by simp
  finally have "2 ^ (bitLen n - 53 - 1) * 2 ^ 53 \<le> n" .
  moreover have "toDouble n \<le> n + 2 ^ (bitLen n - 53 - 1)"
    using roundHalfEven_close [of n "bitLen n - 53"] by (simp add: toDouble_def)
  then have "toDouble n * 2 ^ 53 \<le> (n + 2 ^ (bitLen n - 53 - 1)) * 2 ^ 53" by simp
  ultimately show ?thesis by (simp add: add_mult_distrib)
qed

lemma primaryShareOf_less:
  assumes "0 < r"
  shows "0 \<le> primaryShareOf r \<and> primaryShareOf r < r"
proof -
  let ?n = "nat r" and ?d = "toDouble (nat r)"
  let ?t = "toDouble (3 * ?d)"
  have n: "0 < ?n" using assms by simp
  have "?t * 2 ^ 53 * 2 ^ 53 \<le> 3 * ?d * (2 ^ 53 + 1) * 2 ^ 53"
    using toDouble_close [of "3 * ?d"] by simp
  also have "\<dots> = 3 * (?d * 2 ^ 53) * (2 ^ 53 + 1)" by (simp add: algebra_simps)
  also have "\<dots> \<le> 3 * (?n * (2 ^ 53 + 1)) * (2 ^ 53 + 1)"
    using toDouble_close [of ?n] by simp
  finally have "?t * 2 ^ 53 * 2 ^ 53 \<le> 3 * (?n * (2 ^ 53 + 1)) * (2 ^ 53 + 1)" .
  then have "?t < 4 * ?n" using n by simp
  then have "?t div 4 < ?n" by simp
  then have "int (?t div 4) < int ?n" by (simp only: of_nat_less_iff)
  then show ?thesis using assms by (simp add: primaryShareOf_def)
qed

lemma primaryShareOf_exact:
  assumes "0 < r" and "r < 2 ^ 51"
  shows "primaryShareOf r = 3 * r div 4"
proof -
  have n: "nat r < 2 ^ 51" using assms by (simp add: nat_less_iff)
  then have "toDouble (nat r) = nat r" by (intro toDouble_exact) simp
  moreover have "toDouble (3 * nat r) = 3 * nat r" using n by (intro toDouble_exact) simp
  ultimately show ?thesis using assms by (simp add: primaryShareOf_def zdiv_int)
qed

section \<open>The deadline of the primary phase\<close>

definition orDefault :: "int64 \<Rightarrow> int64 \<Rightarrow> int64" where
  "orDefault configured fallback = (if configured \<le> 0 then fallback else configured)"

definition defaultPrimaryTimeout :: int64 where "defaultPrimaryTimeout = 15000000000"
definition defaultFallbackStepTimeout :: int64 where "defaultFallbackStepTimeout = 15000000000"

text \<open>The fields of \<open>Client\<close> the download path reads.\<close>

record retrieval =
  gateways :: "string list"
  allowUnverified :: bool
  primaryTimeout :: int64
  fallbackStepTimeout :: int64

definition fallbackAvailable :: "retrieval \<Rightarrow> bool" where
  "fallbackAvailable c \<longleftrightarrow> allowUnverified c \<and> length (gateways c) > 0"

text \<open>
  The timeout added to the caller's context, given the time left until the caller's deadline if
  there is one; \<open>None\<close> adds none.
\<close>

definition primaryDeadline :: "retrieval \<Rightarrow> int64 option \<Rightarrow> int64 option" where
  "primaryDeadline c remaining =
     (if \<not> fallbackAvailable c then None
      else
        Some (case remaining of
          Some r \<Rightarrow> if r > 0 then min (primaryTimeout c) (primaryShareOf r) else primaryTimeout c
        | None \<Rightarrow> primaryTimeout c))"

text \<open>
  C35. Some of the caller's time always survives for the fallback. When the fallback can be used the
  primary phase is bounded, by the configured timeout and by a share that is strictly less than what
  is left of the caller's deadline, whatever floating point rounds to; below 26 days the share is
  exactly three quarters, rounded down. Without a fallback the primary phase has all of the caller's
  time. A timeout that was not configured is the default, never zero.
\<close>

theorem primaryDeadline_leaves_time:
  assumes "fallbackAvailable c"
  shows "(\<exists>b. primaryDeadline c remaining = Some b \<and> b \<le> primaryTimeout c
      \<and> (\<forall>r. remaining = Some r \<longrightarrow> 0 < r \<longrightarrow> b < r \<and> (r < 2 ^ 51 \<longrightarrow> b = min (primaryTimeout c) (3 * r div 4))))
    \<and> primaryDeadline (c\<lparr>allowUnverified := False\<rparr>) remaining = None
    \<and> (0 < dflt \<longrightarrow> 0 < orDefault configured dflt)"
proof -
  have share: "min t (primaryShareOf r) < r" if "0 < r" for t r
    using primaryShareOf_less [OF that] by (auto simp: min_def)
  have exact: "min t (primaryShareOf r) = min t (3 * r div 4)" if "0 < r" "r < 2 ^ 51" for t r
    using primaryShareOf_exact [OF that] by simp
  have "\<exists>b. primaryDeadline c remaining = Some b \<and> b \<le> primaryTimeout c
      \<and> (\<forall>r. remaining = Some r \<longrightarrow> 0 < r \<longrightarrow> b < r \<and> (r < 2 ^ 51 \<longrightarrow> b = min (primaryTimeout c) (3 * r div 4)))"
  proof (cases remaining)
    case None
    then show ?thesis using assms by (simp add: primaryDeadline_def)
  next
    case (Some r)
    then show ?thesis using assms share [of r] exact [of r] by (cases "0 < r") (simp_all add: primaryDeadline_def)
  qed
  then show ?thesis by (simp add: primaryDeadline_def fallbackAvailable_def orDefault_def)
qed

theorem primaryDeadline_leaves_time_witness:
  "\<exists>b. primaryDeadline \<lparr>gateways = [''https://g''], allowUnverified = True, primaryTimeout = 15000000000,
      fallbackStepTimeout = 15000000000\<rparr> (Some 10000000000) = Some b \<and> b = 7500000000"
proof -
  let ?c = "\<lparr>gateways = [''https://g''], allowUnverified = True, primaryTimeout = 15000000000,
      fallbackStepTimeout = 15000000000\<rparr>"
  have "fallbackAvailable ?c" by (simp add: fallbackAvailable_def)
  from primaryDeadline_leaves_time [OF this, of "Some 10000000000"] show ?thesis by auto
qed

end
