(* ===== verification/File_System.thy ===== *)
theory File_System
  imports Go_Path Go_Errors
begin

text \<open>
  The part of the file system the client touches, as the \<open>os\<close> package and POSIX document
  it. A key is an absolute path as a list of elements; \<open>fsKey\<close> resolves a Go path string
  against the working directory. Entries are directories and regular files; there are no
  symbolic links in the tree (the code refuses to create any), no hard links and no
  permissions. The clock is a field because directories remember when their entries last
  changed, which is what the staging sweep reads. An \<open>OsError\<close> carries the operation and
  the path it was asked for; the text of the path inside a \<open>MkdirAll\<close> failure is not modelled
  beyond that.
\<close>

section \<open>State\<close>

type_synonym key = "string list"

datatype entry = DirEntry | FileEntry string

record filesystem =
  cwd :: key
  clock :: int
  ents :: "(key \<times> entry) list"
  mtimes :: "(key \<times> int) list"

definition fsKey :: "filesystem \<Rightarrow> string \<Rightarrow> key" where
  "fsKey fs p =
     rev (foldl (pushElem True) (if isRooted p then [] else rev (cwd fs)) (splitChar CHR ''/'' p))"

definition entryAt :: "filesystem \<Rightarrow> key \<Rightarrow> entry option" where
  "entryAt fs k = (if k = [] then Some DirEntry else map_of (ents fs) k)"

text \<open>What resolving the directories above a key runs into.\<close>

fun walkErr :: "filesystem \<Rightarrow> key \<Rightarrow> key \<Rightarrow> io_error option" where
  "walkErr fs pre [] = None"
| "walkErr fs pre (e # es) =
     (case entryAt fs pre of
        None \<Rightarrow> Some ENOENT
      | Some (FileEntry c) \<Rightarrow> Some ENOTDIR
      | Some DirEntry \<Rightarrow> walkErr fs (pre @ [e]) es)"

definition touch :: "key \<Rightarrow> filesystem \<Rightarrow> filesystem" where
  "touch k fs = fs\<lparr>mtimes := AList.update k (clock fs) (mtimes fs)\<rparr>"

definition setEntry :: "key \<Rightarrow> entry \<Rightarrow> filesystem \<Rightarrow> filesystem" where
  "setEntry k v fs = fs\<lparr>ents := AList.update k v (ents fs)\<rparr>"

section \<open>Operations\<close>

definition osMkdir :: "string \<Rightarrow> filesystem \<Rightarrow> error + filesystem" where
  "osMkdir p fs =
     (let k = fsKey fs p in
      if p = [] then Inl (OsError ''mkdir'' p ENOENT)
      else case walkErr fs [] k of
        Some e \<Rightarrow> Inl (OsError ''mkdir'' p e)
      | None \<Rightarrow>
          if entryAt fs k \<noteq> None then Inl (OsError ''mkdir'' p EEXIST)
          else Inr (touch (butlast k) (touch k (setEntry k DirEntry fs))))"

fun mkdirAllFrom :: "filesystem \<Rightarrow> key \<Rightarrow> key \<Rightarrow> filesystem \<times> io_error option" where
  "mkdirAllFrom fs pre [] = (fs, None)"
| "mkdirAllFrom fs pre (e # es) =
     (let k = pre @ [e] in
      case entryAt fs k of
        Some DirEntry \<Rightarrow> mkdirAllFrom fs k es
      | Some (FileEntry c) \<Rightarrow> (fs, Some ENOTDIR)
      | None \<Rightarrow> mkdirAllFrom (touch pre (touch k (setEntry k DirEntry fs))) k es)"

definition osMkdirAll :: "string \<Rightarrow> filesystem \<Rightarrow> filesystem \<times> error option" where
  "osMkdirAll p fs =
     (if p = [] then (fs, Some (OsError ''mkdir'' p ENOENT))
      else case mkdirAllFrom fs [] (fsKey fs p) of
        (fs', None) \<Rightarrow> (fs', None)
      | (fs', Some e) \<Rightarrow> (fs', Some (OsError ''mkdir'' p e)))"

text \<open>\<open>os.OpenFile(path, O_EXCL|O_CREATE|O_WRONLY, perm)\<close>: a new, empty file.\<close>

definition osCreateExcl :: "string \<Rightarrow> filesystem \<Rightarrow> error + filesystem" where
  "osCreateExcl p fs =
     (let k = fsKey fs p in
      if p = [] then Inl (OsError ''open'' p ENOENT)
      else case walkErr fs [] k of
        Some e \<Rightarrow> Inl (OsError ''open'' p e)
      | None \<Rightarrow>
          if entryAt fs k \<noteq> None then Inl (OsError ''open'' p EEXIST)
          else Inr (touch (butlast k) (touch k (setEntry k (FileEntry []) fs))))"

text \<open>Appending to an open file marks the file as modified, not the directory that holds it.\<close>

definition osAppend :: "string \<Rightarrow> string \<Rightarrow> filesystem \<Rightarrow> filesystem" where
  "osAppend p bytes fs =
     (case entryAt fs (fsKey fs p) of
        Some (FileEntry c) \<Rightarrow> touch (fsKey fs p) (setEntry (fsKey fs p) (FileEntry (c @ bytes)) fs)
      | _ \<Rightarrow> fs)"

definition underKey :: "key \<Rightarrow> key \<Rightarrow> bool" where
  "underKey a k \<longleftrightarrow> take (length a) k = a"

definition moveKeys :: "key \<Rightarrow> key \<Rightarrow> (key \<times> 'v) list \<Rightarrow> (key \<times> 'v) list" where
  "moveKeys a b es =
     map (\<lambda>(k, v). (if underKey a k then b @ drop (length a) k else k, v))
       (filter (\<lambda>(k, v). \<not> underKey b k) es)"

definition dropKeys :: "key \<Rightarrow> (key \<times> 'v) list \<Rightarrow> (key \<times> 'v) list" where
  "dropKeys a es = filter (\<lambda>(k, v). \<not> underKey a k) es"

text \<open>
  \<open>os.Rename\<close> on Unix: an existing directory at the new name is refused before the system
  call is made; otherwise \<open>rename(2)\<close>, which replaces a file atomically.
\<close>

definition osRename :: "string \<Rightarrow> string \<Rightarrow> filesystem \<Rightarrow> error + filesystem" where
  "osRename old new fs =
     (let a = fsKey fs old; b = fsKey fs new; paths = old @ '' '' @ new in
      if old = [] \<or> new = [] then Inl (OsError ''rename'' paths ENOENT)
      else case walkErr fs [] a of
        Some e \<Rightarrow> Inl (OsError ''rename'' paths e)
      | None \<Rightarrow>
        (case entryAt fs a of
           None \<Rightarrow> Inl (OsError ''rename'' paths ENOENT)
         | Some ea \<Rightarrow>
           (case walkErr fs [] b of
              Some e \<Rightarrow> Inl (OsError ''rename'' paths e)
            | None \<Rightarrow>
              if entryAt fs b = Some DirEntry then Inl (OsError ''rename'' paths EEXIST)
              else if a = b then Inr fs
              else if ea = DirEntry \<and> underKey a b then Inl (OsError ''rename'' paths EINVAL)
              else if ea = DirEntry \<and> entryAt fs b \<noteq> None then Inl (OsError ''rename'' paths ENOTDIR)
              else Inr (touch (butlast b) (touch (butlast a)
                     (fs\<lparr>ents := moveKeys a b (ents fs), mtimes := moveKeys a b (mtimes fs)\<rparr>))))))"

definition endsWithDot :: "string \<Rightarrow> bool" where
  "endsWithDot p \<longleftrightarrow> p = ''.'' \<or> (\<exists>q. p = q @ ''/.'')"

lemma endsWithDot_code [code]:
  "endsWithDot p \<longleftrightarrow> p = ''.'' \<or> drop (length p - 2) p = ''/.''"
proof
  assume "endsWithDot p"
  then show "p = ''.'' \<or> drop (length p - 2) p = ''/.''" by (auto simp: endsWithDot_def)
next
  assume "p = ''.'' \<or> drop (length p - 2) p = ''/.''"
  then show "endsWithDot p"
    unfolding endsWithDot_def by (metis append_take_drop_id)
qed

text \<open>\<open>os.RemoveAll\<close>: a path that is not there is not an error.\<close>

definition osRemoveAll :: "string \<Rightarrow> filesystem \<Rightarrow> filesystem \<times> error option" where
  "osRemoveAll p fs =
     (let k = fsKey fs p in
      if p = [] then (fs, None)
      else if endsWithDot p then (fs, Some (OsError ''RemoveAll'' p EINVAL))
      else case walkErr fs [] k of
        Some ENOENT \<Rightarrow> (fs, None)
      | Some e \<Rightarrow> (fs, Some (OsError ''unlinkat'' p e))
      | None \<Rightarrow>
          if k = [] then (fs\<lparr>ents := []\<rparr>, Some (OsError ''unlinkat'' p EINVAL))
          else if entryAt fs k = None then (fs, None)
          else (touch (butlast k)
                 (fs\<lparr>ents := dropKeys k (ents fs), mtimes := dropKeys k (mtimes fs)\<rparr>), None))"

text \<open>
  \<open>os.ReadDir\<close>: the entries of a directory, as name and entry. Their order is not
  observed by the code.
\<close>

definition childrenOf :: "filesystem \<Rightarrow> key \<Rightarrow> (string \<times> entry) list" where
  "childrenOf fs k =
     map (\<lambda>(q, v). (last q, v))
       (filter (\<lambda>(q, v). q \<noteq> [] \<and> butlast q = k) (AList.clearjunk (ents fs)))"

definition osReadDir :: "string \<Rightarrow> filesystem \<Rightarrow> error + (string \<times> entry) list" where
  "osReadDir p fs =
     (let k = fsKey fs p in
      if p = [] then Inl (OsError ''open'' p ENOENT)
      else case walkErr fs [] (k @ [[]]) of
        Some e \<Rightarrow> Inl (OsError ''open'' p e)
      | None \<Rightarrow> Inr (childrenOf fs k))"

definition osModTime :: "filesystem \<Rightarrow> key \<Rightarrow> int" where
  "osModTime fs k = (case map_of (mtimes fs) k of Some t \<Rightarrow> t | None \<Rightarrow> 0)"

text \<open>
  \<open>os.MkdirTemp(dir, prefix)\<close> with a non-empty \<open>dir\<close>. The random suffixes it draws are
  an argument, one per attempt; the library gives up after ten thousand.
\<close>

definition joinPath :: "string \<Rightarrow> string \<Rightarrow> string" where
  "joinPath dir name =
     (if dir \<noteq> [] \<and> last dir = CHR ''/'' then dir @ name else dir @ CHR ''/'' # name)"

fun osMkdirTemp :: "string \<Rightarrow> string \<Rightarrow> string list \<Rightarrow> filesystem \<Rightarrow> error + (string \<times> filesystem)" where
  "osMkdirTemp dir pre [] fs = Inl (OsError ''mkdirtemp'' (joinPath dir pre) EEXIST)"
| "osMkdirTemp dir pre (r # rs) fs =
     (let name = joinPath dir pre @ r in
      case osMkdir name fs of
        Inr fs' \<Rightarrow> Inr (name, fs')
      | Inl (OsError op p EEXIST) \<Rightarrow> osMkdirTemp dir pre rs fs
      | Inl e \<Rightarrow> Inl e)"

section \<open>Keys\<close>

lemma underKey_iff: "underKey a k \<longleftrightarrow> (\<exists>z. k = a @ z)"
  by (metis underKey_def append_eq_conv_conj append_take_drop_id)

lemma underKey_refl [simp]: "underKey a a"
  by (simp add: underKey_def)

lemma underKey_append [simp]: "underKey a (a @ z)"
  by (simp add: underKey_def)

lemma underKey_trans: "underKey a b \<Longrightarrow> underKey b c \<Longrightarrow> underKey a c"
  by (auto simp: underKey_iff)

lemma underKey_snoc: "underKey a b \<Longrightarrow> underKey a (b @ z)"
  by (auto simp: underKey_iff)

text \<open>Two keys above a third are above one another; keys that are not have nothing below them in common.\<close>

lemma underKey_comparable: "underKey a k \<Longrightarrow> underKey b k \<Longrightarrow> underKey a b \<or> underKey b a"
  by (auto simp: underKey_iff append_eq_append_conv2)

lemma underKey_apart: "\<not> underKey a b \<Longrightarrow> \<not> underKey b a \<Longrightarrow> \<not> underKey b (a @ z)"
  using underKey_comparable [of a "a @ z" b] by auto

lemma foldl_pushElem_True_plain:
  "list_all plainElem st \<Longrightarrow> list_all plainElem (foldl (pushElem True) st (splitChar CHR ''/'' p))"
  by (rule foldl_pushElem_rooted_plain) (auto dest: splitChar_no_sep)

lemma fsKey_plain: "list_all plainElem (cwd fs) \<Longrightarrow> list_all plainElem (fsKey fs p)"
  unfolding fsKey_def by (simp add: foldl_pushElem_True_plain)

lemma fsKey_append:
  assumes "d \<noteq> []" and "list_all plainElem es"
  shows "fsKey fs (d @ CHR ''/'' # joinChar CHR ''/'' es) = fsKey fs d @ es"
proof (cases "es = []")
  case True
  then show ?thesis using assms by (simp add: fsKey_def isRooted_def splitChar_append)
next
  case False
  have "splitChar CHR ''/'' (joinChar CHR ''/'' es) = es"
    using False assms(2) by (intro splitChar_joinChar) (auto simp: list_all_iff plainElem_def)
  with assms show ?thesis
    by (simp add: fsKey_def isRooted_def splitChar_append foldl_pushElem_plain)
qed

lemma fsKey_elem: "d \<noteq> [] \<Longrightarrow> plainElem e \<Longrightarrow> fsKey fs (d @ CHR ''/'' # e) = fsKey fs d @ [e]"
  using fsKey_append [of d "[e]" fs] by simp

lemma fsKey_cwd: "cwd fs' = cwd fs \<Longrightarrow> fsKey fs' p = fsKey fs p"
  by (simp add: fsKey_def)

text \<open>Cleaning a path does not change what it names, so a joined path names the entry joined to it.\<close>

lemma pushElem_clean_step:
  assumes "r \<Longrightarrow> st = []" and "list_all stackElem S"
  shows "foldl (pushElem True) st (rev (pushElem r S e))
    = pushElem True (foldl (pushElem True) st (rev S)) e"
proof -
  consider "e = [] \<or> e = ''.''" | "e = ''..''" | "e \<noteq> []" "e \<noteq> ''.''" "e \<noteq> ''..''" by blast
  then show ?thesis
  proof cases
    case 1
    then show ?thesis by (simp add: pushElem.simps [of _ _ e])
  next
    case 2
    show ?thesis
    proof (cases S)
      case Nil
      then show ?thesis using 2 assms(1) by (simp add: pushElem.simps [of _ "[]"])
    next
      case (Cons t S')
      show ?thesis
      proof (cases "t = ''..''")
        case True
        with 2 Cons show ?thesis by (simp add: pushElem.simps [of r])
      next
        case False
        with Cons assms(2) have "pushElem True R t = t # R" for R
          by (simp add: pushElem.simps stackElem_def)
        with False 2 Cons show ?thesis
          by (simp add: pushElem.simps [of r] pushElem.simps [of True "t # R" for R])
      qed
    qed
  next
    case 3
    then show ?thesis by (simp add: pushElem.simps [of r])
  qed
qed

lemma foldl_pushElem_clean:
  "(r \<Longrightarrow> st = []) \<Longrightarrow> \<forall>e \<in> set es. CHR ''/'' \<notin> set e \<Longrightarrow>
     foldl (pushElem True) st (rev (foldl (pushElem r) [] es)) = foldl (pushElem True) st es"
proof (induction es rule: rev_induct)
  case Nil
  then show ?case by simp
next
  case (snoc e es)
  then have "list_all stackElem (foldl (pushElem r) [] es)"
    by (intro foldl_pushElem_stackElem) auto
  with snoc show ?case by (simp add: pushElem_clean_step)
qed

lemma fsKey_Clean: "fsKey fs (Clean p) = fsKey fs p"
proof -
  let ?st = "if isRooted p then [] else rev (cwd fs)"
  have "isRooted (Clean p) = isRooted p"
    unfolding Clean_def by (rule isRooted_renderPath) (simp add: cleanStack_stackElem)
  moreover have "foldl (pushElem True) ?st (splitChar CHR ''/'' (Clean p))
      = foldl (pushElem True) ?st (rev (cleanStack p))"
    unfolding Clean_def by (rule foldl_pushElem_renderPath) (simp add: cleanStack_stackElem)
  ultimately show ?thesis
    using foldl_pushElem_clean [of "isRooted p" ?st "splitChar CHR ''/'' p"] splitChar_no_sep
    by (auto simp: fsKey_def cleanStack_def)
qed

text \<open>Only \<open>.\<close> itself is a clean path with a trailing dot element.\<close>

lemma endsWithDot_Clean: "cleanStack p \<noteq> [] \<Longrightarrow> \<not> endsWithDot (Clean p)"
proof
  assume ne: "cleanStack p \<noteq> []" and e: "endsWithDot (Clean p)"
  have "''.'' \<in> set (splitChar CHR ''/'' (Clean p))"
    using e by (auto simp: endsWithDot_def splitChar_append [of "CHR ''/''" _ "''.''", simplified])
  moreover have "set (splitChar CHR ''/'' (Clean p)) \<subseteq> insert [] (set (cleanStack p))"
    using ne cleanStack_stackElem [of p] splitChar_joinChar [of "rev (cleanStack p)" "CHR ''/''"]
      stackElem_no_sep [of "rev (cleanStack p)"]
    by (auto simp: Clean_def renderPath_def)
  ultimately have "''.'' \<in> set (cleanStack p)" by auto
  then show False using cleanStack_stackElem [of p] by (auto simp: list_all_iff stackElem_def)
qed

lemma cleanStack_Join_elem:
  "d \<noteq> [] \<Longrightarrow> plainElem e \<Longrightarrow> cleanStack (d @ CHR ''/'' # e) = e # cleanStack d"
  by (simp add: cleanStack_append splitChar_plain plainElem_def [of e] pushElem.simps)

lemma Join_elem_no_dot: "d \<noteq> [] \<Longrightarrow> plainElem e \<Longrightarrow> \<not> endsWithDot (Join d e)"
  by (simp add: Join_def endsWithDot_Clean cleanStack_Join_elem)

lemma Join_elem_not_Nil: "d \<noteq> [] \<Longrightarrow> Join d e \<noteq> []"
  by (simp add: Join_def Clean_not_Nil)

lemma fsKey_Join: "d \<noteq> [] \<Longrightarrow> plainElem e \<Longrightarrow> fsKey fs (Join d e) = fsKey fs d @ [e]"
  by (simp add: Join_def fsKey_Clean fsKey_elem)

section \<open>What each operation changes\<close>

lemma touch_simps [simp]:
  "cwd (touch k fs) = cwd fs" "clock (touch k fs) = clock fs" "ents (touch k fs) = ents fs"
  by (simp_all add: touch_def)

lemma setEntry_simps [simp]:
  "cwd (setEntry k v fs) = cwd fs" "clock (setEntry k v fs) = clock fs"
  "mtimes (setEntry k v fs) = mtimes fs"
  by (simp_all add: setEntry_def)

lemma entryAt_touch [simp]: "entryAt (touch q fs) k = entryAt fs k"
  by (simp add: entryAt_def)

lemma entryAt_setEntry [simp]:
  "entryAt (setEntry q v fs) k = (if k = q \<and> q \<noteq> [] then Some v else entryAt fs k)"
  by (simp add: entryAt_def setEntry_def update_conv')

lemma walkErr_cong:
  "\<forall>q. entryAt fs' q = entryAt fs q \<Longrightarrow> walkErr fs' pre es = walkErr fs pre es"
  by (induction es arbitrary: pre) (auto split: option.split entry.split)

text \<open>
  The frame of an operation: \<open>sameOutside a fs fs'\<close> says nothing changed but under \<open>a\<close>,
  and the working directory stayed.
\<close>

definition sameOutside :: "key \<Rightarrow> filesystem \<Rightarrow> filesystem \<Rightarrow> bool" where
  "sameOutside a fs fs' \<longleftrightarrow>
     cwd fs' = cwd fs \<and> clock fs' = clock fs
     \<and> (\<forall>k. \<not> underKey a k \<longrightarrow> entryAt fs' k = entryAt fs k)"

lemma sameOutside_refl [simp, intro]: "sameOutside a fs fs"
  by (simp add: sameOutside_def)

lemma sameOutside_trans:
  "sameOutside a fs fs' \<Longrightarrow> sameOutside a fs' fs'' \<Longrightarrow> sameOutside a fs fs''"
  by (simp add: sameOutside_def)

lemma sameOutside_mono: "sameOutside b fs fs' \<Longrightarrow> underKey a b \<Longrightarrow> sameOutside a fs fs'"
  by (auto simp: sameOutside_def dest: underKey_trans)

lemma sameOutside_fsKey: "sameOutside a fs fs' \<Longrightarrow> fsKey fs' p = fsKey fs p"
  by (rule fsKey_cwd) (simp add: sameOutside_def)

lemma sameOutside_setEntry: "sameOutside k fs (setEntry k v fs)"
  by (auto simp: sameOutside_def)

lemma sameOutside_touch: "sameOutside a fs fs' \<Longrightarrow> sameOutside a fs (touch q fs')"
  by (simp add: sameOutside_def)

lemma osMkdir_frame: "osMkdir p fs = Inr fs' \<Longrightarrow> sameOutside (fsKey fs p) fs fs'"
  by (auto simp: osMkdir_def Let_def sameOutside_touch sameOutside_setEntry
      split: if_splits option.splits)

lemma osCreateExcl_frame: "osCreateExcl p fs = Inr fs' \<Longrightarrow> sameOutside (fsKey fs p) fs fs'"
  by (auto simp: osCreateExcl_def Let_def sameOutside_touch sameOutside_setEntry
      split: if_splits option.splits)

lemma osAppend_frame: "sameOutside (fsKey fs p) fs (osAppend p bytes fs)"
  by (auto simp: osAppend_def sameOutside_touch sameOutside_setEntry split: option.splits entry.splits)

lemma osMkdir_entry:
  "osMkdir p fs = Inr fs' \<Longrightarrow>
     entryAt fs (fsKey fs p) = None \<and> entryAt fs' (fsKey fs p) = Some DirEntry"
  by (auto simp: osMkdir_def Let_def entryAt_def setEntry_def touch_def update_conv'
      split: if_splits option.splits)

lemma osModTime_osMkdir:
  assumes "osMkdir p fs = Inr fs'" and "fsKey fs p \<noteq> []"
  shows "osModTime fs' (fsKey fs p) = clock fs"
proof -
  let ?k = "fsKey fs p"
  have "fs' = touch (butlast ?k) (touch ?k (setEntry ?k DirEntry fs))"
    using assms(1) by (auto simp: osMkdir_def Let_def split: if_splits option.splits)
  moreover have "butlast ?k \<noteq> ?k"
    using assms(2) by (metis append_butlast_last_id append_self_conv not_Cons_self2)
  ultimately show ?thesis by (simp add: osModTime_def touch_def update_conv')
qed

lemma osCreateExcl_entry:
  "osCreateExcl p fs = Inr fs' \<Longrightarrow>
     entryAt fs (fsKey fs p) = None \<and> entryAt fs' (fsKey fs p) = Some (FileEntry [])"
  by (auto simp: osCreateExcl_def Let_def entryAt_def setEntry_def touch_def update_conv'
      split: if_splits option.splits)

lemma mkdirAllFrom_frame:
  "mkdirAllFrom fs pre es = (fs', r) \<Longrightarrow>
     cwd fs' = cwd fs \<and> clock fs' = clock fs
     \<and> (\<forall>k. entryAt fs k \<noteq> None \<or> \<not> underKey pre k \<longrightarrow> entryAt fs' k = entryAt fs k)"
proof (induction fs pre es rule: mkdirAllFrom.induct)
  case (1 fs pre)
  then show ?case by simp
next
  case (2 fs pre e es)
  show ?case
  proof (cases "entryAt fs (pre @ [e])")
    case None
    let ?fs = "touch pre (touch (pre @ [e]) (setEntry (pre @ [e]) DirEntry fs))"
    have "cwd fs' = cwd fs \<and> clock fs' = clock fs
        \<and> (\<forall>k. entryAt ?fs k \<noteq> None \<or> \<not> underKey (pre @ [e]) k \<longrightarrow> entryAt fs' k = entryAt ?fs k)"
      using "2.IH"(1) [OF refl None] "2.prems" None by (simp add: Let_def)
    with None show ?thesis by (auto simp: underKey_iff split: if_splits)
  next
    case (Some v)
    then show ?thesis
      using "2.IH"(2) [OF refl] "2.prems" Some
      by (cases v) (auto simp: Let_def underKey_iff)
  qed
qed

section \<open>Removing and renaming\<close>

lemma map_of_dropKeys:
  "map_of (dropKeys a es) k = (if underKey a k then None else map_of es k)"
  unfolding dropKeys_def using map_of_filter_key [of "\<lambda>k. \<not> underKey a k" es k] by simp

lemma moveKeys_other:
  "\<not> underKey a k \<Longrightarrow> \<not> underKey b k \<Longrightarrow> map_of (moveKeys a b es) k = map_of es k"
  by (induction es) (auto simp: moveKeys_def)

lemma moveKeys_old:
  "\<not> underKey b a \<Longrightarrow> \<not> underKey a b \<Longrightarrow> underKey a k \<Longrightarrow> map_of (moveKeys a b es) k = None"
proof (induction es)
  case (Cons x es)
  have "\<not> underKey b k \<or> underKey a b \<or> underKey b a"
    using Cons.prems(3) underKey_comparable by blast
  with Cons show ?case by (auto simp: moveKeys_def underKey_iff split: prod.splits)
qed (simp add: moveKeys_def)

lemma moveKeys_new:
  assumes "\<not> underKey b a" and "\<not> underKey a b"
  shows "map_of (moveKeys a b es) (b @ z) = map_of es (a @ z)"
proof (induction es)
  case Nil
  then show ?case by (simp add: moveKeys_def)
next
  case (Cons x es)
  obtain k v where x: "x = (k, v)" by (cases x)
  have disj: "\<not> underKey b (a @ z')" for z'
    using assms by (intro underKey_apart) auto
  show ?case
  proof (cases "underKey b k")
    case True
    then have "k \<noteq> a @ z" using disj by metis
    with True Cons show ?thesis by (simp add: moveKeys_def x)
  next
    case False
    then have "k \<noteq> b @ z" by (auto simp: underKey_iff)
    with False Cons show ?thesis
      by (auto simp: moveKeys_def x underKey_iff)
  qed
qed


lemma walkErr_None_prefix:
  "walkErr fs pre (xs @ y # ys) = None \<Longrightarrow> entryAt fs (pre @ xs) = Some DirEntry"
proof (induction xs arbitrary: pre)
  case Nil
  then show ?case by (simp split: option.splits entry.splits)
next
  case (Cons x xs)
  then have "walkErr fs (pre @ [x]) (xs @ y # ys) = None" by (simp split: option.splits entry.splits)
  then show ?case using Cons.IH [of "pre @ [x]"] by simp
qed

lemma walkErr_None_ancestor:
  assumes "walkErr fs [] k = None" and "underKey a k" and "a \<noteq> k"
  shows "entryAt fs a = Some DirEntry"
proof -
  from assms(2) obtain w where w: "k = a @ w" by (auto simp: underKey_iff)
  with assms(3) obtain z zs where "w = z # zs" by (cases w) auto
  with w have "k = a @ z # zs" by simp
  with assms(1) show ?thesis using walkErr_None_prefix [of fs "[]" a z zs] by simp
qed

lemma walkErr_NoneI:
  "(\<And>xs y ys. es = xs @ y # ys \<Longrightarrow> entryAt fs (pre @ xs) = Some DirEntry) \<Longrightarrow> walkErr fs pre es = None"
proof (induction es arbitrary: pre)
  case Nil
  then show ?case by simp
next
  case (Cons e es)
  have "entryAt fs pre = Some DirEntry" using Cons.prems [of "[]" e es] by simp
  moreover have "walkErr fs (pre @ [e]) es = None"
    using Cons.prems [of "e # xs" for xs] by (intro Cons.IH) auto
  ultimately show ?case by simp
qed

lemma walkErr_None_iff:
  "walkErr fs [] k = None \<longleftrightarrow> (\<forall>a. underKey a k \<and> a \<noteq> k \<longrightarrow> entryAt fs a = Some DirEntry)"
proof
  assume "walkErr fs [] k = None"
  then show "\<forall>a. underKey a k \<and> a \<noteq> k \<longrightarrow> entryAt fs a = Some DirEntry"
    using walkErr_None_ancestor by blast
next
  assume "\<forall>a. underKey a k \<and> a \<noteq> k \<longrightarrow> entryAt fs a = Some DirEntry"
  then show "walkErr fs [] k = None" by (intro walkErr_NoneI) simp
qed

lemma walkErr_snoc:
  "walkErr fs pre (xs @ [e]) = None
   \<longleftrightarrow> walkErr fs pre xs = None \<and> entryAt fs (pre @ xs) = Some DirEntry"
  by (induction xs arbitrary: pre) (auto split: option.splits entry.splits)

text \<open>
  The complete effect of a successful rename between different keys: the whole subtree moves,
  the old name is gone, everything else stays.
\<close>

lemma osRename_distinct:
  assumes "osRename old new fs = Inr fs'" and "fsKey fs old \<noteq> fsKey fs new"
  shows "\<not> underKey (fsKey fs new) (fsKey fs old)" and "\<not> underKey (fsKey fs old) (fsKey fs new)"
proof -
  let ?a = "fsKey fs old" and ?b = "fsKey fs new"
  have wa: "walkErr fs [] ?a = None" and wb: "walkErr fs [] ?b = None"
    and nb: "entryAt fs ?b \<noteq> Some DirEntry"
    and ei: "entryAt fs ?a = Some DirEntry \<Longrightarrow> \<not> underKey ?a ?b"
    using assms by (auto simp: osRename_def Let_def split: if_splits option.splits)
  show "\<not> underKey ?b ?a" using walkErr_None_ancestor [OF wa] nb assms(2) by metis
  show "\<not> underKey ?a ?b" using walkErr_None_ancestor [OF wb] ei assms(2) by metis
qed

lemma osRename_effect:
  assumes r: "osRename old new fs = Inr fs'" and ne: "fsKey fs old \<noteq> fsKey fs new"
  shows "entryAt fs' (fsKey fs new @ z) = entryAt fs (fsKey fs old @ z)"
    and "underKey (fsKey fs old) k \<Longrightarrow> entryAt fs' k = None"
    and "\<not> underKey (fsKey fs old) k \<Longrightarrow> \<not> underKey (fsKey fs new) k \<Longrightarrow> entryAt fs' k = entryAt fs k"
    and "cwd fs' = cwd fs"
proof -
  let ?a = "fsKey fs old" and ?b = "fsKey fs new"
  note d = osRename_distinct [OF r ne]
  then have nn: "?a \<noteq> []" "?b \<noteq> []" by (auto simp: underKey_def)
  have e: "ents fs' = moveKeys ?a ?b (ents fs)" and c: "cwd fs' = cwd fs"
    using r ne by (auto simp: osRename_def Let_def split: if_splits option.splits)
  show "entryAt fs' (?b @ z) = entryAt fs (?a @ z)"
    using nn moveKeys_new [OF d] by (simp add: entryAt_def e)
  show "entryAt fs' k = None" if "underKey ?a k"
  proof -
    have "k \<noteq> []" using that nn by (auto simp: underKey_def)
    with that show ?thesis using moveKeys_old [OF d] by (simp add: entryAt_def e)
  qed
  show "entryAt fs' k = entryAt fs k" if "\<not> underKey ?a k" "\<not> underKey ?b k"
    using that by (simp add: entryAt_def e moveKeys_other)
  show "cwd fs' = cwd fs" by (rule c)
qed

text \<open>When it succeeds, and when it has something to do.\<close>

lemma osRename_succeeds:
  assumes "old \<noteq> []" and "new \<noteq> []"
    and "walkErr fs [] (fsKey fs old) = None" and "entryAt fs (fsKey fs old) = Some v"
    and "walkErr fs [] (fsKey fs new) = None"
    and "entryAt fs (fsKey fs new) \<noteq> Some DirEntry"
    and "v = DirEntry \<Longrightarrow> \<not> underKey (fsKey fs old) (fsKey fs new) \<and> entryAt fs (fsKey fs new) = None"
  shows "isOk (osRename old new fs)"
  using assms by (auto simp: osRename_def Let_def)

lemma osRename_old_exists:
  "osRename old new fs = Inr fs' \<Longrightarrow> entryAt fs (fsKey fs old) \<noteq> None"
  by (auto simp: osRename_def Let_def split: if_splits option.splits)


section \<open>The tree stays a tree\<close>

text \<open>Every entry is in a directory; every operation keeps it so.\<close>

definition wfTree :: "filesystem \<Rightarrow> bool" where
  "wfTree fs \<longleftrightarrow>
     (\<forall>k e. entryAt fs (k @ [e]) \<noteq> None \<longrightarrow> entryAt fs k = Some DirEntry)"

lemma wfTree_list:
  "list_all (\<lambda>(k, v). entryAt fs (butlast k) = Some DirEntry) (ents fs) \<Longrightarrow> wfTree fs"
  unfolding wfTree_def list_all_iff
  by (fastforce simp: entryAt_def dest!: map_of_SomeD split: if_splits)

lemma wfTree_ancestors:
  "wfTree fs \<Longrightarrow> entryAt fs (k @ z) \<noteq> None \<Longrightarrow> z \<noteq> [] \<Longrightarrow> entryAt fs k = Some DirEntry"
proof (induction z rule: rev_induct)
  case (snoc x xs)
  then have "entryAt fs (k @ xs) = Some DirEntry" by (metis append_assoc wfTree_def)
  with snoc show ?case by (cases "xs = []") auto
qed simp

lemma wfTree_walk: "wfTree fs \<Longrightarrow> entryAt fs k \<noteq> None \<Longrightarrow> walkErr fs [] k = None"
  using wfTree_ancestors by (fastforce simp: walkErr_None_iff underKey_iff)

lemma walkErr_child:
  assumes "wfTree fs" and "entryAt fs k = Some DirEntry"
  shows "walkErr fs [] (k @ [e]) = None"
proof -
  have "entryAt fs a = Some DirEntry" if "underKey a (k @ [e])" "a \<noteq> k @ [e]" for a
  proof -
    from that have "underKey a k" by (cases "a = k @ [e]") (auto simp: underKey_iff append_eq_append_conv2 Cons_eq_append_conv)
    then show ?thesis using walkErr_None_ancestor [OF wfTree_walk [OF assms(1)], of k a] assms(2) by (cases "a = k") auto
  qed
  then show ?thesis by (simp add: walkErr_None_iff)
qed

lemma wfTree_touch [simp]: "wfTree (touch k fs) = wfTree fs"
  by (simp add: wfTree_def)

lemma wfTree_insert:
  assumes "wfTree fs" and "walkErr fs [] k = None" and "entryAt fs k = None"
  shows "wfTree (setEntry k v fs)"
proof -
  have up: "entryAt fs q = Some DirEntry" if "q @ [e] = k" for q e
    using walkErr_None_prefix [of fs "[]" q e "[]"] assms(2) that by auto
  show ?thesis unfolding wfTree_def
  proof (intro allI impI)
    fix q e assume h: "entryAt (setEntry k v fs) (q @ [e]) \<noteq> None"
    then have "q @ [e] = k \<or> entryAt fs (q @ [e]) \<noteq> None" by (auto split: if_splits)
    then have "entryAt fs q = Some DirEntry"
      using up assms(1) unfolding wfTree_def by blast
    with assms(3) show "entryAt (setEntry k v fs) q = Some DirEntry" by auto
  qed
qed

lemma wfTree_osMkdir: "wfTree fs \<Longrightarrow> osMkdir p fs = Inr fs' \<Longrightarrow> wfTree fs'"
  by (auto simp: osMkdir_def Let_def wfTree_insert split: if_splits option.splits)

lemma wfTree_osCreateExcl: "wfTree fs \<Longrightarrow> osCreateExcl p fs = Inr fs' \<Longrightarrow> wfTree fs'"
  by (auto simp: osCreateExcl_def Let_def wfTree_insert split: if_splits option.splits)

lemma wfTree_setFile:
  "wfTree fs \<Longrightarrow> entryAt fs k = Some (FileEntry c) \<Longrightarrow> wfTree (setEntry k (FileEntry d) fs)"
  by (fastforce simp: wfTree_def)

lemma wfTree_osAppend: "wfTree fs \<Longrightarrow> wfTree (osAppend p bytes fs)"
  by (auto simp: osAppend_def wfTree_setFile split: option.split entry.split)

lemma wfTree_mkdirAllFrom:
  "wfTree fs \<Longrightarrow> entryAt fs pre = Some DirEntry \<Longrightarrow> mkdirAllFrom fs pre es = (fs', r) \<Longrightarrow> wfTree fs'"
proof (induction fs pre es rule: mkdirAllFrom.induct)
  case (1 fs pre)
  then show ?case by simp
next
  case (2 fs pre e es)
  show ?case
  proof (cases "entryAt fs (pre @ [e])")
    case None
    let ?fs = "touch pre (touch (pre @ [e]) (setEntry (pre @ [e]) DirEntry fs))"
    have "walkErr fs [] (pre @ [e]) = None"
      using wfTree_walk [of fs pre] "2.prems"(1,2) by (simp add: walkErr_snoc)
    then have "wfTree ?fs" using "2.prems"(1) None by (simp add: wfTree_insert)
    moreover have "entryAt ?fs (pre @ [e]) = Some DirEntry" by simp
    ultimately show ?thesis using "2.IH"(1) [OF refl None] "2.prems"(3) None by (simp add: Let_def)
  next
    case (Some v)
    then show ?thesis using "2.IH"(2) [OF refl] "2.prems" Some by (cases v) (auto simp: Let_def)
  qed
qed

lemma wfTree_osMkdirAll: "wfTree fs \<Longrightarrow> osMkdirAll p fs = (fs', r) \<Longrightarrow> wfTree fs'"
  using wfTree_mkdirAllFrom [of fs "[]" "fsKey fs p"]
  by (auto simp: osMkdirAll_def entryAt_def split: if_splits option.splits prod.splits)

lemma osRemoveAll_effect:
  assumes "wfTree fs" and "osRemoveAll p fs = (fs', None)" and "p \<noteq> []"
  shows "entryAt fs' k = (if underKey (fsKey fs p) k then None else entryAt fs k)"
    and "cwd fs' = cwd fs"
proof -
  let ?a = "fsKey fs p"
  have gone: "entryAt fs k = None" if "entryAt fs ?a = None" "underKey ?a k"
  proof -
    obtain z where z: "k = ?a @ z" using \<open>underKey ?a k\<close> by (auto simp: underKey_iff)
    show ?thesis
    proof (cases "z = []")
      case False
      then show ?thesis using wfTree_ancestors [OF assms(1), of ?a z] that(1) z
        by (cases "entryAt fs k") auto
    qed (use that(1) z in simp)
  qed
  have miss: "entryAt fs ?a = None" if "walkErr fs [] ?a = Some e" for e
    using that wfTree_walk [OF assms(1), of ?a] by (cases "entryAt fs ?a") auto
  have "fs' = fs \<and> entryAt fs ?a = None
      \<or> (?a \<noteq> [] \<and> cwd fs' = cwd fs \<and> ents fs' = dropKeys ?a (ents fs))"
    using assms(2,3) miss
    by (auto simp: osRemoveAll_def Let_def split: if_splits option.splits io_error.splits)
  then show "entryAt fs' k = (if underKey ?a k then None else entryAt fs k)"
    and "cwd fs' = cwd fs"
    using gone by (auto simp: entryAt_def map_of_dropKeys underKey_def)
qed

lemma wfTree_dropKeys:
  assumes "wfTree fs" and "\<And>k. entryAt fs' k = (if underKey a k then None else entryAt fs k)"
  shows "wfTree fs'"
  using assms by (auto simp: wfTree_def underKey_snoc split: if_splits)

lemma wfTree_osRemoveAll:
  "wfTree fs \<Longrightarrow> osRemoveAll p fs = (fs', None) \<Longrightarrow> wfTree fs'"
  using wfTree_dropKeys [OF _ osRemoveAll_effect(1)]
  by (cases "p = []") (auto simp: osRemoveAll_def)

lemma wfTree_osRename:
  assumes wf: "wfTree fs" and r: "osRename old new fs = Inr fs'"
  shows "wfTree fs'"
proof (cases "fsKey fs old = fsKey fs new")
  case True
  with r wf show ?thesis by (auto simp: osRename_def Let_def split: if_splits option.splits)
next
  case False
  let ?a = "fsKey fs old" and ?b = "fsKey fs new"
  note ef = osRename_effect [OF r False] and ds = osRename_distinct [OF r False]
  have wb: "walkErr fs [] ?b = None"
    using r by (auto simp: osRename_def Let_def split: if_splits option.splits)
  show ?thesis unfolding wfTree_def
  proof (intro allI impI)
    fix k e assume h: "entryAt fs' (k @ [e]) \<noteq> None"
    consider (new) z where "k @ [e] = ?b @ z" | (old) "underKey ?a (k @ [e])"
      | (other) "\<not> underKey ?a (k @ [e])" "\<not> underKey ?b (k @ [e])" by (auto simp: underKey_iff)
    then show "entryAt fs' k = Some DirEntry"
    proof cases
      case (new z)
      show ?thesis
      proof (cases z rule: rev_cases)
        case Nil
        then have "?b = k @ [e]" using new by simp
        then have "underKey k ?b" "k \<noteq> ?b" by simp_all
        moreover from this have "\<not> underKey ?a k" "\<not> underKey ?b k"
          using ds new Nil by (auto dest: underKey_trans simp: underKey_iff)
        ultimately show ?thesis using ef(3) walkErr_None_ancestor [OF wb] by metis
      next
        case (snoc ys y)
        then have "k = ?b @ ys" "entryAt fs (?a @ ys @ [y]) \<noteq> None"
          using h new ef(1) [of z] by auto
        then show ?thesis using ef(1) [of ys] wf by (metis append_assoc wfTree_def)
      qed
    next
      case old
      then show ?thesis using h ef(2) by auto
    next
      case other
      then have "\<not> underKey ?a k" "\<not> underKey ?b k" by (auto dest: underKey_snoc)
      moreover have "entryAt fs k = Some DirEntry" using h ef(3) [OF other] wf by (metis wfTree_def)
      ultimately show ?thesis using ef(3) by simp
    qed
  qed
qed

section \<open>Listing a directory\<close>

text \<open>Names are plain elements, as the operating system guarantees.\<close>

definition plainTree :: "filesystem \<Rightarrow> bool" where
  "plainTree fs \<longleftrightarrow>
     list_all plainElem (cwd fs) \<and> list_all (list_all plainElem \<circ> fst) (ents fs)"

lemma plainTree_entry: "plainTree fs \<Longrightarrow> entryAt fs k \<noteq> None \<Longrightarrow> list_all plainElem k"
  by (auto simp: plainTree_def entryAt_def list_all_iff split: if_splits dest!: map_of_SomeD)

lemma plainTree_iff:
  "plainTree fs \<longleftrightarrow> list_all plainElem (cwd fs) \<and> (\<forall>k. entryAt fs k \<noteq> None \<longrightarrow> list_all plainElem k)"
proof -
  have "(\<forall>kv\<in>set (ents fs). list_all plainElem (fst kv)) \<longleftrightarrow> (\<forall>k. map_of (ents fs) k \<noteq> None \<longrightarrow> list_all plainElem k)"
    unfolding map_of_eq_None_iff by auto
  also have "\<dots> \<longleftrightarrow> (\<forall>k. entryAt fs k \<noteq> None \<longrightarrow> list_all plainElem k)"
    unfolding entryAt_def by (metis list.pred_inject(1))
  finally show ?thesis by (simp add: plainTree_def list_all_iff [of _ "ents fs"])
qed

lemma plainTree_setEntry:
  "plainTree fs \<Longrightarrow> list_all plainElem k \<Longrightarrow> plainTree (setEntry k v fs)"
proof -
  have "list_all (P \<circ> fst) es \<Longrightarrow> P k \<Longrightarrow> list_all (P \<circ> fst) (AList.update k v es)"
    for P :: "key \<Rightarrow> bool" and es by (induction es) auto
  then show "plainTree fs \<Longrightarrow> list_all plainElem k \<Longrightarrow> plainTree (setEntry k v fs)"
    by (simp add: plainTree_def setEntry_def)
qed

lemma plainTree_touch [simp]: "plainTree (touch k fs) = plainTree fs"
  by (simp add: plainTree_def)

lemma plainTree_osMkdir: "plainTree fs \<Longrightarrow> osMkdir p fs = Inr fs' \<Longrightarrow> plainTree fs'"
  using fsKey_plain [of fs p]
  by (auto simp: osMkdir_def Let_def plainTree_setEntry plainTree_def [of fs]
      split: if_splits option.splits)

lemma mem_childrenOf: "(n, v) \<in> set (childrenOf fs k) \<longleftrightarrow> entryAt fs (k @ [n]) = Some v"
proof -
  have "(n, v) \<in> set (childrenOf fs k) \<longleftrightarrow> (k @ [n], v) \<in> set (AList.clearjunk (ents fs))"
    by (force simp: childrenOf_def)
  also have "\<dots> \<longleftrightarrow> map_of (AList.clearjunk (ents fs)) (k @ [n]) = Some v"
    by (simp add: distinct_clearjunk)
  finally show ?thesis by (simp add: entryAt_def map_of_clearjunk)
qed

lemma distinct_childrenOf: "distinct (map fst (childrenOf fs k))"
proof -
  let ?l = "filter (\<lambda>(q, v). q \<noteq> [] \<and> butlast q = k) (AList.clearjunk (ents fs))"
  have "distinct (map fst ?l)"
    by (rule distinct_map_filter) (rule distinct_clearjunk)
  moreover have "inj_on last (set (map fst ?l))"
    by (auto simp: inj_on_def) (metis append_butlast_last_id)
  ultimately have "distinct (map last (map fst ?l))" by (simp only: distinct_map)
  moreover have "map fst (childrenOf fs k) = map last (map fst ?l)"
    by (simp add: childrenOf_def case_prod_unfold)
  ultimately show ?thesis by simp
qed

section \<open>Removing what is there\<close>

lemma osRemoveAll_present:
  assumes "wfTree fs" and "p \<noteq> []" and "\<not> endsWithDot p"
    and "fsKey fs p \<noteq> []" and "entryAt fs (fsKey fs p) \<noteq> None"
  shows "snd (osRemoveAll p fs) = None"
    and "clock (fst (osRemoveAll p fs)) = clock fs"
    and "\<not> underKey (fsKey fs p) q \<Longrightarrow> q \<noteq> butlast (fsKey fs p) \<Longrightarrow>
      osModTime (fst (osRemoveAll p fs)) q = osModTime fs q"
  using assms wfTree_walk [OF assms(1,5)]
  by (auto simp: osRemoveAll_def Let_def osModTime_def touch_def map_of_dropKeys update_conv')

section \<open>Bytes stored\<close>

fun entrySize :: "entry \<Rightarrow> nat" where
  "entrySize DirEntry = 0"
| "entrySize (FileEntry c) = length c"

definition diskBytes :: "filesystem \<Rightarrow> nat" where
  "diskBytes fs = sum_list (map (entrySize \<circ> snd) (ents fs))"

lemma sum_update_new:
  "map_of es k = None \<Longrightarrow>
     sum_list (map (entrySize \<circ> snd) (AList.update k v es)) = sum_list (map (entrySize \<circ> snd) es) + entrySize v"
  by (induction es) (auto split: if_splits)

lemma sum_update_old:
  "map_of es k = Some w \<Longrightarrow>
     sum_list (map (entrySize \<circ> snd) (AList.update k v es)) + entrySize w
     = sum_list (map (entrySize \<circ> snd) es) + entrySize v"
  by (induction es) (auto split: if_splits)

lemma diskBytes_touch [simp]: "diskBytes (touch k fs) = diskBytes fs"
  by (simp add: diskBytes_def)

lemma diskBytes_insert:
  "k \<noteq> [] \<Longrightarrow> entryAt fs k = None \<Longrightarrow> diskBytes (setEntry k v fs) = diskBytes fs + entrySize v"
  by (simp add: diskBytes_def setEntry_def entryAt_def sum_update_new)

lemma diskBytes_osMkdir: "osMkdir p fs = Inr fs' \<Longrightarrow> diskBytes fs' = diskBytes fs"
  by (auto simp: osMkdir_def Let_def entryAt_def diskBytes_insert split: if_splits option.splits)

lemma diskBytes_osCreateExcl: "osCreateExcl p fs = Inr fs' \<Longrightarrow> diskBytes fs' = diskBytes fs"
  by (auto simp: osCreateExcl_def Let_def entryAt_def diskBytes_insert split: if_splits option.splits)

lemma diskBytes_osAppend:
  assumes "entryAt fs (fsKey fs p) = Some (FileEntry c)"
  shows "diskBytes (osAppend p bytes fs) = diskBytes fs + length bytes"
    and "entryAt (osAppend p bytes fs) (fsKey fs p) = Some (FileEntry (c @ bytes))"
proof -
  have ne: "fsKey fs p \<noteq> []" and m: "map_of (ents fs) (fsKey fs p) = Some (FileEntry c)"
    using assms by (auto simp: entryAt_def split: if_splits)
  have "diskBytes (setEntry (fsKey fs p) (FileEntry (c @ bytes)) fs) + entrySize (FileEntry c)
      = diskBytes fs + entrySize (FileEntry (c @ bytes))"
    unfolding diskBytes_def setEntry_def using sum_update_old [OF m] by simp
  then show "diskBytes (osAppend p bytes fs) = diskBytes fs + length bytes"
    using assms by (simp add: osAppend_def)
  show "entryAt (osAppend p bytes fs) (fsKey fs p) = Some (FileEntry (c @ bytes))"
    using assms ne by (simp add: osAppend_def)
qed

lemma diskBytes_mkdirAllFrom: "mkdirAllFrom fs pre es = (fs', r) \<Longrightarrow> diskBytes fs' = diskBytes fs"
proof (induction fs pre es rule: mkdirAllFrom.induct)
  case (1 fs pre)
  then show ?case by simp
next
  case (2 fs pre e es)
  show ?case
  proof (cases "entryAt fs (pre @ [e])")
    case None
    then show ?thesis
      using "2.IH"(1) [OF refl None] "2.prems" by (simp add: Let_def diskBytes_insert)
  next
    case (Some v)
    then show ?thesis using "2.IH"(2) [OF refl] "2.prems" Some by (cases v) (auto simp: Let_def)
  qed
qed

lemma diskBytes_osMkdirAll: "osMkdirAll p fs = (fs', r) \<Longrightarrow> diskBytes fs' = diskBytes fs"
  using diskBytes_mkdirAllFrom [of fs "[]" "fsKey fs p"]
  by (auto simp: osMkdirAll_def split: if_splits option.splits prod.splits)

end
