(* ===== verification/Scratch.thy ===== *)
theory Scratch
  imports File_System
begin

text \<open>
  Staging directories, \<open>node.go\<close> lines 348 to 414. Content is written into a fresh
  directory beside the output and renamed into place; \<open>claimScratch\<close> records the
  directory in the process-wide \<open>staging\<close> set, and \<open>sweepScratchPrefix\<close> clears away what
  dead processes left behind, told apart by that set and by age.
\<close>

section \<open>State and operations\<close>

definition scratchPrefix :: string where
  "scratchPrefix = ''.ipfs-download-''"

definition gatewayScratchPrefix :: string where
  "gatewayScratchPrefix = ''.ipfs-gateway-''"

text \<open>One hour, in nanoseconds.\<close>

definition scratchStaleAfter :: int64 where
  "scratchStaleAfter = 3600000000000"

text \<open>The process-wide \<open>sync.Map\<close> of paths, and the file system.\<close>

record scratchState =
  staging :: "string set"
  disk :: filesystem

definition claimScratch :: "string \<Rightarrow> string \<Rightarrow> string list \<Rightarrow> scratchState \<Rightarrow> error + (string \<times> scratchState)" where
  "claimScratch dir pre rands s =
     (case osMkdirTemp dir pre rands (disk s) of
        Inl e \<Rightarrow> Inl e
      | Inr (scratch, fs) \<Rightarrow> Inr (scratch, s\<lparr>staging := insert scratch (staging s), disk := fs\<rparr>))"

text \<open>The function \<open>claimScratch\<close> returns: forget the claim, remove the directory.\<close>

definition releaseScratch :: "string \<Rightarrow> scratchState \<Rightarrow> scratchState" where
  "releaseScratch scratch s =
     s\<lparr>staging := staging s - {scratch}, disk := fst (osRemoveAll scratch (disk s))\<rparr>"

text \<open>One round of the sweep's loop.\<close>

definition sweepEntry :: "string \<Rightarrow> string \<Rightarrow> string set \<Rightarrow> filesystem \<Rightarrow> string \<times> entry \<Rightarrow> filesystem" where
  "sweepEntry dir pre live fs ne =
     (let name = fst ne; path = Join dir name in
      if snd ne \<noteq> DirEntry \<or> \<not> HasPrefix name pre then fs
      else if path \<in> live then fs
      else if entryAt fs (fsKey fs path) = None then fs
      else if clock fs - osModTime fs (fsKey fs path) < scratchStaleAfter then fs
      else fst (osRemoveAll path fs))"

definition sweepScratchPrefix :: "string \<Rightarrow> string \<Rightarrow> scratchState \<Rightarrow> scratchState" where
  "sweepScratchPrefix dir pre s =
     (case osReadDir dir (disk s) of
        Inl e \<Rightarrow> s
      | Inr entries \<Rightarrow> s\<lparr>disk := foldl (sweepEntry dir pre (staging s)) (disk s) entries\<rparr>)"

definition sweepScratch :: "string \<Rightarrow> scratchState \<Rightarrow> scratchState" where
  "sweepScratch dir s = sweepScratchPrefix dir scratchPrefix s"

section \<open>Where a claim lands\<close>

lemma osMkdirTemp_name:
  "osMkdirTemp dir pre rs fs = Inr (name, fs') \<Longrightarrow>
     \<exists>r \<in> set rs. name = joinPath dir pre @ r \<and> osMkdir name fs = Inr fs'"
proof (induction rs)
  case (Cons r rs)
  then show ?case
    by (auto simp: Let_def split: sum.splits error.splits io_error.splits)
qed simp

lemma claimScratch_name:
  assumes "claimScratch dir pre rs s = Inr (scratch, s')"
  obtains r where "r \<in> set rs" and "scratch = joinPath dir pre @ r"
    and "osMkdir scratch (disk s) = Inr (disk s')" and "staging s' = insert scratch (staging s)"
  using assms osMkdirTemp_name [of dir pre rs "disk s" scratch "disk s'"]
  by (auto simp: claimScratch_def split: sum.splits)

text \<open>
  Beside an output in a named directory the claimed path is the joined one, which is what the
  sweep looks up. A fresh directory below a clean one: \<open>Dir\<close> returns nothing else.
\<close>

lemma last_joinChar:
  "es \<noteq> [] \<Longrightarrow> last es \<noteq> [] \<Longrightarrow> joinChar c es \<noteq> [] \<and> last (joinChar c es) = last (last es)"
proof (induction es)
  case (Cons e es)
  then show ?case by (cases "es = []") (auto simp: joinChar_Cons)
qed simp

lemma properDir_last:
  assumes "properDir d"
  shows "last d \<noteq> CHR ''/''"
proof -
  note st = properDir_stack [OF assms]
  obtain e st' where s: "cleanStack d = e # st'" using st(2) by (cases "cleanStack d") auto
  have "stackElem e" using cleanStack_stackElem [of d] s by simp
  then have "e \<noteq> []" and "last e \<noteq> CHR ''/''"
    by (auto simp: stackElem_def) (metis last_in_set)
  moreover have "last d = last e"
  proof -
    have j: "joinChar CHR ''/'' (rev (cleanStack d)) \<noteq> []"
      "last (joinChar CHR ''/'' (rev (cleanStack d))) = last e"
      using last_joinChar [of "rev (cleanStack d)" "CHR ''/''"] s \<open>e \<noteq> []\<close> by auto
    have "d = renderPath (isRooted d) (rev (cleanStack d))" by (rule st(3))
    also have "last \<dots> = last e" using j st(2) by (simp add: renderPath_def)
    finally show ?thesis .
  qed
  ultimately show ?thesis by simp
qed

lemma joinPath_properDir: "properDir d \<Longrightarrow> joinPath d name = d @ CHR ''/'' # name"
  using properDir_last properDir_stack(1) by (simp add: joinPath_def)

lemma joinPath_Join:
  "properDir d \<Longrightarrow> plainElem name \<Longrightarrow> joinPath d name = Join d name"
  by (simp add: joinPath_properDir Join_properDir_elem)

section \<open>What the sweep removes\<close>

text \<open>An entry the sweep takes: a directory with the prefix, not claimed here, and old.\<close>

definition abandoned :: "string \<Rightarrow> string \<Rightarrow> scratchState \<Rightarrow> string \<Rightarrow> bool" where
  "abandoned dir pre s name \<longleftrightarrow>
     entryAt (disk s) (fsKey (disk s) dir @ [name]) = Some DirEntry
     \<and> HasPrefix name pre \<and> Join dir name \<notin> staging s
     \<and> scratchStaleAfter \<le> clock (disk s) - osModTime (disk s) (fsKey (disk s) dir @ [name])"


text \<open>One round of the loop, when the entry is one the listing can produce.\<close>

lemma sweepEntry_effect:
  assumes wf: "wfTree fs" and n: "plainElem n" and d: "dir \<noteq> []"
    and dk: "fsKey fs dir = dk"
    and hit: "hit = (v = DirEntry \<and> entryAt fs (dk @ [n]) \<noteq> None \<and> HasPrefix n pre
      \<and> Join dir n \<notin> live \<and> scratchStaleAfter \<le> clock fs - osModTime fs (dk @ [n]))"
    and fs': "fs' = sweepEntry dir pre live fs (n, v)"
  shows "(\<forall>k. entryAt fs' k = (if hit \<and> underKey (dk @ [n]) k then None else entryAt fs k))
    \<and> cwd fs' = cwd fs \<and> clock fs' = clock fs \<and> wfTree fs'
    \<and> (\<forall>m. m \<noteq> n \<longrightarrow> osModTime fs' (dk @ [m]) = osModTime fs (dk @ [m]))"
proof -
  let ?p = "Join dir n"
  have key: "fsKey fs ?p = dk @ [n]" using d n dk by (simp add: fsKey_Join)
  have p: "?p \<noteq> []" "\<not> endsWithDot ?p" using d n Join_elem_not_Nil Join_elem_no_dot by blast+
  show ?thesis
  proof (cases hit)
    case False
    then have "fs' = fs" using hit fs' by (auto simp: sweepEntry_def Let_def key)
    with False wf show ?thesis by simp
  next
    case True
    then have "v = DirEntry" "entryAt fs (dk @ [n]) \<noteq> None" "HasPrefix n pre" "?p \<notin> live"
      "scratchStaleAfter \<le> clock fs - osModTime fs (dk @ [n])"
      using hit by simp_all
    then have fs': "fs' = fst (osRemoveAll ?p fs)"
      using fs' by (auto simp: sweepEntry_def Let_def key)
    have here: "entryAt fs (fsKey fs ?p) \<noteq> None" using True hit by (simp add: key)
    have nn: "fsKey fs ?p \<noteq> []" by (simp add: key)
    note pr = osRemoveAll_present [OF wf p nn here]
    have ok: "osRemoveAll ?p fs = (fs', None)" using pr(1) fs' by (simp add: prod_eq_iff)
    have "osModTime fs' (dk @ [m]) = osModTime fs (dk @ [m])" if "m \<noteq> n" for m
      using pr(3) [of "dk @ [m]"] fs' that by (simp add: key underKey_def)
    then show ?thesis
      using True osRemoveAll_effect [OF wf ok p(1)] wfTree_osRemoveAll [OF wf ok] pr(2) fs'
      by (simp add: key)
  qed
qed

text \<open>The whole loop, over entries whose names are distinct and whose kinds are current.\<close>

definition sweeps :: "string \<Rightarrow> string \<Rightarrow> string set \<Rightarrow> filesystem \<Rightarrow> string \<times> entry \<Rightarrow> bool" where
  "sweeps dir pre live fs ne \<longleftrightarrow>
     snd ne = DirEntry \<and> HasPrefix (fst ne) pre \<and> Join dir (fst ne) \<notin> live
     \<and> scratchStaleAfter \<le> clock fs - osModTime fs (fsKey fs dir @ [fst ne])"

lemma sweep_loop:
  assumes "wfTree fs" and "dir \<noteq> []" and "fsKey fs dir = dk"
    and "\<forall>ne \<in> set es. plainElem (fst ne) \<and> entryAt fs (dk @ [fst ne]) = Some (snd ne)"
    and "distinct (map fst es)"
  shows "entryAt (foldl (sweepEntry dir pre live) fs es) k
    = (if \<exists>ne \<in> set es. sweeps dir pre live fs ne \<and> underKey (dk @ [fst ne]) k
       then None else entryAt fs k)"
  using assms
proof (induction es arbitrary: fs)
  case Nil
  then show ?case by simp
next
  case (Cons x es)
  obtain n v where x: "x = (n, v)" by (cases x)
  define hit where "hit = (v = DirEntry \<and> entryAt fs (dk @ [n]) \<noteq> None \<and> HasPrefix n pre
      \<and> Join dir n \<notin> live \<and> scratchStaleAfter \<le> clock fs - osModTime fs (dk @ [n]))"
  define fs' where "fs' = sweepEntry dir pre live fs (n, v)"
  have n: "plainElem n" and v: "entryAt fs (dk @ [n]) = Some v" using Cons.prems x by auto
  note st = sweepEntry_effect [OF Cons.prems(1) n Cons.prems(2,3) hit_def fs'_def]
  have dk': "fsKey fs' dir = dk" using st Cons.prems(3) fsKey_cwd by metis
  have ne: "fst m \<noteq> n" if "m \<in> set es" for m using that Cons.prems(5) x by force
  then have fresh: "\<not> underKey (dk @ [n]) (dk @ [fst m])" if "m \<in> set es" for m
    using that by (simp add: underKey_def)
  have keep: "\<forall>m \<in> set es. plainElem (fst m) \<and> entryAt fs' (dk @ [fst m]) = Some (snd m)"
  proof
    fix m assume m: "m \<in> set es"
    then have "entryAt fs' (dk @ [fst m]) = entryAt fs (dk @ [fst m])" using st fresh by simp
    with m Cons.prems(4) show "plainElem (fst m) \<and> entryAt fs' (dk @ [fst m]) = Some (snd m)"
      by simp
  qed
  have same: "sweeps dir pre live fs' m = sweeps dir pre live fs m" if "m \<in> set es" for m
    using st ne [OF that] dk' Cons.prems(3) by (simp add: sweeps_def)
  have rest: "entryAt (foldl (sweepEntry dir pre live) fs' es) k
    = (if \<exists>ne \<in> set es. sweeps dir pre live fs' ne \<and> underKey (dk @ [fst ne]) k
       then None else entryAt fs' k)"
    using st Cons.prems(2,5) dk' keep by (intro Cons.IH) simp_all
  have head: "sweeps dir pre live fs x = hit"
    using v Cons.prems(3) by (auto simp: sweeps_def hit_def x)
  show ?case
  proof (cases "\<exists>ne \<in> set es. sweeps dir pre live fs ne \<and> underKey (dk @ [fst ne]) k")
    case True
    with rest same show ?thesis by (auto simp: x fs'_def [symmetric])
  next
    case False
    with rest same have "entryAt (foldl (sweepEntry dir pre live) fs' es) k = entryAt fs' k" by auto
    with False head st show ?thesis by (auto simp: x fs'_def [symmetric])
  qed
qed

lemma sweeps_abandoned:
  "(\<exists>ne \<in> set (childrenOf (disk s) (fsKey (disk s) dir)). sweeps dir pre (staging s) (disk s) ne \<and> underKey (fsKey (disk s) dir @ [fst ne]) k)
    \<longleftrightarrow> (\<exists>n. abandoned dir pre s n \<and> underKey (fsKey (disk s) dir @ [n]) k)"
proof -
  have "abandoned dir pre s n \<longleftrightarrow> (n, DirEntry) \<in> set (childrenOf (disk s) (fsKey (disk s) dir))
      \<and> sweeps dir pre (staging s) (disk s) (n, DirEntry)" for n
    by (auto simp: mem_childrenOf abandoned_def sweeps_def)
  moreover have "ne = (fst ne, DirEntry)" if "sweeps dir pre (staging s) (disk s) ne" for ne
    using that by (auto simp: sweeps_def prod_eq_iff)
  ultimately show ?thesis by (metis fst_conv)
qed

lemma sweep_effect:
  assumes wf: "wfTree (disk s)" and pl: "plainTree (disk s)" and d: "dir \<noteq> []"
  shows "entryAt (disk (sweepScratchPrefix dir pre s)) k
    = (if \<exists>n. abandoned dir pre s n \<and> underKey (fsKey (disk s) dir @ [n]) k
       then None else entryAt (disk s) k)"
proof -
  let ?dk = "fsKey (disk s) dir"
  show ?thesis
  proof (cases "osReadDir dir (disk s)")
    case (Inl e)
    have "entryAt (disk s) (?dk @ [n]) = None" for n
    proof (rule ccontr)
      assume "entryAt (disk s) (?dk @ [n]) \<noteq> None"
      then have "walkErr (disk s) [] (?dk @ [n]) = None" using wf by (rule wfTree_walk [rotated])
      then have "walkErr (disk s) [] (?dk @ [[]]) = None" by (simp add: walkErr_snoc)
      with Inl d show False by (simp add: osReadDir_def Let_def)
    qed
    then show ?thesis using Inl by (simp add: sweepScratchPrefix_def abandoned_def)
  next
    case (Inr es)
    then have es: "es = childrenOf (disk s) ?dk"
      using d by (auto simp: osReadDir_def Let_def split: option.splits)
    have "\<forall>ne \<in> set es. plainElem (fst ne) \<and> entryAt (disk s) (?dk @ [fst ne]) = Some (snd ne)"
    proof
      fix ne assume "ne \<in> set es"
      then have "entryAt (disk s) (?dk @ [fst ne]) = Some (snd ne)"
        using mem_childrenOf [of "fst ne" "snd ne" "disk s" ?dk] by (simp add: es)
      then show "plainElem (fst ne) \<and> entryAt (disk s) (?dk @ [fst ne]) = Some (snd ne)"
        using plainTree_entry [OF pl, of "?dk @ [fst ne]"] by simp
    qed
    then have "entryAt (foldl (sweepEntry dir pre (staging s)) (disk s) es) k
      = (if \<exists>ne \<in> set es. sweeps dir pre (staging s) (disk s) ne \<and> underKey (?dk @ [fst ne]) k
         then None else entryAt (disk s) k)"
      using wf d by (intro sweep_loop) (simp_all add: es distinct_childrenOf)
    then show ?thesis
      using Inr es sweeps_abandoned by (simp add: sweepScratchPrefix_def)
  qed
qed

section \<open>Properties\<close>

text \<open>The entry names the client stages under: a prefix of its own and random digits.\<close>

lemma plainElem_scratch:
  "CHR ''/'' \<notin> set r \<Longrightarrow> pre \<in> {scratchPrefix, gatewayScratchPrefix} \<Longrightarrow> plainElem (pre @ r)"
  by (auto simp: plainElem_def scratchPrefix_def gatewayScratchPrefix_def)

text \<open>
  C19. The sweep removes exactly the abandoned staging directories and nothing else. After
  \<open>sweepScratchPrefix\<close> a path is gone if it lies in a child of the directory that is itself a
  directory, has the prefix, is not in this process's \<open>staging\<close> set and was last modified at
  least an hour ago; every other path of the file system is as it was, whatever the listing held.
\<close>

theorem sweepScratchPrefix_exact:
  assumes "wfTree (disk s)" and "plainTree (disk s)" and "dir \<noteq> []"
  shows "staging (sweepScratchPrefix dir pre s) = staging s
    \<and> (\<forall>k. entryAt (disk (sweepScratchPrefix dir pre s)) k
        = (if \<exists>n. abandoned dir pre s n \<and> underKey (fsKey (disk s) dir @ [n]) k
           then None else entryAt (disk s) k))"
  using sweep_effect [OF assms]
  by (simp add: sweepScratchPrefix_def split: sum.split)

text \<open>A concrete disk for the witnesses: an old scratch directory, a young one, and a file.\<close>

definition sampleDisk :: filesystem where
  "sampleDisk =
     \<lparr>cwd = [''home''], clock = 7200000000000,
      ents = [([''data''], DirEntry), ([''home''], DirEntry),
        ([''data'', ''.ipfs-download-1''], DirEntry),
        ([''data'', ''.ipfs-download-1'', ''data''], FileEntry ''half''),
        ([''data'', ''.ipfs-download-2''], DirEntry),
        ([''data'', ''out''], FileEntry ''whole'')],
      mtimes = [([''data'', ''.ipfs-download-2''], 7100000000000)]\<rparr>"

theorem sweepScratchPrefix_exact_witness:
  "entryAt (disk (sweepScratchPrefix ''/data'' scratchPrefix \<lparr>staging = {}, disk = sampleDisk\<rparr>))
     [''data'', ''.ipfs-download-1'', ''data''] = None
   \<and> entryAt (disk (sweepScratchPrefix ''/data'' scratchPrefix \<lparr>staging = {}, disk = sampleDisk\<rparr>))
     [''data'', ''out''] = Some (FileEntry ''whole'')"
proof -
  let ?s = "\<lparr>staging = {}, disk = sampleDisk\<rparr>"
  have key: "fsKey (disk ?s) ''/data'' = [''data'']"
    by (simp add: fsKey_def isRooted_def pushElem.simps)
  have join: "Join ''/data'' ''.ipfs-download-1'' = ''/data/.ipfs-download-1''"
    by (simp add: Join_def Clean_def cleanStack_def isRooted_def renderPath_def pushElem.simps)
  have wf: "wfTree (disk ?s)" by (rule wfTree_list) (simp add: sampleDisk_def entryAt_def)
  have pl: "plainTree (disk ?s)" by (simp add: plainTree_def sampleDisk_def plainElem_def)
  have old: "abandoned ''/data'' scratchPrefix ?s ''.ipfs-download-1''"
    using key join
    by (simp add: abandoned_def sampleDisk_def entryAt_def HasPrefix_def scratchPrefix_def
        scratchStaleAfter_def osModTime_def)
  have out: "\<not> abandoned ''/data'' scratchPrefix ?s n" if "n = ''out''" for n
    using that by (simp add: abandoned_def HasPrefix_def scratchPrefix_def)
  note ex = sweepScratchPrefix_exact [OF wf pl, of "''/data''" scratchPrefix]
  have "\<exists>n. abandoned ''/data'' scratchPrefix ?s n
      \<and> underKey (fsKey (disk ?s) ''/data'' @ [n]) [''data'', ''.ipfs-download-1'', ''data'']"
    using old key by (intro exI [of _ "''.ipfs-download-1''"]) (simp add: underKey_def)
  moreover have "\<not> (\<exists>n. abandoned ''/data'' scratchPrefix ?s n
      \<and> underKey (fsKey (disk ?s) ''/data'' @ [n]) [''data'', ''out''])"
    using out key by (auto simp: underKey_def)
  moreover have "entryAt sampleDisk [''data'', ''out''] = Some (FileEntry ''whole'')"
    by (simp add: entryAt_def sampleDisk_def)
  ultimately show ?thesis using ex by simp
qed

text \<open>
  A download in progress keeps its staging directory however old it looks: with the output in
  a named directory (neither the working directory nor the root), a directory claimed by
  \<open>claimScratch\<close> and not yet released survives every sweep of that directory with everything
  in it.
\<close>

theorem sweep_spares_live_claim:
  assumes "properDir dir" and "pre \<in> {scratchPrefix, gatewayScratchPrefix}"
    and "list_all (\<lambda>r. CHR ''/'' \<notin> set r) rands"
    and "claimScratch dir pre rands s0 = Inr (scratch, s1)"
    and "scratch \<in> staging s" and "wfTree (disk s)" and "plainTree (disk s)"
    and "underKey (fsKey (disk s) scratch) k"
  shows "entryAt (disk (sweepScratchPrefix dir swept s)) k = entryAt (disk s) k"
proof -
  obtain r where r: "r \<in> set rands" "scratch = joinPath dir pre @ r"
    using assms(4) by (rule claimScratch_name)
  have pl: "plainElem (pre @ r)" using assms(2,3) r by (intro plainElem_scratch) (auto simp: list_all_iff)
  have d: "dir \<noteq> []" using assms(1) by (rule properDir_stack)
  have sc: "scratch = Join dir (pre @ r)"
    using assms(1) pl r by (simp add: joinPath_properDir Join_properDir_elem)
  have key: "fsKey (disk s) scratch = fsKey (disk s) dir @ [pre @ r]"
    using d pl sc by (simp add: fsKey_Join)
  have "\<not> abandoned dir swept s n" if "underKey (fsKey (disk s) dir @ [n]) k" for n
  proof -
    have "n = pre @ r" using that assms(8) key by (auto simp: underKey_iff)
    then show ?thesis using assms(5) sc by (simp add: abandoned_def)
  qed
  then show ?thesis using sweep_effect [OF assms(6,7) d, of swept k] by auto
qed

theorem sweep_spares_live_claim_witness:
  "\<exists>scratch s1. claimScratch ''/data'' scratchPrefix [''1'', ''9''] \<lparr>staging = {}, disk = sampleDisk\<rparr>
      = Inr (scratch, s1)
    \<and> entryAt (disk (sweepScratchPrefix ''/data'' scratchPrefix
          (s1\<lparr>disk := (disk s1)\<lparr>clock := 99 * 3600000000000\<rparr>\<rparr>)))
        (fsKey (disk s1) scratch) = Some DirEntry"
proof -
  let ?s0 = "\<lparr>staging = {}, disk = sampleDisk\<rparr>"
  let ?sc = "''/data/.ipfs-download-9''"
  have rn: "Clean ''/data'' = ''/data''"
    by (simp add: Clean_def cleanStack_def isRooted_def renderPath_def pushElem.simps)
  then have pd: "properDir ''/data''" by (simp add: properDir_def)
  have key: "fsKey fs ''/data/.ipfs-download-9'' = [''data'', ''.ipfs-download-9'']"
    "fsKey fs ''/data/.ipfs-download-1'' = [''data'', ''.ipfs-download-1'']" for fs
    by (simp_all add: fsKey_def isRooted_def pushElem.simps)
  define fs1 where "fs1 = touch [''data''] (touch [''data'', ''.ipfs-download-9'']
      (setEntry [''data'', ''.ipfs-download-9''] DirEntry sampleDisk))"
  define s1 where "s1 = \<lparr>staging = {?sc}, disk = fs1\<rparr>"
  have mk: "osMkdir ?sc sampleDisk = Inr fs1"
    by (simp add: osMkdir_def Let_def key fs1_def) (simp add: entryAt_def sampleDisk_def)
  have mk1: "osMkdir ''/data/.ipfs-download-1'' sampleDisk
      = Inl (OsError ''mkdir'' ''/data/.ipfs-download-1'' EEXIST)"
    by (simp add: osMkdir_def Let_def key) (simp add: entryAt_def sampleDisk_def)
  have claim: "claimScratch ''/data'' scratchPrefix [''1'', ''9''] ?s0 = Inr (?sc, s1)"
    using mk mk1 by (simp add: claimScratch_def scratchPrefix_def joinPath_def s1_def)
  let ?s = "s1\<lparr>disk := fs1\<lparr>clock := 99 * 3600000000000\<rparr>\<rparr>"
  have en: "entryAt (disk ?s) k = entryAt fs1 k" for k by (simp add: entryAt_def)
  have wf: "wfTree (disk ?s)"
    by (rule wfTree_list)
       (simp add: fs1_def touch_def setEntry_def sampleDisk_def entryAt_def)
  have pl: "plainTree (disk ?s)"
    by (simp add: plainTree_def fs1_def touch_def setEntry_def sampleDisk_def plainElem_def)
  have "entryAt (disk (sweepScratchPrefix ''/data'' scratchPrefix ?s)) (fsKey fs1 ?sc)
      = entryAt (disk ?s) (fsKey fs1 ?sc)"
    by (rule sweep_spares_live_claim [OF pd _ _ claim _ wf pl])
       (simp_all add: s1_def key)
  moreover have "entryAt (disk ?s) (fsKey fs1 ?sc) = Some DirEntry"
    unfolding en by (simp add: key fs1_def)
  ultimately show ?thesis using claim by (intro exI [of _ ?sc] exI [of _ s1]) (simp add: s1_def)
qed

text \<open>
  The exception: an output in the working directory. \<open>filepath.Dir\<close> then gives \<open>.\<close>,
  \<open>os.MkdirTemp\<close> returns \<open>./.ipfs-download-N\<close> and that spelling is what \<open>staging\<close>
  remembers, but the sweep looks up \<open>filepath.Join(".", name)\<close>, which is the name alone. So
  a download that is still running there after an hour loses its staging directory to the next
  download's sweep, although it is in the \<open>staging\<close> set.
\<close>

theorem sweep_takes_live_claim_in_cwd:
  assumes "pre \<in> {scratchPrefix, gatewayScratchPrefix}"
    and "list_all (\<lambda>r. CHR ''/'' \<notin> set r) rands"
    and "claimScratch ''.'' pre rands \<lparr>staging = {}, disk = fs\<rparr> = Inr (scratch, s1)"
    and "wfTree fs" and "plainTree fs"
    and "s2 = s1\<lparr>disk := (disk s1)\<lparr>clock := clock fs + scratchStaleAfter\<rparr>\<rparr>"
  shows "scratch \<in> staging s2
    \<and> entryAt (disk s2) (fsKey (disk s2) scratch) = Some DirEntry
    \<and> entryAt (disk (sweepScratchPrefix ''.'' pre s2)) (fsKey (disk s2) scratch) = None"
proof -
  obtain r where r: "r \<in> set rands" "scratch = joinPath ''.'' pre @ r"
    and mk: "osMkdir scratch fs = Inr (disk s1)" and st: "staging s1 = {scratch}"
    using assms(3) by (rule claimScratch_name) auto
  have pl: "plainElem (pre @ r)" using assms(1,2) r by (intro plainElem_scratch) (auto simp: list_all_iff)
  have sc: "scratch = ''.'' @ CHR ''/'' # (pre @ r)" using r(2) by (simp add: joinPath_def)
  have key: "fsKey g scratch = fsKey g ''.'' @ [pre @ r]" for g
    unfolding sc using pl by (intro fsKey_elem) simp_all
  have fr: "sameOutside (fsKey fs scratch) fs (disk s1)" using mk by (rule osMkdir_frame)
  have keys: "fsKey (disk s2) p = fsKey fs p" for p
    using fr assms(6) by (intro fsKey_cwd) (simp add: sameOutside_def)
  have ent: "entryAt (disk s2) = entryAt (disk s1)" using assms(6) by (simp add: entryAt_def fun_eq_iff)
  have here: "entryAt (disk s2) (fsKey fs scratch) = Some DirEntry"
    using osMkdir_entry [OF mk] by (simp add: ent)
  have old: "osModTime (disk s2) (fsKey fs scratch) = clock fs"
    using osModTime_osMkdir [OF mk] assms(6) by (simp add: osModTime_def key)
  have join: "Join ''.'' (pre @ r) = pre @ r"
    using pl by (simp add: Join_plain_elem cleanStack_def isRooted_def pushElem.simps renderPath_def)
  have st2: "staging s2 = {scratch}" "clock (disk s2) = clock fs + scratchStaleAfter"
    using st assms(6) by simp_all
  have neq: "pre @ r \<noteq> scratch"
  proof
    assume "pre @ r = scratch"
    then have "length (pre @ r) = length scratch" by simp
    then show False by (simp add: sc)
  qed
  have "abandoned ''.'' pre s2 (pre @ r)"
    using here old join neq st2 by (simp add: abandoned_def keys key)
  moreover have "wfTree (disk s2)" using wfTree_osMkdir [OF assms(4) mk] by (simp add: wfTree_def ent)
  moreover have "plainTree (disk s2)"
    using plainTree_osMkdir [OF assms(5) mk] assms(6) by (simp add: plainTree_def)
  ultimately show ?thesis
    using here st2 sweep_effect [of s2 "''.''" pre "fsKey fs scratch"]
    by (auto simp: keys key)
qed

theorem sweep_takes_live_claim_in_cwd_witness:
  "\<exists>scratch s1 s2. claimScratch ''.'' scratchPrefix [''7''] \<lparr>staging = {}, disk = sampleDisk\<rparr>
      = Inr (scratch, s1)
    \<and> scratch \<in> staging s2
    \<and> entryAt (disk (sweepScratchPrefix ''.'' scratchPrefix s2)) (fsKey (disk s2) scratch) = None"
proof -
  let ?s0 = "\<lparr>staging = {}, disk = sampleDisk\<rparr>"
  have key: "fsKey sampleDisk ''./.ipfs-download-7'' = [''home'', ''.ipfs-download-7'']"
    by (simp add: fsKey_def isRooted_def pushElem.simps sampleDisk_def)
  have "isOk (osMkdir ''./.ipfs-download-7'' sampleDisk)"
    by (simp add: osMkdir_def Let_def key) (simp add: entryAt_def sampleDisk_def)
  then obtain fs1 where "osMkdir ''./.ipfs-download-7'' sampleDisk = Inr fs1"
    by (cases "osMkdir ''./.ipfs-download-7'' sampleDisk") auto
  then have claim: "claimScratch ''.'' scratchPrefix [''7''] ?s0
      = Inr (''./.ipfs-download-7'', \<lparr>staging = {''./.ipfs-download-7''}, disk = fs1\<rparr>)"
    by (simp add: claimScratch_def scratchPrefix_def joinPath_def)
  have wf: "wfTree sampleDisk" by (rule wfTree_list) (simp add: sampleDisk_def entryAt_def)
  have pl: "plainTree sampleDisk" by (simp add: plainTree_def sampleDisk_def plainElem_def)
  let ?s1 = "\<lparr>staging = {''./.ipfs-download-7''}, disk = fs1\<rparr>"
  let ?s2 = "?s1\<lparr>disk := (disk ?s1)\<lparr>clock := clock sampleDisk + scratchStaleAfter\<rparr>\<rparr>"
  have pre: "scratchPrefix \<in> {scratchPrefix, gatewayScratchPrefix}" by simp
  have rs: "list_all (\<lambda>r. CHR ''/'' \<notin> set r) [''7'']" by simp
  note t = sweep_takes_live_claim_in_cwd [OF pre rs claim wf pl refl]
  show ?thesis
    by (rule exI [of _ "''./.ipfs-download-7''"], rule exI [of _ ?s1], rule exI [of _ ?s2])
       (intro conjI claim conjunct1 [OF t] conjunct2 [OF conjunct2 [OF t]])
qed

end
