(* ===== verification/Output.thy ===== *)
theory Output
  imports File_System
begin

text \<open>
  \<open>output.go\<close>: moving staged content onto the output path, and the per-path locks that make the
  step a rename cannot do - clearing a directory out of the way - exclusive.
\<close>

section \<open>replace\<close>

text \<open>
  \<open>lock\<close> is what \<open>outputs.lock(ctx, output)\<close> comes to: the error it gives up with, or the file
  system as other downloads have left it by the time the lock is held.
\<close>

definition replace :: "ctxState \<Rightarrow> (filesystem \<Rightarrow> error + filesystem) \<Rightarrow> string \<Rightarrow> string \<Rightarrow> filesystem
    \<Rightarrow> filesystem \<times> error option" where
  "replace ctx lock staged output fs =
     (if ctx \<noteq> CtxLive then (fs, contextError ctx)
      else case osRename staged output fs of
        Inr fs' \<Rightarrow> (fs', None)
      | Inl _ \<Rightarrow>
        (case lock fs of
           Inl e \<Rightarrow> (fs, Some e)
         | Inr fs1 \<Rightarrow>
           (case osRename staged output fs1 of
              Inr fs' \<Rightarrow> (fs', None)
            | Inl _ \<Rightarrow>
              (case osRemoveAll output fs1 of
                 (fs2, Some e) \<Rightarrow> (fs2, Some e)
               | (fs2, None) \<Rightarrow>
                 (case osRename staged output fs2 of
                    Inl e \<Rightarrow> (fs2, Some e)
                  | Inr fs' \<Rightarrow> (fs', None))))))"

text \<open>
  The output holds what was staged, the staging path is empty, and nothing else changed.
\<close>

definition published :: "key \<Rightarrow> key \<Rightarrow> filesystem \<Rightarrow> filesystem \<Rightarrow> bool" where
  "published a b fs fs' \<longleftrightarrow>
     (\<forall>z. entryAt fs' (b @ z) = entryAt fs (a @ z))
     \<and> (\<forall>k. underKey a k \<longrightarrow> entryAt fs' k = None)
     \<and> (\<forall>k. \<not> underKey a k \<and> \<not> underKey b k \<longrightarrow> entryAt fs' k = entryAt fs k)"

text \<open>Where the staged entry and the output are, for \<open>replace\<close> to have a chance.\<close>

definition placed :: "string \<Rightarrow> string \<Rightarrow> filesystem \<Rightarrow> bool" where
  "placed staged output fs \<longleftrightarrow>
     staged \<noteq> [] \<and> output \<noteq> []
     \<and> entryAt fs (fsKey fs staged) \<noteq> None
     \<and> walkErr fs [] (fsKey fs output) = None
     \<and> \<not> underKey (fsKey fs staged) (fsKey fs output)
     \<and> \<not> underKey (fsKey fs output) (fsKey fs staged)"

lemma osRename_published:
  assumes "osRename staged output fs = Inr fs'" and "fsKey fs staged \<noteq> fsKey fs output"
  shows "published (fsKey fs staged) (fsKey fs output) fs fs'"
  using osRename_effect [OF assms] by (simp add: published_def)

text \<open>Once the output is gone, the rename goes through.\<close>

lemma osRename_after_removal:
  assumes wf: "wfTree fs" and pl: "placed staged output fs"
    and rm: "osRemoveAll output fs = (fs2, None)"
  shows "\<exists>fs'. osRename staged output fs2 = Inr fs'
    \<and> published (fsKey fs staged) (fsKey fs output) fs fs' \<and> wfTree fs'"
proof -
  let ?a = "fsKey fs staged" and ?b = "fsKey fs output"
  have pls: "staged \<noteq> []" "output \<noteq> []" "entryAt fs ?a \<noteq> None" "walkErr fs [] ?b = None"
    "\<not> underKey ?a ?b" "\<not> underKey ?b ?a" using pl by (simp_all add: placed_def)
  note ef = osRemoveAll_effect [OF wf rm pls(2)]
  have keys: "fsKey fs2 p = fsKey fs p" for p by (rule fsKey_cwd [OF ef(2)])
  have anc: "entryAt fs2 q = Some DirEntry"
    if "walkErr fs [] k = None" "underKey q k" "q \<noteq> k" "k = ?a \<or> k = ?b" for q k
  proof -
    have "\<not> underKey ?b q"
    proof
      assume "underKey ?b q"
      then have "underKey ?b k" using that(2) by (rule underKey_trans)
      with that(4) pls(6) have "k = ?b" by auto
      with \<open>underKey ?b q\<close> that(2,3) show False
        by (auto simp: underKey_iff)
    qed
    then show ?thesis using ef(1) walkErr_None_ancestor [OF that(1-3)] by simp
  qed
  have wa: "walkErr fs [] ?a = None" using wf pls(3) by (rule wfTree_walk)
  have "isOk (osRename staged output fs2)"
  proof (rule osRename_succeeds [OF pls(1,2)])
    show "walkErr fs2 [] (fsKey fs2 staged) = None"
      using anc [OF wa] by (auto simp: keys walkErr_None_iff)
    show "walkErr fs2 [] (fsKey fs2 output) = None"
      using anc [OF pls(4)] by (auto simp: keys walkErr_None_iff)
    show "entryAt fs2 (fsKey fs2 staged) = Some (the (entryAt fs ?a))"
      using pls(3,6) ef(1) by (auto simp: keys)
  qed (use pls ef(1) in \<open>auto simp: keys\<close>)
  then obtain fs' where r: "osRename staged output fs2 = Inr fs'"
    by (cases "osRename staged output fs2") auto
  have ne: "fsKey fs2 staged \<noteq> fsKey fs2 output" using pls(5) keys by auto
  have "published ?a ?b fs2 fs'" using osRename_published [OF r ne] by (simp add: keys)
  moreover have "\<not> underKey ?b (?a @ z)" for z using underKey_apart [OF pls(5,6)] .
  ultimately have "published ?a ?b fs fs'" using ef(1) by (auto simp: published_def)
  moreover have "wfTree fs'" using wfTree_osRename [OF wfTree_osRemoveAll [OF wf rm] r] .
  ultimately show ?thesis using r by blast
qed

section \<open>Properties of replace\<close>

text \<open>A staged entry goes onto whatever can be cleared away.\<close>

lemma replace_succeeds:
  assumes "wfTree fs" and "placed staged output fs" and "snd (osRemoveAll output fs) = None"
  shows "\<exists>fs'. replace CtxLive Inr staged output fs = (fs', None)
    \<and> published (fsKey fs staged) (fsKey fs output) fs fs' \<and> wfTree fs'"
proof (cases "osRename staged output fs")
  case (Inr fs')
  have "fsKey fs staged \<noteq> fsKey fs output" using assms(2) by (auto simp: placed_def)
  then show ?thesis
    using Inr osRename_published [OF Inr] wfTree_osRename [OF assms(1) Inr] by (simp add: replace_def)
next
  case (Inl e)
  obtain fs2 where rm: "osRemoveAll output fs = (fs2, None)"
    using assms(3) by (cases "osRemoveAll output fs") auto
  then show ?thesis
    using Inl osRename_after_removal [OF assms(1,2) rm] by (auto simp: replace_def)
qed

text \<open>
  C14. \<open>replace\<close> publishes the staged content over whatever is at the output - nothing, a file or
  a directory with anything in it. With a live context, the output lock granted and the file
  system left alone meanwhile, a staged entry that exists and an output whose parent directories
  exist, it succeeds unless the output cannot be removed; the output then holds exactly the staged
  tree, the staging path is empty and everything else is as it was.
\<close>

theorem replace_publishes:
  assumes "wfTree fs" and "placed staged output fs" and "snd (osRemoveAll output fs) = None"
  shows "\<exists>fs'. replace CtxLive Inr staged output fs = (fs', None)
    \<and> published (fsKey fs staged) (fsKey fs output) fs fs' \<and> wfTree fs'"
  using assms by (rule replace_succeeds)

definition publishDisk :: filesystem where
  "publishDisk =
     \<lparr>cwd = [], clock = 5,
      ents = [([''d''], DirEntry), ([''d'', ''s''], DirEntry), ([''d'', ''s'', ''data''], FileEntry ''new''),
        ([''d'', ''out''], DirEntry), ([''d'', ''out'', ''old''], FileEntry ''old'')],
      mtimes = []\<rparr>"

lemma publishDisk_keys:
  "fsKey fs ''/d/s/data'' = [''d'', ''s'', ''data'']" "fsKey fs ''/d/out'' = [''d'', ''out'']"
  "fsKey fs ''/d/s/gone'' = [''d'', ''s'', ''gone'']"
  by (simp_all add: fsKey_def isRooted_def pushElem.simps)

lemma publishDisk_wf: "wfTree publishDisk"
  by (rule wfTree_list) (simp add: publishDisk_def entryAt_def)

lemma publishDisk_remove: "snd (osRemoveAll ''/d/out'' publishDisk) = None"
  by (simp add: osRemoveAll_def Let_def publishDisk_keys endsWithDot_code)
     (simp add: publishDisk_def entryAt_def)

theorem replace_publishes_witness:
  "\<exists>fs'. replace CtxLive Inr ''/d/s/data'' ''/d/out'' publishDisk = (fs', None)
    \<and> entryAt fs' [''d'', ''out''] = Some (FileEntry ''new'')
    \<and> entryAt fs' [''d'', ''out'', ''old''] = None"
proof -
  have pl: "placed ''/d/s/data'' ''/d/out'' publishDisk"
    by (simp add: placed_def publishDisk_keys underKey_def) (simp add: publishDisk_def entryAt_def)
  obtain fs' where r: "replace CtxLive Inr ''/d/s/data'' ''/d/out'' publishDisk = (fs', None)"
    and p: "published [''d'', ''s'', ''data''] [''d'', ''out''] publishDisk fs'"
    using replace_publishes [OF publishDisk_wf pl publishDisk_remove] by (auto simp: publishDisk_keys)
  have new: "entryAt fs' ([''d'', ''out''] @ z) = entryAt publishDisk ([''d'', ''s'', ''data''] @ z)" for z
    using p by (simp add: published_def)
  have "entryAt fs' [''d'', ''out''] = Some (FileEntry ''new'')"
    using new [of "[]"] by (simp add: publishDisk_def entryAt_def)
  moreover have "entryAt fs' [''d'', ''out'', ''old''] = None"
    using new [of "[''old'']"] by (simp add: publishDisk_def entryAt_def)
  ultimately show ?thesis using r by blast
qed

text \<open>
  A download past its deadline publishes nothing: with a context that has ended \<open>replace\<close>
  returns the context's error and leaves the file system alone, and so it does when the wait for
  the output lock ends with an error.
\<close>

theorem replace_after_deadline:
  "(ctx \<noteq> CtxLive \<longrightarrow> replace ctx lock staged output fs = (fs, contextError ctx) \<and> contextError ctx \<noteq> None)
   \<and> (lock fs = Inl e \<longrightarrow>
        fst (replace ctx lock staged output fs) = fs
        \<or> osRename staged output fs = Inr (fst (replace ctx lock staged output fs)))"
  by (auto simp: replace_def split: sum.split)

theorem replace_after_deadline_witness:
  "replace DeadlineExceeded Inr ''/d/s/data'' ''/d/out'' publishDisk = (publishDisk, Some Timeout)"
  using replace_after_deadline [of DeadlineExceeded Inr] by (simp add: contextError_def)

text \<open>
  Clearing the output does not ask why the rename failed. When the staged entry is no longer
  there - a sweep took it, for one - both renames fail, the output is removed all the same, and
  the last rename fails too: \<open>replace\<close> returns an error and what the caller had at the output is
  lost.
\<close>

theorem replace_loses_output_when_staged_is_gone:
  assumes "wfTree fs" and "staged \<noteq> []" and "output \<noteq> []"
    and "entryAt fs (fsKey fs staged) = None" and "snd (osRemoveAll output fs) = None"
  shows "\<exists>fs' e. replace CtxLive Inr staged output fs = (fs', Some e)
    \<and> entryAt fs' (fsKey fs output) = None"
proof -
  obtain fs2 where rm: "osRemoveAll output fs = (fs2, None)"
    using assms(5) by (cases "osRemoveAll output fs") auto
  note ef = osRemoveAll_effect [OF assms(1) rm assms(3)]
  have key: "fsKey fs2 staged = fsKey fs staged" by (rule fsKey_cwd [OF ef(2)])
  have fails: "\<exists>e. osRename staged output g = Inl e" if "entryAt g (fsKey g staged) = None" for g
    using that by (cases "osRename staged output g") (auto dest: osRename_old_exists)
  have "entryAt fs2 (fsKey fs2 staged) = None" using ef(1) assms(4) key by simp
  then show ?thesis
    using fails [OF assms(4)] fails [of fs2] rm ef(1) [of "fsKey fs output"]
    by (auto simp: replace_def)
qed

theorem replace_loses_output_when_staged_is_gone_witness:
  "\<exists>fs' e. replace CtxLive Inr ''/d/s/gone'' ''/d/out'' publishDisk = (fs', Some e)
    \<and> entryAt publishDisk [''d'', ''out'', ''old''] = Some (FileEntry ''old'')
    \<and> entryAt fs' [''d'', ''out''] = None"
proof -
  have "entryAt publishDisk (fsKey publishDisk ''/d/s/gone'') = None"
    unfolding publishDisk_keys by (simp add: publishDisk_def entryAt_def)
  moreover have "entryAt publishDisk [''d'', ''out'', ''old''] = Some (FileEntry ''old'')"
    by (simp add: publishDisk_def entryAt_def)
  ultimately show ?thesis
    using replace_loses_output_when_staged_is_gone [OF publishDisk_wf _ _ _ publishDisk_remove, of "''/d/s/gone''"]
    by (auto simp: publishDisk_keys)
qed

end
