(* ===== verification/Staging.thy ===== *)
theory Staging
  imports Scratch Output
begin

text \<open>
  What both download paths do with the disk (\<open>node.go\<close>, lines 332 to 345, and
  \<open>fallback.go\<close>, lines 211 to 226): sweep the output's directory, claim a staging directory
  in it, put the content there, move it onto the output and give the staging directory back. The
  paths differ in how the content gets into the staging directory, which is the interface
  \<open>staged_content\<close>; what they promise of the disk is proved once, inside it.
\<close>

section \<open>The sequence\<close>

text \<open>
  \<open>stage\<close> puts the content under the directory it is given and returns the path of what is to
  be moved, or an error; \<open>release\<close> is deferred, so it runs on every way out after the claim.
\<close>

definition publishVia :: "string \<Rightarrow> ctxState \<Rightarrow> (filesystem \<Rightarrow> error + filesystem) \<Rightarrow> string list
    \<Rightarrow> (string \<Rightarrow> filesystem \<Rightarrow> filesystem \<times> (error + string)) \<Rightarrow> string \<Rightarrow> scratchState
    \<Rightarrow> scratchState \<times> error option" where
  "publishVia pre ctx lock rands stage output s =
     (let s1 = sweepScratchPrefix (Dir output) pre s in
      case claimScratch (Dir output) pre rands s1 of
        Inl e \<Rightarrow> (s1, Some e)
      | Inr (scratch, s2) \<Rightarrow>
          (case stage scratch (disk s2) of
             (fs3, Inl e) \<Rightarrow> (releaseScratch scratch (s2\<lparr>disk := fs3\<rparr>), Some e)
           | (fs3, Inr staged) \<Rightarrow>
               (case replace ctx lock staged output fs3 of
                  (fs4, err) \<Rightarrow> (releaseScratch scratch (s2\<lparr>disk := fs4\<rparr>), err))))"

section \<open>Frames\<close>

lemma cwd_osRemoveAll [simp]: "cwd (fst (osRemoveAll p fs)) = cwd fs"
  by (simp add: osRemoveAll_def Let_def touch_def split: option.split io_error.split)

lemma cwd_sweepEntry: "cwd (sweepEntry dir pre live fs ne) = cwd fs"
  by (simp add: sweepEntry_def Let_def)

lemma cwd_sweep: "cwd (disk (sweepScratchPrefix dir pre s)) = cwd (disk s)"
proof -
  have "cwd (foldl (sweepEntry dir pre live) fs es) = cwd fs" for live fs es
    by (induction es arbitrary: fs) (simp_all add: cwd_sweepEntry)
  then show ?thesis by (simp add: sweepScratchPrefix_def split: sum.split)
qed

lemma staging_sweep: "staging (sweepScratchPrefix dir pre s) = staging s"
  by (simp add: sweepScratchPrefix_def split: sum.split)

lemma wfTree_sweep:
  assumes wf: "wfTree (disk s)" and pl: "plainTree (disk s)" and d: "dir \<noteq> []"
  shows "wfTree (disk (sweepScratchPrefix dir pre s))"
  using wf unfolding wfTree_def sweep_effect [OF wf pl d]
  by (auto dest: underKey_snoc split: if_splits)

text \<open>\<open>RemoveAll\<close> of a path other than the root, failing or not, changes nothing but what is there.\<close>

lemma osRemoveAll_frame:
  assumes "wfTree fs" and "fsKey fs p \<noteq> []" and "\<not> underKey (fsKey fs p) k"
  shows "entryAt (fst (osRemoveAll p fs)) k = entryAt fs k"
proof (cases "p = [] \<or> snd (osRemoveAll p fs) \<noteq> None")
  case True
  then show ?thesis using assms(2)
    by (auto simp: osRemoveAll_def Let_def split: option.split io_error.split)
next
  case False
  then have "osRemoveAll p fs = (fst (osRemoveAll p fs), None)" by (simp add: prod_eq_iff)
  from osRemoveAll_effect(1) [OF assms(1) this, of k] False assms(3) show ?thesis by simp
qed

lemma osRemoveAll_failed:
  "fsKey fs p \<noteq> [] \<Longrightarrow> osRemoveAll p fs = (fs', Some e) \<Longrightarrow> fs' = fs"
  by (auto simp: osRemoveAll_def Let_def split: option.splits io_error.splits if_splits)

text \<open>
  Waiting for the output lock while no other download changes anything: it is granted, or given up on.
\<close>

definition quietLock :: "(filesystem \<Rightarrow> error + filesystem) \<Rightarrow> bool" where
  "quietLock lock \<longleftrightarrow> (\<forall>g g'. lock g = Inr g' \<longrightarrow> g' = g)"

lemma quietLock_Inr [simp]: "quietLock Inr"
  by (simp add: quietLock_def)

text \<open>
  What \<open>replace\<close> comes to then, for a staged entry that exists and an output whose directory does: it
  publishes what is staged or fails having changed nothing. In particular it never ends with the output
  cleared and nothing in its place, since the last rename cannot fail.
\<close>

lemma replace_effect:
  assumes wf: "wfTree fs" and pl: "placed staged output fs" and out: "fsKey fs output \<noteq> []" and quiet: "quietLock lock"
    and r: "replace ctx lock staged output fs = (fs', e)"
  shows "wfTree fs' \<and> cwd fs' = cwd fs
    \<and> (e = None \<longrightarrow> published (fsKey fs staged) (fsKey fs output) fs fs')
    \<and> (e \<noteq> None \<longrightarrow> fs' = fs)"
proof -
  have ne: "fsKey fs staged \<noteq> fsKey fs output" using pl by (auto simp: placed_def)
  have lk: "(\<exists>x. lock fs = Inl x) \<or> lock fs = Inr fs"
    using quiet by (cases "lock fs") (auto simp: quietLock_def)
  have ce: "contextError ctx \<noteq> None" if "ctx \<noteq> CtxLive"
    using that by (cases ctx) (simp_all add: contextError_def)
  consider (kept) "fs' = fs" "e \<noteq> None"
    | (renamed) "osRename staged output fs = Inr fs'" "e = None"
    | (stuck) x where "osRemoveAll output fs = (fs', Some x)" "e = Some x"
    | (cleared) fs2 where "osRemoveAll output fs = (fs2, None)"
        "(fs', e) = (case osRename staged output fs2 of Inl x \<Rightarrow> (fs2, Some x) | Inr g \<Rightarrow> (g, None))"
    using r lk ce by (auto simp: replace_def split: if_splits sum.splits prod.splits option.splits)
  then show ?thesis
  proof cases
    case kept
    then show ?thesis using wf by auto
  next
    case renamed
    then show ?thesis
      using osRename_published [OF renamed(1) ne] wfTree_osRename [OF wf renamed(1)]
        osRename_effect(4) [OF renamed(1) ne] by simp
  next
    case stuck
    then show ?thesis using osRemoveAll_failed [OF out] wf by auto
  next
    case cleared
    obtain g where g: "osRename staged output fs2 = Inr g" "published (fsKey fs staged) (fsKey fs output) fs g" "wfTree g"
      using osRename_after_removal [OF wf pl cleared(1)] by blast
    have c2: "cwd fs2 = cwd fs" using osRemoveAll_effect(2) [OF wf cleared(1)] pl by (simp add: placed_def)
    then have "cwd g = cwd fs" using osRename_effect(4) [OF g(1)] ne fsKey_cwd [OF c2] by simp
    then show ?thesis using g cleared(2) by simp
  qed
qed

section \<open>The interface of staged content\<close>

text \<open>
  Something that can be put below a staging directory: whatever happens it touches nothing else
  and keeps the tree a tree, and when it succeeds it returns a child of the directory that is there.
\<close>

locale staged_content =
  fixes stage :: "'a \<Rightarrow> int64 \<Rightarrow> string \<Rightarrow> filesystem \<Rightarrow> filesystem \<times> (error + string)"
  assumes stage_frame:
    "\<lbrakk>stage x limit dir fs = (fs', r); properDir dir; limit < max_int64; wfTree fs;
      entryAt fs (fsKey fs dir) = Some DirEntry\<rbrakk>
      \<Longrightarrow> sameOutside (fsKey fs dir) fs fs' \<and> wfTree fs'"
    and stage_child:
    "\<lbrakk>stage x limit dir fs = (fs', Inr staged); properDir dir; limit < max_int64; wfTree fs;
      entryAt fs (fsKey fs dir) = Some DirEntry\<rbrakk>
      \<Longrightarrow> \<exists>e. plainElem e \<and> staged = dir @ CHR ''/'' # e \<and> entryAt fs' (fsKey fs' staged) \<noteq> None"

text \<open>
  When a download can be expected to go right: a sound disk, an output in a named directory that
  does not itself look like a staging directory, and random suffixes without separators.
\<close>

definition downloadable :: "string \<Rightarrow> string \<Rightarrow> string list \<Rightarrow> filesystem \<Rightarrow> bool" where
  "downloadable pre output rands fs \<longleftrightarrow>
     wfTree fs \<and> plainTree fs \<and> output \<noteq> [] \<and> properDir (Dir output)
     \<and> (\<exists>b. fsKey fs output = fsKey fs (Dir output) @ [b] \<and> \<not> HasPrefix b pre)
     \<and> list_all (\<lambda>r. CHR ''/'' \<notin> set r) rands
     \<and> pre \<in> {scratchPrefix, gatewayScratchPrefix}"

text \<open>Everything but the output and the staging directories beside it.\<close>

definition elsewhere :: "string \<Rightarrow> string \<Rightarrow> filesystem \<Rightarrow> key \<Rightarrow> bool" where
  "elsewhere pre output fs k \<longleftrightarrow>
     \<not> underKey (fsKey fs output) k \<and> (\<forall>n. HasPrefix n pre \<longrightarrow> \<not> underKey (fsKey fs (Dir output) @ [n]) k)"

lemma downloadable_no_dot:
  assumes "downloadable pre output rnds fs"
  shows "\<not> endsWithDot output"
proof
  assume "endsWithDot output"
  then consider "output = ''.''" | q where "output = q @ CHR ''/'' # ''.''" by (auto simp: endsWithDot_def)
  then have "fsKey fs output = fsKey fs (Dir output)"
  proof cases
    case 1
    then show ?thesis by (simp add: Dir_def fsKey_Clean) (simp add: fsKey_def isRooted_def pushElem.simps)
  next
    case 2
    have "upToLastSlash output = q @ ''/''" unfolding 2 by (rule upToLastSlash_eq) simp
    then show ?thesis unfolding 2
      by (simp add: Dir_def fsKey_Clean) (simp add: fsKey_def isRooted_def splitChar_append pushElem.simps hd_append)
  qed
  then show False using assms by (auto simp: downloadable_def)
qed

text \<open>What the claim leaves for the content to be staged in.\<close>

lemma claim_effect:
  assumes ok: "downloadable pre output rands (disk s)" and "s1 = sweepScratchPrefix (Dir output) pre s"
    and claim: "claimScratch (Dir output) pre rands s1 = Inr (scratch, s2)"
  shows "properDir scratch"
    and "\<exists>r. fsKey (disk s) scratch = fsKey (disk s) (Dir output) @ [pre @ r]"
    and "wfTree (disk s2)" and "cwd (disk s2) = cwd (disk s)"
    and "entryAt (disk s2) (fsKey (disk s2) scratch) = Some DirEntry"
    and "staging s2 = insert scratch (staging s)"
    and "\<And>k. (\<forall>n. HasPrefix n pre \<longrightarrow> \<not> underKey (fsKey (disk s) (Dir output) @ [n]) k)
      \<Longrightarrow> entryAt (disk s2) k = entryAt (disk s) k"
proof -
  have o: "wfTree (disk s)" "plainTree (disk s)" "properDir (Dir output)"
    "list_all (\<lambda>r. CHR ''/'' \<notin> set r) rands" "pre \<in> {scratchPrefix, gatewayScratchPrefix}"
    using ok by (simp_all add: downloadable_def)
  note d = properDir_stack(1) [OF o(3)]
  have wf1: "wfTree (disk s1)" unfolding assms(2) by (rule wfTree_sweep [OF o(1,2) d])
  have cwd1: "cwd (disk s1) = cwd (disk s)" unfolding assms(2) by (rule cwd_sweep)
  obtain r where r: "r \<in> set rands" "scratch = joinPath (Dir output) pre @ r"
    and mk: "osMkdir scratch (disk s1) = Inr (disk s2)" and st: "staging s2 = insert scratch (staging s1)"
    using claim by (rule claimScratch_name)
  have pl: "plainElem (pre @ r)" using o(4,5) r(1) by (intro plainElem_scratch) (auto simp: list_all_iff)
  have sc: "scratch = Join (Dir output) (pre @ r)"
    using o(3) pl r(2) by (simp add: joinPath_properDir Join_properDir_elem)
  have key: "fsKey fs scratch = fsKey fs (Dir output) @ [pre @ r]" for fs
    unfolding sc by (rule fsKey_Join [OF d pl])
  have keys: "fsKey (disk s1) p = fsKey (disk s) p" for p by (rule fsKey_cwd [OF cwd1])
  show "properDir scratch" unfolding sc by (rule properDir_Join [OF o(3) pl])
  show "\<exists>r. fsKey (disk s) scratch = fsKey (disk s) (Dir output) @ [pre @ r]" using key by blast
  show "wfTree (disk s2)" using wfTree_osMkdir [OF wf1 mk] .
  note fr = osMkdir_frame [OF mk]
  show c2: "cwd (disk s2) = cwd (disk s)" using fr cwd1 by (simp add: sameOutside_def)
  show "entryAt (disk s2) (fsKey (disk s2) scratch) = Some DirEntry"
    using osMkdir_entry [OF mk] fsKey_cwd [OF c2] keys by simp
  show "staging s2 = insert scratch (staging s)" using st staging_sweep assms(2) by simp
  show "entryAt (disk s2) k = entryAt (disk s) k"
    if far: "\<forall>n. HasPrefix n pre \<longrightarrow> \<not> underKey (fsKey (disk s) (Dir output) @ [n]) k" for k
  proof -
    have "HasPrefix (pre @ r) pre" by (simp add: HasPrefix_def)
    then have "entryAt (disk s2) k = entryAt (disk s1) k"
      using fr far key [of "disk s1"] keys by (simp add: sameOutside_def)
    also have "\<dots> = entryAt (disk s) k"
      using far unfolding assms(2) sweep_effect [OF o(1,2) d] by (auto simp: abandoned_def)
    finally show ?thesis .
  qed
qed

text \<open>The claimed directory is new and empty, in a directory that is there; nothing else has changed.\<close>

lemma claim_key:
  assumes ok: "downloadable pre output rands (disk s)" and "s1 = sweepScratchPrefix (Dir output) pre s"
    and claim: "claimScratch (Dir output) pre rands s1 = Inr (scratch, s2)"
  shows "\<not> underKey (fsKey (disk s) scratch) k \<Longrightarrow> entryAt (disk s2) k = entryAt (disk s1) k"
    and "underKey (fsKey (disk s) scratch) k \<Longrightarrow> entryAt (disk s1) k = None"
    and "entryAt (disk s1) (fsKey (disk s) (Dir output)) = Some DirEntry"
proof -
  note c = claim_effect [OF assms]
  have wf1: "wfTree (disk s1)" and keys: "fsKey (disk s1) p = fsKey (disk s) p" for p
    using ok properDir_stack(1) fsKey_cwd [OF cwd_sweep] by (auto simp: assms(2) downloadable_def wfTree_sweep)
  obtain r0 where mk: "osMkdir scratch (disk s1) = Inr (disk s2)" using claim by (rule claimScratch_name)
  show "entryAt (disk s2) k = entryAt (disk s1) k" if "\<not> underKey (fsKey (disk s) scratch) k"
    using osMkdir_frame [OF mk] that keys by (simp add: sameOutside_def)
  have new: "entryAt (disk s1) (fsKey (disk s) scratch) = None"
    using mk keys by (auto simp: osMkdir_def Let_def split: if_splits option.splits)
  show "entryAt (disk s1) k = None" if un: "underKey (fsKey (disk s) scratch) k"
  proof (rule ccontr)
    assume there: "entryAt (disk s1) k \<noteq> None"
    obtain z where z: "k = fsKey (disk s) scratch @ z" using un by (auto simp: underKey_iff)
    then show False using wfTree_ancestors [OF wf1, of "fsKey (disk s) scratch" z] there new by (cases "z = []") auto
  qed
  obtain r where r: "fsKey (disk s) scratch = fsKey (disk s) (Dir output) @ [pre @ r]" using c(2) by blast
  have "walkErr (disk s1) [] (fsKey (disk s) scratch) = None"
    using mk keys by (auto simp: osMkdir_def Let_def split: if_splits option.splits)
  then show "entryAt (disk s1) (fsKey (disk s) (Dir output)) = Some DirEntry" by (simp add: r walkErr_snoc)
qed

section \<open>What the sequence promises\<close>

context staged_content
begin

text \<open>The part after the claim: outside the claimed directory the disk is what the sweep has left.\<close>

lemma stage_settles:
  assumes ok: "downloadable pre output rands (disk s)" and lim: "limit < max_int64"
    and claim: "claimScratch (Dir output) pre rands (sweepScratchPrefix (Dir output) pre s) = Inr (scratch, s2)"
    and stg: "stage x limit scratch (disk s2) = (fs3, st)"
  shows "wfTree fs3" and "cwd fs3 = cwd (disk s)"
    and "\<not> underKey (fsKey (disk s) scratch) k
      \<Longrightarrow> entryAt fs3 k = entryAt (disk (sweepScratchPrefix (Dir output) pre s)) k"
    and "st = Inr staged \<Longrightarrow> placed staged output fs3 \<and> underKey (fsKey fs3 scratch) (fsKey fs3 staged)"
proof -
  note c = claim_effect [OF ok refl claim] and k = claim_key [OF ok refl claim]
  have fr: "sameOutside (fsKey (disk s2) scratch) (disk s2) fs3" and wf3: "wfTree fs3"
    using stage_frame [OF stg c(1) lim c(3,5)] by simp_all
  show "wfTree fs3" by (rule wf3)
  show c3: "cwd fs3 = cwd (disk s)" using fr c(4) by (simp add: sameOutside_def)
  have keys: "fsKey fs3 p = fsKey (disk s) p" "fsKey (disk s2) p = fsKey (disk s) p" for p
    using fsKey_cwd [OF c3] fsKey_cwd [OF c(4)] by simp_all
  show at: "entryAt fs3 k = entryAt (disk (sweepScratchPrefix (Dir output) pre s)) k"
    if "\<not> underKey (fsKey (disk s) scratch) k" for k
    using that fr k(1) by (simp add: sameOutside_def keys)
  obtain b r where b: "fsKey (disk s) output = fsKey (disk s) (Dir output) @ [b]" "\<not> HasPrefix b pre" "output \<noteq> []"
    and r: "fsKey (disk s) scratch = fsKey (disk s) (Dir output) @ [pre @ r]"
    using ok c(2) by (auto simp: downloadable_def)
  have "HasPrefix (pre @ r) pre" by (simp add: HasPrefix_def)
  then have ne: "pre @ r \<noteq> b" using b(2) by blast
  have "entryAt fs3 (fsKey (disk s) (Dir output)) = Some DirEntry"
    using at k(3) r by (simp add: underKey_iff)
  then have walk: "walkErr fs3 [] (fsKey fs3 output) = None" unfolding keys b(1) by (rule walkErr_child [OF wf3])
  show "placed staged output fs3 \<and> underKey (fsKey fs3 scratch) (fsKey fs3 staged)" if su: "st = Inr staged"
  proof -
    obtain e where e: "plainElem e" "staged = scratch @ CHR ''/'' # e" "entryAt fs3 (fsKey fs3 staged) \<noteq> None"
      using stage_child [OF stg [unfolded su] c(1) lim c(3,5)] by blast
    have stk: "fsKey fs3 staged = fsKey (disk s) (Dir output) @ [pre @ r, e]"
      using fsKey_elem [OF properDir_stack(1) [OF c(1)] e(1), of fs3] e(2) r keys by simp
    then show ?thesis
      unfolding placed_def using walk e b ne by (auto simp: keys r underKey_def)
  qed
qed

text \<open>Giving the claimed directory back removes it with all that is in it, and nothing else.\<close>

lemma release_settles:
  assumes ok: "downloadable pre output rands (disk s)"
    and claim: "claimScratch (Dir output) pre rands (sweepScratchPrefix (Dir output) pre s) = Inr (scratch, s2)"
    and wf: "wfTree fs" and cwd: "cwd fs = cwd (disk s)"
    and same: "\<And>k. \<lbrakk>\<not> underKey (fsKey (disk s) scratch) k; \<not> underKey (fsKey (disk s) output) k\<rbrakk>
      \<Longrightarrow> entryAt fs k = entryAt (disk (sweepScratchPrefix (Dir output) pre s)) k"
  shows "entryAt (disk (releaseScratch scratch (s2\<lparr>disk := fs\<rparr>))) k
    = (if underKey (fsKey (disk s) scratch) k then None else entryAt fs k)"
proof -
  note c = claim_effect [OF ok refl claim] and k = claim_key [OF ok refl claim]
  obtain b r where b: "fsKey (disk s) output = fsKey (disk s) (Dir output) @ [b]"
    and r: "fsKey (disk s) scratch = fsKey (disk s) (Dir output) @ [pre @ r]"
    using ok c(2) by (auto simp: downloadable_def)
  have key: "fsKey fs scratch = fsKey (disk s) (Dir output) @ [pre @ r]" using fsKey_cwd [OF cwd] r by simp
  have "entryAt fs (fsKey (disk s) (Dir output)) = Some DirEntry"
    using same [of "fsKey (disk s) (Dir output)"] k(3) r b by (simp add: underKey_iff)
  then have "walkErr fs [] (fsKey fs scratch) = None" unfolding key by (rule walkErr_child [OF wf])
  moreover have dot: "\<not> endsWithDot scratch" "scratch \<noteq> []"
    using endsWithDot_Clean [of scratch] properDir_stack [OF c(1)] c(1) by (simp_all add: properDir_def)
  ultimately have "osRemoveAll scratch fs = (fst (osRemoveAll scratch fs), None)"
    by (simp add: osRemoveAll_def Let_def key)
  from osRemoveAll_effect(1) [OF wf this dot(2)] show ?thesis by (simp add: releaseScratch_def key r)
qed

text \<open>What is left when the staging fails: the disk as the sweep has left it.\<close>

lemma stage_error:
  assumes ok: "downloadable pre output rands (disk s)" and lim: "limit < max_int64"
    and claim: "claimScratch (Dir output) pre rands (sweepScratchPrefix (Dir output) pre s) = Inr (scratch, s2)"
    and stg: "stage x limit scratch (disk s2) = (fs3, Inl e)"
  shows "entryAt (disk (releaseScratch scratch (s2\<lparr>disk := fs3\<rparr>))) k
    = entryAt (disk (sweepScratchPrefix (Dir output) pre s)) k"
proof -
  note st = stage_settles [OF ok lim claim stg]
  show ?thesis using release_settles [OF ok claim st(1,2), of k] st(3) claim_key(2) [OF ok refl claim] by auto
qed

text \<open>And when it succeeds: the same but for the output, which has changed only if \<open>replace\<close> succeeded.\<close>

lemma stage_published:
  assumes ok: "downloadable pre output rands (disk s)" and lim: "limit < max_int64"
    and claim: "claimScratch (Dir output) pre rands (sweepScratchPrefix (Dir output) pre s) = Inr (scratch, s2)"
    and stg: "stage x limit scratch (disk s2) = (fs3, Inr staged)"
    and quiet: "quietLock lock" and rep: "replace ctx lock staged output fs3 = (fs4, err)"
  shows "\<not> underKey (fsKey (disk s) output) k \<or> err \<noteq> None
      \<Longrightarrow> entryAt (disk (releaseScratch scratch (s2\<lparr>disk := fs4\<rparr>))) k
        = entryAt (disk (sweepScratchPrefix (Dir output) pre s)) k"
    and "err = None \<Longrightarrow> entryAt (disk (releaseScratch scratch (s2\<lparr>disk := fs4\<rparr>))) (fsKey (disk s) output @ z)
        = entryAt fs3 (fsKey fs3 staged @ z)"
proof -
  note st = stage_settles [OF ok lim claim stg] and k = claim_key [OF ok refl claim]
  have pl: "placed staged output fs3" and sub: "underKey (fsKey fs3 scratch) (fsKey fs3 staged)" using st(4) by simp_all
  obtain b r where b: "fsKey (disk s) output = fsKey (disk s) (Dir output) @ [b]" "\<not> HasPrefix b pre"
    and r: "fsKey (disk s) scratch = fsKey (disk s) (Dir output) @ [pre @ r]"
    using ok claim_effect(2) [OF ok refl claim] by (auto simp: downloadable_def)
  have keys: "fsKey fs3 p = fsKey (disk s) p" for p by (rule fsKey_cwd [OF st(2)])
  have "fsKey fs3 output \<noteq> []" using b keys by simp
  note rp = replace_effect [OF st(1) pl this quiet rep]
  have same: "entryAt fs4 k = entryAt (disk (sweepScratchPrefix (Dir output) pre s)) k"
    if "\<not> underKey (fsKey (disk s) scratch) k" "\<not> underKey (fsKey (disk s) output) k \<or> err \<noteq> None" for k
  proof -
    have "\<not> underKey (fsKey fs3 staged) k" using sub underKey_trans that(1) keys by metis
    then have "entryAt fs4 k = entryAt fs3 k" using rp that(2) by (cases err) (auto simp: published_def keys)
    then show ?thesis using st(3) [OF that(1)] by simp
  qed
  have wf4: "wfTree fs4" and c4: "cwd fs4 = cwd (disk s)" using rp st(2) by simp_all
  have at: "entryAt (disk (releaseScratch scratch (s2\<lparr>disk := fs4\<rparr>))) q
      = (if underKey (fsKey (disk s) scratch) q then None else entryAt fs4 q)" for q
    by (rule release_settles [OF ok claim wf4 c4]) (use same in blast)
  show "entryAt (disk (releaseScratch scratch (s2\<lparr>disk := fs4\<rparr>))) k
      = entryAt (disk (sweepScratchPrefix (Dir output) pre s)) k"
    if "\<not> underKey (fsKey (disk s) output) k \<or> err \<noteq> None"
    using that at same k(2) by simp
  have "HasPrefix (pre @ r) pre" by (simp add: HasPrefix_def)
  then have "\<not> underKey (fsKey (disk s) scratch) (fsKey (disk s) output @ z)" for z
    using b by (auto simp: r underKey_iff)
  then show "entryAt (disk (releaseScratch scratch (s2\<lparr>disk := fs4\<rparr>))) (fsKey (disk s) output @ z)
      = entryAt fs3 (fsKey fs3 staged @ z)" if "err = None"
    using rp that by (simp add: at published_def keys)
qed

text \<open>
  Everything the sequence does to the disk. But for the output, the disk ends as the sweep has left it:
  the staging directory is gone with all that was put there, whatever went wrong. The output has changed
  only if the sequence succeeded, and is then what was staged.
\<close>

theorem publishVia_effect:
  assumes ok: "downloadable pre output rands (disk s)" and lim: "limit < max_int64" and quiet: "quietLock lock"
    and run: "publishVia pre ctx lock rands (stage x limit) output s = (s', err)"
  shows "(\<forall>k. \<not> underKey (fsKey (disk s) output) k \<or> err \<noteq> None \<longrightarrow>
        entryAt (disk s') k = entryAt (disk (sweepScratchPrefix (Dir output) pre s)) k)
    \<and> staging s' \<subseteq> staging s
    \<and> (err = None \<longrightarrow> (\<exists>scratch fs2 fs3 staged.
          stage x limit scratch fs2 = (fs3, Inr staged) \<and> properDir scratch \<and> wfTree fs2
          \<and> entryAt fs2 (fsKey fs2 scratch) = Some DirEntry
          \<and> (\<forall>z. entryAt (disk s') (fsKey (disk s) output @ z) = entryAt fs3 (fsKey fs3 staged @ z))))"
proof (cases "claimScratch (Dir output) pre rands (sweepScratchPrefix (Dir output) pre s)")
  case (Inl e)
  then show ?thesis using run by (auto simp: publishVia_def Let_def staging_sweep)
next
  case (Inr cl)
  then obtain scratch s2
    where claim: "claimScratch (Dir output) pre rands (sweepScratchPrefix (Dir output) pre s) = Inr (scratch, s2)"
    by (cases cl) auto
  note c = claim_effect [OF ok refl claim]
  obtain fs3 st where stg: "stage x limit scratch (disk s2) = (fs3, st)" by (cases "stage x limit scratch (disk s2)")
  show ?thesis
  proof (cases st)
    case st: (Inl e)
    have "s' = releaseScratch scratch (s2\<lparr>disk := fs3\<rparr>)" "err = Some e"
      using run claim stg st by (simp_all add: publishVia_def)
    then show ?thesis
      using stage_error [OF ok lim claim stg [unfolded st]] c(6) by (auto simp: releaseScratch_def)
  next
    case st: (Inr staged)
    obtain fs4 where rep: "replace ctx lock staged output fs3 = (fs4, err)"
      and s': "s' = releaseScratch scratch (s2\<lparr>disk := fs4\<rparr>)"
      using run claim stg st by (auto simp: publishVia_def split: prod.splits)
    note sp = stage_published [OF ok lim claim stg [unfolded st] quiet rep]
    have "staging s' \<subseteq> staging s" using c(6) by (auto simp: s' releaseScratch_def)
    then show ?thesis using sp c(1,3,5) stg st unfolding s' by auto
  qed
qed

end

text \<open>
  What the sweep has left of the disk, for an output that does not look like a staging directory: all of
  the output, and of the staging directories beside it those that are still in use or recent.
\<close>

lemma swept_disk:
  assumes "downloadable pre output rands (disk s)"
  shows "elsewhere pre output (disk s) k \<or> underKey (fsKey (disk s) output) k
      \<Longrightarrow> entryAt (disk (sweepScratchPrefix (Dir output) pre s)) k = entryAt (disk s) k"
    and "entryAt (disk (sweepScratchPrefix (Dir output) pre s)) k \<in> {None, entryAt (disk s) k}"
    and "\<lbrakk>\<not> abandoned (Dir output) pre s n; underKey (fsKey (disk s) (Dir output) @ [n]) k\<rbrakk>
      \<Longrightarrow> entryAt (disk (sweepScratchPrefix (Dir output) pre s)) k = entryAt (disk s) k"
proof -
  have "wfTree (disk s)" "plainTree (disk s)" "Dir output \<noteq> []"
    using assms by (simp_all add: downloadable_def properDir_stack)
  note sweep = sweep_effect [OF this, of pre]
  obtain b where b: "fsKey (disk s) output = fsKey (disk s) (Dir output) @ [b]" "\<not> HasPrefix b pre"
    using assms by (auto simp: downloadable_def)
  show "elsewhere pre output (disk s) k \<or> underKey (fsKey (disk s) output) k
      \<Longrightarrow> entryAt (disk (sweepScratchPrefix (Dir output) pre s)) k = entryAt (disk s) k"
    using b unfolding sweep by (auto simp: elsewhere_def abandoned_def underKey_iff)
  show "entryAt (disk (sweepScratchPrefix (Dir output) pre s)) k \<in> {None, entryAt (disk s) k}"
    unfolding sweep by simp
  show "\<lbrakk>\<not> abandoned (Dir output) pre s n; underKey (fsKey (disk s) (Dir output) @ [n]) k\<rbrakk>
      \<Longrightarrow> entryAt (disk (sweepScratchPrefix (Dir output) pre s)) k = entryAt (disk s) k"
    unfolding sweep by (auto simp: underKey_iff)
qed

text \<open>
  What a download promises of the disk beside its output: everything is as it was, but for abandoned
  staging directories, of which nothing is left. So nothing it staged itself is left either.
\<close>

definition leftTidy :: "string \<Rightarrow> string \<Rightarrow> scratchState \<Rightarrow> scratchState \<Rightarrow> bool" where
  "leftTidy pre output s s' \<longleftrightarrow>
     (\<forall>k. \<not> underKey (fsKey (disk s) output) k \<longrightarrow>
        entryAt (disk s') k = entryAt (disk s) k
        \<or> entryAt (disk s') k = None
          \<and> (\<exists>n. abandoned (Dir output) pre s n \<and> underKey (fsKey (disk s) (Dir output) @ [n]) k))"

lemma leftTidy_refl [simp]: "leftTidy pre output s s"
  by (simp add: leftTidy_def)

lemma swept_tidy:
  assumes ok: "downloadable pre output rands (disk s)"
    and same: "\<And>k. \<not> underKey (fsKey (disk s) output) k \<Longrightarrow>
      entryAt (disk s') k = entryAt (disk (sweepScratchPrefix (Dir output) pre s)) k"
  shows "leftTidy pre output s s'"
    and "elsewhere pre output (disk s) k \<Longrightarrow> entryAt (disk s') k = entryAt (disk s) k"
proof -
  have "wfTree (disk s)" "plainTree (disk s)" "Dir output \<noteq> []"
    using ok by (simp_all add: downloadable_def properDir_stack)
  note sweep = sweep_effect [OF this, of pre]
  show "leftTidy pre output s s'" using same unfolding leftTidy_def sweep by auto
  show "elsewhere pre output (disk s) k \<Longrightarrow> entryAt (disk s') k = entryAt (disk s) k"
    using same swept_disk(1) [OF ok] by (auto simp: elsewhere_def)
qed

lemma swept_output:
  assumes "downloadable pre output rands (disk s)"
    and "\<And>k. entryAt (disk s') k = entryAt (disk (sweepScratchPrefix (Dir output) pre s)) k"
  shows "entryAt (disk s') (fsKey (disk s) output @ z) = entryAt (disk s) (fsKey (disk s) output @ z)"
  using assms(2) swept_disk(1) [OF assms(1)] by simp

end
