(* ===== verification/Limited_Write.thy ===== *)
theory Limited_Write
  imports File_System
begin

text \<open>
  \<open>fallback.go\<close>: \<open>SizeLimitError\<close>, \<open>sizeLimitWithTotals\<close> and \<open>writeLimited\<close>,
  the one place where content reaches the disk. Both the verified download
  (\<open>materialise\<close>) and the unverified one (\<open>extractTar\<close>) write through it and share the
  byte budget; \<open>limited_sink\<close> is the contract they rely on.
\<close>

section \<open>Readers\<close>

text \<open>
  What an \<open>io.Reader\<close> delivers: its bytes, then end of file (\<open>None\<close>) or an error. The
  error arrives on a read of its own. A write that fails halfway is the same observation.
\<close>

record body =
  avail :: string
  readErr :: "error option"

text \<open>\<open>io.Copy\<close> from \<open>io.LimitReader(body, n)\<close>: a limit that is not positive reads nothing.\<close>

definition copyLimited :: "int64 \<Rightarrow> body \<Rightarrow> string \<times> error option" where
  "copyLimited n b =
     (if n \<le> 0 then ([], None)
      else if int (length (avail b)) < n then (avail b, readErr b)
      else (take (nat n) (avail b), None))"

section \<open>writeLimited\<close>

text \<open>The count and the error of the Go function, with the file system it leaves.\<close>

definition writeLimited :: "string \<Rightarrow> body \<Rightarrow> int64 \<Rightarrow> filesystem \<Rightarrow> filesystem \<times> int64 \<times> error option" where
  "writeLimited path b sizeLimit fs =
     (case osCreateExcl path fs of
        Inl e \<Rightarrow> (fs, 0, Some e)
      | Inr fs1 \<Rightarrow>
          if sizeLimit < 0 then
            (osAppend path (avail b) fs1, int (length (avail b)), readErr b)
          else
            let (bytes, err) = copyLimited (wrap64 (sizeLimit + 1)) b;
                fs2 = osAppend path bytes fs1;
                written = int (length bytes)
            in case err of
                 Some e \<Rightarrow> (fs2, written, Some e)
               | None \<Rightarrow>
                   if written > sizeLimit then (fs2, written, Some (SizeLimitError written sizeLimit))
                   else (fs2, written, None))"

definition sizeLimitWithTotals :: "error option \<Rightarrow> int64 \<Rightarrow> int64 \<Rightarrow> error option" where
  "sizeLimitWithTotals err written sizeLimit =
     (case err of
        None \<Rightarrow> None
      | Some e \<Rightarrow>
          (case asSizeLimit e of
             None \<Rightarrow> Some e
           | Some _ \<Rightarrow> Some (SizeLimitError written sizeLimit)))"

text \<open>
  The share of the budget left for the next file, as \<open>materialise\<close> and \<open>extractTar\<close>
  both compute it: \<open>-1\<close> is no limit.
\<close>

definition remaining :: "int64 \<Rightarrow> int64 \<Rightarrow> int64" where
  "remaining sizeLimit written = (if sizeLimit > 0 then sizeLimit - written else -1)"

definition withinLimit :: "int64 \<Rightarrow> int64 \<Rightarrow> bool" where
  "withinLimit sizeLimit written \<longleftrightarrow> 0 \<le> written \<and> (sizeLimit > 0 \<longrightarrow> written \<le> sizeLimit)"

lemma sizeLimitWithTotals_None [simp]:
  "sizeLimitWithTotals e w l = None \<longleftrightarrow> e = None"
  by (auto simp: sizeLimitWithTotals_def split: option.splits)

section \<open>The contract of a limited sink\<close>

text \<open>
  What the two download paths need of the function that stores one file: it reports at least
  nothing, at most one byte past the limit, and success only within it; what it reports is
  what it stored; and it touches nothing but the path it was given.
\<close>

locale limited_sink =
  fixes put :: "string \<Rightarrow> body \<Rightarrow> int64 \<Rightarrow> filesystem \<Rightarrow> filesystem \<times> int64 \<times> error option"
  assumes put_nonneg: "put p b r fs = (fs', n, e) \<Longrightarrow> 0 \<le> n"
    and put_bound: "0 \<le> r \<Longrightarrow> r < max_int64 \<Longrightarrow> put p b r fs = (fs', n, e) \<Longrightarrow> n \<le> r + 1"
    and put_ok: "0 \<le> r \<Longrightarrow> r < max_int64 \<Longrightarrow> put p b r fs = (fs', n, None) \<Longrightarrow> n \<le> r"
    and put_frame: "put p b r fs = (fs', n, e) \<Longrightarrow> sameOutside (fsKey fs p) fs fs'"
    and put_keeps: "put p b r fs = (fs', n, e) \<Longrightarrow> entryAt fs k = Some v \<Longrightarrow> entryAt fs' k = Some v"
    and put_wf: "put p b r fs = (fs', n, e) \<Longrightarrow> wfTree fs \<Longrightarrow> wfTree fs'"
    and put_stored: "put p b r fs = (fs', n, e) \<Longrightarrow> int (diskBytes fs') = int (diskBytes fs) + n"
    and put_content: "r < max_int64 \<Longrightarrow> put p b r fs = (fs', n, None) \<Longrightarrow>
      entryAt fs (fsKey fs p) = None \<and> entryAt fs' (fsKey fs p) = Some (FileEntry (avail b))
      \<and> n = int (length (avail b)) \<and> readErr b = None"
begin

lemma budget_kept:
  assumes "withinLimit limit w" and "limit < max_int64"
    and "put p b (remaining limit w) fs = (fs', n, None)"
  shows "withinLimit limit (w + n)"
  using assms put_nonneg [OF assms(3)] put_ok [OF _ _ assms(3)]
  by (auto simp: withinLimit_def remaining_def split: if_splits)

lemma budget_overrun:
  assumes "withinLimit limit w" and "limit < max_int64" and "0 < limit"
    and "put p b (remaining limit w) fs = (fs', n, e)"
  shows "0 \<le> w + n" and "w + n \<le> limit + 1"
  using assms put_nonneg [OF assms(4)] put_bound [OF _ _ assms(4)]
  by (auto simp: withinLimit_def remaining_def split: if_splits)

end

section \<open>writeLimited keeps it\<close>

lemma copyLimited_length:
  "0 \<le> r \<Longrightarrow> r < max_int64 \<Longrightarrow> int (length (fst (copyLimited (wrap64 (r + 1)) b))) \<le> r + 1"
  by (simp add: copyLimited_def wrap64_id is_int64_def)

lemma copyLimited_complete:
  assumes "0 \<le> r" and "r < max_int64" and "copyLimited (wrap64 (r + 1)) b = (bytes, None)"
    and "int (length bytes) \<le> r"
  shows "bytes = avail b" and "readErr b = None"
  using assms by (auto simp: copyLimited_def wrap64_id is_int64_def split: if_splits)

text \<open>Everything \<open>writeLimited\<close> can do, in one statement.\<close>

lemma writeLimited_cases:
  assumes "writeLimited p b r fs = (fs', n, e)"
  obtains (not_created) err where "osCreateExcl p fs = Inl err" "fs' = fs" "n = 0" "e = Some err"
  | (unlimited) fs1 where "osCreateExcl p fs = Inr fs1" "r < 0" "fs' = osAppend p (avail b) fs1"
      "n = int (length (avail b))" "e = readErr b"
  | (failed) fs1 bytes err where "osCreateExcl p fs = Inr fs1" "0 \<le> r"
      "copyLimited (wrap64 (r + 1)) b = (bytes, Some err)" "fs' = osAppend p bytes fs1"
      "n = int (length bytes)" "e = Some err"
  | (too_big) fs1 bytes where "osCreateExcl p fs = Inr fs1" "0 \<le> r"
      "copyLimited (wrap64 (r + 1)) b = (bytes, None)" "fs' = osAppend p bytes fs1"
      "n = int (length bytes)" "r < n" "e = Some (SizeLimitError n r)"
  | (complete) fs1 bytes where "osCreateExcl p fs = Inr fs1" "0 \<le> r"
      "copyLimited (wrap64 (r + 1)) b = (bytes, None)" "fs' = osAppend p bytes fs1"
      "n = int (length bytes)" "n \<le> r" "e = None"
  using assms
  by (auto simp: writeLimited_def Let_def not_less split: sum.splits if_splits prod.splits option.splits)

lemma writeLimited_effect:
  assumes "writeLimited p b r fs = (fs', n, e)"
  shows "fs' = fs \<and> n = 0 \<and> e \<noteq> None
    \<or> (\<exists>fs1 bytes. osCreateExcl p fs = Inr fs1 \<and> fs' = osAppend p bytes fs1 \<and> n = int (length bytes))"
  using assms by (cases rule: writeLimited_cases) auto

lemma osCreate_append:
  assumes "osCreateExcl p fs = Inr fs1"
  shows "sameOutside (fsKey fs p) fs (osAppend p bytes fs1)"
    and "diskBytes (osAppend p bytes fs1) = diskBytes fs + length bytes"
    and "entryAt (osAppend p bytes fs1) (fsKey fs p) = Some (FileEntry bytes)"
    and "entryAt fs k = Some v \<Longrightarrow> entryAt (osAppend p bytes fs1) k = Some v"
proof -
  note fr = osCreateExcl_frame [OF assms]
  have k: "fsKey fs1 p = fsKey fs p" by (rule sameOutside_fsKey [OF fr])
  show "sameOutside (fsKey fs p) fs (osAppend p bytes fs1)"
    using sameOutside_trans [OF fr] osAppend_frame [of fs1 p bytes] k by simp
  have e: "entryAt fs1 (fsKey fs1 p) = Some (FileEntry [])"
    using osCreateExcl_entry [OF assms] k by simp
  show "diskBytes (osAppend p bytes fs1) = diskBytes fs + length bytes"
    using diskBytes_osAppend(1) [OF e] diskBytes_osCreateExcl [OF assms] by simp
  show "entryAt (osAppend p bytes fs1) (fsKey fs p) = Some (FileEntry bytes)"
    using diskBytes_osAppend(2) [OF e] k by simp
  show "entryAt (osAppend p bytes fs1) k = Some v" if "entryAt fs k = Some v"
  proof -
    have ne: "k \<noteq> fsKey fs p" using osCreateExcl_entry [OF assms] that by auto
    have "entryAt fs1 k = Some v"
      using assms that ne by (auto simp: osCreateExcl_def Let_def split: if_splits option.splits)
    then show ?thesis using ne k e by (simp add: osAppend_def)
  qed
qed

interpretation wl: limited_sink writeLimited
proof
  fix p b r fs fs' n e
  assume w: "writeLimited p b r fs = (fs', n, e)"
  note ef = writeLimited_effect [OF w]
  show "0 \<le> n" using ef by auto
  show "sameOutside (fsKey fs p) fs fs'" using ef osCreate_append(1) by auto
  show "entryAt fs' k = Some v" if "entryAt fs k = Some v" for k v
    using ef osCreate_append(4) [OF _ that] that by auto
  show "wfTree fs'" if "wfTree fs"
    using ef that wfTree_osCreateExcl wfTree_osAppend by auto
  show "int (diskBytes fs') = int (diskBytes fs) + n" using ef osCreate_append(2) by auto
  show "n \<le> r + 1" if "0 \<le> r" "r < max_int64"
    using w that copyLimited_length [OF that, of b]
    by (cases rule: writeLimited_cases) auto
next
  fix p b r fs fs' n
  assume w: "writeLimited p b r fs = (fs', n, None)"
  show "n \<le> r" if "0 \<le> r" "r < max_int64"
    using w that by (cases rule: writeLimited_cases) auto
  show "entryAt fs (fsKey fs p) = None \<and> entryAt fs' (fsKey fs p) = Some (FileEntry (avail b))
      \<and> n = int (length (avail b)) \<and> readErr b = None" if "r < max_int64"
    using w that copyLimited_complete [of r b] osCreate_append(3) [of p fs] osCreateExcl_entry [of p fs]
    by (cases rule: writeLimited_cases) auto
qed

section \<open>Growing below a directory\<close>

text \<open>
  What holds between two states of a download: the change is below the given key,
  nothing that existed was altered, and the disk grew by what was counted.
\<close>

definition extends :: "key \<Rightarrow> filesystem \<Rightarrow> int64 \<Rightarrow> filesystem \<Rightarrow> int64 \<Rightarrow> bool" where
  "extends dk fs w fs' w' \<longleftrightarrow>
     sameOutside dk fs fs' \<and> wfTree fs' \<and> (\<forall>k v. entryAt fs k = Some v \<longrightarrow> entryAt fs' k = Some v)
     \<and> int (diskBytes fs') + w = int (diskBytes fs) + w'"

lemma extends_refl: "wfTree fs \<Longrightarrow> extends dk fs w fs w"
  by (simp add: extends_def)

lemma extends_trans: "extends dk fs w fs' w' \<Longrightarrow> extends dk fs' w' fs'' w'' \<Longrightarrow> extends dk fs w fs'' w''"
  by (auto simp: extends_def intro: sameOutside_trans)

lemma extends_entry: "extends dk fs w fs' w' \<Longrightarrow> entryAt fs k = Some v \<Longrightarrow> entryAt fs' k = Some v"
  by (simp add: extends_def)

lemma extends_key: "extends dk fs w fs' w' \<Longrightarrow> fsKey fs' p = fsKey fs p"
  by (auto simp: extends_def intro: sameOutside_fsKey)

lemma extends_put:
  assumes "wfTree fs" and "fsKey fs p = dk @ es" and "writeLimited p b r fs = (fs', n, e)"
  shows "extends dk fs w fs' (w + n)"
  using wl.put_frame [OF assms(3)] wl.put_keeps [OF assms(3)] wl.put_wf [OF assms(3,1)]
    wl.put_stored [OF assms(3)] assms(2)
  by (auto simp: extends_def intro: sameOutside_mono)

text \<open>The figures the loop may reach: within the limit, or one byte past it on the way out.\<close>

definition overLimitBy1 :: "int64 \<Rightarrow> int64 \<Rightarrow> bool" where
  "overLimitBy1 limit w \<longleftrightarrow> 0 \<le> w \<and> (limit > 0 \<longrightarrow> w \<le> limit + 1)"

lemma withinLimit_over: "withinLimit l w \<Longrightarrow> overLimitBy1 l w"
  by (auto simp: withinLimit_def overLimitBy1_def)

lemma put_overLimitBy1:
  "withinLimit limit w \<Longrightarrow> limit < max_int64 \<Longrightarrow>
     writeLimited p b (remaining limit w) fs = (fs', n, e) \<Longrightarrow> overLimitBy1 limit (w + n)"
  using wl.budget_overrun [of limit w p b fs fs' n e] wl.put_nonneg [of p b _ fs fs' n e]
  by (cases "0 < limit") (auto simp: overLimitBy1_def withinLimit_def)

section \<open>Properties\<close>

text \<open>
  \<open>writeLimited\<close> enforces its limit on the bytes that arrive. For a limit below the largest
  \<open>int64\<close> (negative: none), whatever the reader delivers: only the given path changes; the
  disk grows by exactly the reported count, which is at most one byte past the limit; success
  means the path was free before, the file holds the whole body, and the body fits; and a body
  that fits and ends without error is never refused once the file could be created.
\<close>

theorem writeLimited_enforces_limit:
  assumes "writeLimited p b limit fs = (fs', n, e)" and "limit < max_int64"
  shows "sameOutside (fsKey fs p) fs fs' \<and> int (diskBytes fs') = int (diskBytes fs) + n
    \<and> 0 \<le> n \<and> (0 \<le> limit \<longrightarrow> n \<le> limit + 1)
    \<and> (e = None \<longrightarrow> entryAt fs (fsKey fs p) = None
         \<and> entryAt fs' (fsKey fs p) = Some (FileEntry (avail b)) \<and> readErr b = None
         \<and> (0 \<le> limit \<longrightarrow> int (length (avail b)) \<le> limit))
    \<and> (isOk (osCreateExcl p fs) \<and> readErr b = None \<and> (0 \<le> limit \<longrightarrow> int (length (avail b)) \<le> limit)
         \<longrightarrow> e = None)"
proof -
  have complete: "e = None" if "isOk (osCreateExcl p fs)" "readErr b = None"
    "0 \<le> limit \<longrightarrow> int (length (avail b)) \<le> limit"
    using assms(1)
  proof (cases rule: writeLimited_cases)
    case (too_big fs1 bytes)
    then have "bytes = avail b"
      using that assms(2) by (auto simp: copyLimited_def wrap64_id is_int64_def split: if_splits)
    with too_big that show ?thesis by simp
  next
    case (failed fs1 bytes err)
    with that assms(2) show ?thesis by (auto simp: copyLimited_def split: if_splits)
  qed (use that in auto)
  have succ: "0 \<le> limit \<longrightarrow> int (length (avail b)) \<le> limit" if "e = None"
    using wl.put_ok [OF _ assms(2)] wl.put_content [OF assms(2)] assms(1) that by blast
  show ?thesis
    using wl.put_frame [OF assms(1)] wl.put_stored [OF assms(1)] wl.put_nonneg [OF assms(1)]
      wl.put_bound [OF _ assms(2) assms(1)] wl.put_content [OF assms(2), of p b fs fs' n]
      assms(1) complete succ
    by blast
qed

text \<open>A disk with one directory, for the witnesses.\<close>

definition plainDisk :: filesystem where
  "plainDisk = \<lparr>cwd = [], clock = 0, ents = [([''d''], DirEntry)], mtimes = []\<rparr>"

lemma plainDisk_key: "fsKey plainDisk ''/d/f'' = [''d'', ''f'']"
  by (simp add: fsKey_def isRooted_def pushElem.simps)

theorem writeLimited_enforces_limit_witness:
  "\<exists>fs' n. writeLimited ''/d/f'' \<lparr>avail = ''hello'', readErr = None\<rparr> 5 plainDisk = (fs', n, None)
     \<and> entryAt fs' [''d'', ''f''] = Some (FileEntry ''hello'')"
proof -
  let ?b = "\<lparr>avail = ''hello'', readErr = None\<rparr>"
  obtain fs' n e where w: "writeLimited ''/d/f'' ?b 5 plainDisk = (fs', n, e)"
    by (metis prod_cases3)
  have "isOk (osCreateExcl ''/d/f'' plainDisk)"
    by (simp add: osCreateExcl_def Let_def plainDisk_key) (simp add: plainDisk_def entryAt_def)
  then have "e = None \<and> entryAt fs' [''d'', ''f''] = Some (FileEntry ''hello'')"
    using writeLimited_enforces_limit [OF w] by (simp add: plainDisk_key)
  with w show ?thesis by auto
qed

text \<open>
  The largest \<open>int64\<close> is not a limit but a trap: \<open>sizeLimit + 1\<close> wraps around to a negative
  number, \<open>io.LimitReader\<close> then reads nothing, and \<open>writeLimited\<close> reports success over an
  empty file, whatever the body holds.
\<close>

theorem writeLimited_max_limit_empty:
  assumes "isOk (osCreateExcl p fs)"
  shows "\<exists>fs'. writeLimited p b max_int64 fs = (fs', 0, None)
    \<and> entryAt fs' (fsKey fs p) = Some (FileEntry [])"
proof -
  obtain fs1 where c: "osCreateExcl p fs = Inr fs1" using assms by (cases "osCreateExcl p fs") auto
  have "copyLimited (wrap64 (max_int64 + 1)) b = ([], None)"
    by (simp add: copyLimited_def wrap64_def)
  then have "writeLimited p b max_int64 fs = (osAppend p [] fs1, 0, None)"
    using c by (simp add: writeLimited_def)
  then show ?thesis using osCreate_append(3) [OF c, of "[]"] by auto
qed

theorem writeLimited_max_limit_empty_witness:
  "\<exists>fs'. writeLimited ''/d/f'' \<lparr>avail = ''hello'', readErr = None\<rparr> max_int64 plainDisk = (fs', 0, None)
     \<and> entryAt fs' [''d'', ''f''] = Some (FileEntry [])"
proof -
  have "isOk (osCreateExcl ''/d/f'' plainDisk)"
    by (simp add: osCreateExcl_def Let_def plainDisk_key) (simp add: plainDisk_def entryAt_def)
  from writeLimited_max_limit_empty [OF this] show ?thesis by (auto simp: plainDisk_key)
qed

end
