(* ===== verification/Materialise.thy ===== *)
theory Materialise
  imports Limited_Write
begin

text \<open>
  \<open>node.go\<close>, lines 416 to 471: writing a UnixFS DAG to disk. The DAG is untrusted: it can hold
  symbolic links, entry names of its author's choosing and sizes that do not add up.
\<close>

section \<open>UnixFS nodes\<close>

text \<open>
  The cases of the type switch of \<open>materialise\<close>, which come from \<open>boxo/files\<close>: a directory
  iterates over its entries and may end with an error.
\<close>

datatype unode =
    USymlink string
  | UFile body
  | UDirectory "(string \<times> unode) list" "error option"
  | UOther string

definition validEntryName :: "string \<Rightarrow> bool" where
  "validEntryName name \<longleftrightarrow>
     name \<noteq> [] \<and> name \<noteq> ''.'' \<and> name \<noteq> ''..'' \<and> CHR ''/'' \<notin> set name \<and> CHR 0x00 \<notin> set name"

section \<open>materialise\<close>

text \<open>The second function is the loop over the entries of a directory.\<close>

fun materialise :: "unode \<Rightarrow> string \<Rightarrow> int64 \<Rightarrow> int64 \<Rightarrow> filesystem \<Rightarrow> filesystem \<times> int64 \<times> error option"
  and materialiseEntries :: "(string \<times> unode) list \<Rightarrow> error option \<Rightarrow> string \<Rightarrow> int64 \<Rightarrow> int64
    \<Rightarrow> filesystem \<Rightarrow> filesystem \<times> int64 \<times> error option" where
  "materialise (USymlink target) path sizeLimit written fs =
     (fs, written, Some (Errorf ''refusing to write a symlink at %q'' [Base path]))"
| "materialise (UFile b) path sizeLimit written fs =
     (case writeLimited path b (remaining sizeLimit written) fs of
        (fs1, count, err) \<Rightarrow>
          (fs1, written + count, sizeLimitWithTotals err (written + count) sizeLimit))"
| "materialise (UDirectory entries iterErr) path sizeLimit written fs =
     (case osMkdir path fs of
        Inl e \<Rightarrow> (fs, written, Some e)
      | Inr fs1 \<Rightarrow> materialiseEntries entries iterErr path sizeLimit written fs1)"
| "materialise (UOther ty) path sizeLimit written fs =
     (fs, written, Some (Errorf ''unsupported unixfs node type %T'' [ty]))"
| "materialiseEntries [] iterErr path sizeLimit written fs = (fs, written, iterErr)"
| "materialiseEntries ((name, child) # rest) iterErr path sizeLimit written fs =
     (if \<not> validEntryName name then
        (fs, written, Some (Errorf ''invalid directory entry name %q'' [name]))
      else case materialise child (Join path name) sizeLimit written fs of
        (fs1, written1, Some e) \<Rightarrow> (fs1, written1, Some e)
      | (fs1, written1, None) \<Rightarrow>
          materialiseEntries rest iterErr path sizeLimit written1 fs1)"

section \<open>What a node looks like on disk\<close>

fun stored :: "unode \<Rightarrow> key \<Rightarrow> filesystem \<Rightarrow> bool"
  and storedEntries :: "(string \<times> unode) list \<Rightarrow> key \<Rightarrow> filesystem \<Rightarrow> bool" where
  "stored (USymlink target) k fs \<longleftrightarrow> False"
| "stored (UFile b) k fs \<longleftrightarrow> entryAt fs k = Some (FileEntry (avail b)) \<and> readErr b = None"
| "stored (UDirectory entries iterErr) k fs \<longleftrightarrow>
     entryAt fs k = Some DirEntry \<and> iterErr = None \<and> storedEntries entries k fs"
| "stored (UOther ty) k fs \<longleftrightarrow> False"
| "storedEntries [] k fs \<longleftrightarrow> True"
| "storedEntries ((name, child) # rest) k fs \<longleftrightarrow>
     validEntryName name \<and> stored child (k @ [name]) fs \<and> storedEntries rest k fs"

text \<open>How many content bytes it holds.\<close>

fun unodeBytes :: "unode \<Rightarrow> nat"
  and entriesBytes :: "(string \<times> unode) list \<Rightarrow> nat" where
  "unodeBytes (USymlink target) = 0"
| "unodeBytes (UFile b) = length (avail b)"
| "unodeBytes (UDirectory entries iterErr) = entriesBytes entries"
| "unodeBytes (UOther ty) = 0"
| "entriesBytes [] = 0"
| "entriesBytes ((name, child) # rest) = unodeBytes child + entriesBytes rest"

lemma validEntryName_plain: "validEntryName n \<Longrightarrow> plainElem n"
  by (simp add: validEntryName_def plainElem_def)

lemma stored_mono:
  "extends a fs w fs' w' \<Longrightarrow> stored nd k fs \<Longrightarrow> stored nd k fs'"
  "extends a fs w fs' w' \<Longrightarrow> storedEntries es k fs \<Longrightarrow> storedEntries es k fs'"
  by (induction nd k fs and es k fs rule: stored_storedEntries.induct) (auto intro: extends_entry)

section \<open>The contract\<close>

lemma extends_mkdir:
  assumes "wfTree fs" and "osMkdir p fs = Inr fs1"
  shows "extends (fsKey fs p) fs w fs1 w"
proof -
  have "entryAt fs1 k = Some v" if "entryAt fs k = Some v" for k v
    using assms(2) that by (auto simp: osMkdir_def Let_def split: if_splits option.splits)
  then show ?thesis
    using osMkdir_frame [OF assms(2)] wfTree_osMkdir [OF assms] diskBytes_osMkdir [OF assms(2)]
    by (simp add: extends_def)
qed

lemma extends_mono: "extends b fs w fs' w' \<Longrightarrow> underKey a b \<Longrightarrow> extends a fs w fs' w'"
  by (auto simp: extends_def intro: sameOutside_mono)

text \<open>
  For any DAG, at any point of the walk: growth below the path only, a budget overrun of at most
  one byte, and on success the node is on disk and every byte of it was counted.
\<close>

definition walkOk :: "key \<Rightarrow> int64 \<Rightarrow> int64 \<Rightarrow> filesystem \<Rightarrow> (filesystem \<Rightarrow> bool) \<Rightarrow> nat
    \<Rightarrow> filesystem \<times> int64 \<times> error option \<Rightarrow> bool" where
  "walkOk k limit w fs post bytes res =
     (case res of (fs', w', e) \<Rightarrow>
        extends k fs w fs' w' \<and> overLimitBy1 limit w'
        \<and> (e = None \<longrightarrow> withinLimit limit w' \<and> w' = w + int bytes \<and> post fs'))"

lemma walkOk_stop: "wfTree fs \<Longrightarrow> withinLimit limit w \<Longrightarrow> walkOk k limit w fs d n (fs, w, Some e)"
  by (simp add: walkOk_def extends_refl withinLimit_over)

lemma materialise_file:
  assumes "wfTree fs" and "withinLimit limit w" and "limit < max_int64"
  shows "walkOk (fsKey fs path) limit w fs (stored (UFile b) (fsKey fs path)) (unodeBytes (UFile b))
    (materialise (UFile b) path limit w fs)"
proof -
  obtain fs1 n err where wr: "writeLimited path b (remaining limit w) fs = (fs1, n, err)"
    by (metis prod_cases3)
  have ex: "extends (fsKey fs path) fs w fs1 (w + n)"
    using extends_put [OF assms(1) _ wr, of "fsKey fs path" "[]"] by simp
  have rem: "remaining limit w < max_int64"
    using assms(2,3) by (auto simp: remaining_def withinLimit_def)
  have "withinLimit limit (w + n) \<and> n = int (length (avail b)) \<and> stored (UFile b) (fsKey fs path) fs1"
    if "err = None"
    using wl.budget_kept [OF assms(2,3) wr [unfolded that]] wl.put_content [OF rem wr [unfolded that]]
    by simp
  then show ?thesis
    using ex put_overLimitBy1 [OF assms(2,3) wr] by (auto simp: wr walkOk_def)
qed

text \<open>A directory keeps the contract if its entries do, and entries do if the first and the rest do.\<close>

lemma materialise_directory:
  assumes "wfTree fs" and mk: "osMkdir path fs = Inr fs1"
    and ih: "walkOk (fsKey fs path) limit w fs1 (\<lambda>fs'. storedEntries es (fsKey fs path) fs' \<and> iterErr = None)
      (entriesBytes es) (materialiseEntries es iterErr path limit w fs1)"
  shows "walkOk (fsKey fs path) limit w fs (stored (UDirectory es iterErr) (fsKey fs path)) (entriesBytes es)
    (materialise (UDirectory es iterErr) path limit w fs)"
proof -
  obtain fs' w' e where m: "materialiseEntries es iterErr path limit w fs1 = (fs', w', e)" by (metis prod_cases3)
  have ex: "extends (fsKey fs path) fs w fs1 w" using extends_mkdir [OF assms(1) mk] .
  have ex': "extends (fsKey fs path) fs1 w fs' w'" using ih m by (simp add: walkOk_def)
  have "entryAt fs' (fsKey fs path) = Some DirEntry" using extends_entry [OF ex'] osMkdir_entry [OF mk] by simp
  then show ?thesis using ih extends_trans [OF ex ex'] mk m by (auto simp: walkOk_def)
qed

lemma materialise_entry:
  assumes name: "validEntryName name" and m1: "materialise child (Join path name) limit w fs = (fs1, w1, e1)"
    and ih1: "walkOk (fsKey fs path @ [name]) limit w fs (stored child (fsKey fs path @ [name])) (unodeBytes child) (fs1, w1, e1)"
    and ih2: "\<lbrakk>e1 = None; wfTree fs1; withinLimit limit w1; fsKey fs1 path = fsKey fs path\<rbrakk> \<Longrightarrow>
      walkOk (fsKey fs path) limit w1 fs1 (\<lambda>fs'. storedEntries rest (fsKey fs path) fs' \<and> iterErr = None)
        (entriesBytes rest) (materialiseEntries rest iterErr path limit w1 fs1)"
  shows "walkOk (fsKey fs path) limit w fs (\<lambda>fs'. storedEntries ((name, child) # rest) (fsKey fs path) fs' \<and> iterErr = None)
    (entriesBytes ((name, child) # rest)) (materialiseEntries ((name, child) # rest) iterErr path limit w fs)"
proof -
  have ex1: "extends (fsKey fs path) fs w fs1 w1" using ih1 by (auto simp: walkOk_def intro: extends_mono)
  show ?thesis
  proof (cases e1)
    case (Some x)
    then show ?thesis using ih1 ex1 name m1 by (simp add: walkOk_def)
  next
    case None
    obtain fs' w' e where m: "materialiseEntries rest iterErr path limit w1 fs1 = (fs', w', e)" by (metis prod_cases3)
    have "wfTree fs1" "withinLimit limit w1" using ih1 ex1 None by (auto simp: walkOk_def extends_def)
    note ih = ih2 [OF None this extends_key [OF ex1], unfolded m]
    then have ex: "extends (fsKey fs path) fs1 w1 fs' w'" by (simp add: walkOk_def)
    then show ?thesis
      using ih ih1 extends_trans [OF ex1 ex] name None m m1 stored_mono(1) [OF ex] by (auto simp: walkOk_def)
  qed
qed

lemma materialise_correct:
  "path \<noteq> [] \<Longrightarrow> wfTree fs \<Longrightarrow> withinLimit limit w \<Longrightarrow> limit < max_int64 \<Longrightarrow>
     walkOk (fsKey fs path) limit w fs (stored nd (fsKey fs path)) (unodeBytes nd)
       (materialise nd path limit w fs)"
  "path \<noteq> [] \<Longrightarrow> wfTree fs \<Longrightarrow> withinLimit limit w \<Longrightarrow> limit < max_int64 \<Longrightarrow>
     walkOk (fsKey fs path) limit w fs (\<lambda>fs'. storedEntries es (fsKey fs path) fs' \<and> iterErr = None)
       (entriesBytes es) (materialiseEntries es iterErr path limit w fs)"
proof (induction nd path limit w fs and es iterErr path limit w fs
    rule: materialise_materialiseEntries.induct)
  case (2 b path sizeLimit written fs)
  then show ?case by (intro materialise_file)
next
  case (3 entries iterErr path sizeLimit written fs)
  show ?case
  proof (cases "osMkdir path fs")
    case (Inr fs1)
    have ex: "extends (fsKey fs path) fs written fs1 written" using extends_mkdir [OF "3.prems"(2) Inr] .
    then have "wfTree fs1" "fsKey fs1 path = fsKey fs path" by (simp_all add: extends_def extends_key [OF ex])
    then have "walkOk (fsKey fs path) sizeLimit written fs1 (\<lambda>fs'. storedEntries entries (fsKey fs path) fs' \<and> iterErr = None)
        (entriesBytes entries) (materialiseEntries entries iterErr path sizeLimit written fs1)"
      using "3.IH" [OF Inr] "3.prems" by simp
    from materialise_directory [OF "3.prems"(2) Inr this] show ?thesis by (simp only: unodeBytes.simps)
  qed (use "3.prems" in \<open>simp add: walkOk_stop\<close>)
next
  case (5 iterErr path sizeLimit written fs)
  then show ?case by (simp add: walkOk_def extends_refl withinLimit_over)
next
  case (6 name child rest iterErr path sizeLimit written fs)
  show ?case
  proof (cases "validEntryName name")
    case True
    obtain fs1 w1 e1 where m1: "materialise child (Join path name) sizeLimit written fs = (fs1, w1, e1)"
      by (metis prod_cases3)
    have "fsKey fs (Join path name) = fsKey fs path @ [name]"
      using "6.prems"(1) True by (simp add: fsKey_Join validEntryName_plain)
    then have "walkOk (fsKey fs path @ [name]) sizeLimit written fs (stored child (fsKey fs path @ [name])) (unodeBytes child)
        (fs1, w1, e1)"
      using "6.IH"(1) True "6.prems" Join_elem_not_Nil m1 by simp
    then show ?thesis
    proof (rule materialise_entry [OF True m1])
      assume "e1 = None" "wfTree fs1" "withinLimit sizeLimit w1" "fsKey fs1 path = fsKey fs path"
      then show "walkOk (fsKey fs path) sizeLimit w1 fs1 (\<lambda>fs'. storedEntries rest (fsKey fs path) fs' \<and> iterErr = None)
          (entriesBytes rest) (materialiseEntries rest iterErr path sizeLimit w1 fs1)"
        using "6.IH"(2) True "6.prems" m1 by simp
    qed
  qed (use "6.prems" in \<open>simp add: walkOk_stop\<close>)
qed (simp_all add: walkOk_stop)

section \<open>Properties\<close>

text \<open>
  C13. A hostile DAG is contained. Whatever nodes, entry names, symbolic links, failing readers and
  repeated names it holds, \<open>materialise\<close> at a path changes nothing outside that path, alters
  nothing that existed, keeps the file system a tree, stores exactly the bytes it counts and, with
  a size limit, at most one byte more than the limit over the whole DAG - on failure as on success.
\<close>

theorem materialise_contained:
  assumes "materialise nd path limit 0 fs = (fs', written, e)"
    and "path \<noteq> []" and "wfTree fs" and "limit < max_int64"
  shows "sameOutside (fsKey fs path) fs fs' \<and> wfTree fs'
    \<and> (\<forall>k v. entryAt fs k = Some v \<longrightarrow> entryAt fs' k = Some v)
    \<and> int (diskBytes fs') = int (diskBytes fs) + written
    \<and> 0 \<le> written \<and> (0 < limit \<longrightarrow> written \<le> limit + 1)"
proof -
  have "withinLimit limit 0" by (simp add: withinLimit_def)
  then have "walkOk (fsKey fs path) limit 0 fs (stored nd (fsKey fs path)) (unodeBytes nd) (fs', written, e)"
    using materialise_correct(1) [OF assms(2,3) _ assms(4), of 0 nd] assms(1) by simp
  then show ?thesis by (auto simp: walkOk_def extends_def overLimitBy1_def)
qed

text \<open>A directory that hides a symbolic link behind a harmless file.\<close>

definition hostileDag :: unode where
  "hostileDag = UDirectory
     [(''harmless.txt'', UFile \<lparr>avail = ''harmless'', readErr = None\<rparr>),
      (''link'', USymlink ''/etc/passwd'')] None"

lemma wfTree_plainDisk: "wfTree plainDisk"
  by (rule wfTree_list) (simp add: plainDisk_def entryAt_def)

theorem materialise_contained_witness:
  "\<exists>fs' written e. materialise hostileDag ''/d/f'' 100 0 plainDisk = (fs', written, Some e)
     \<and> sameOutside [''d'', ''f''] plainDisk fs' \<and> written \<le> 101"
proof -
  obtain fs' w e where m: "materialise hostileDag ''/d/f'' 100 0 plainDisk = (fs', w, e)"
    by (metis prod_cases3)
  have "e \<noteq> None"
    using materialise_correct(1) [of "''/d/f''" plainDisk 100 0 hostileDag] m wfTree_plainDisk
    by (auto simp: walkOk_def withinLimit_def hostileDag_def)
  then show ?thesis
    using m materialise_contained [OF m _ wfTree_plainDisk] by (auto simp: plainDisk_key)
qed

text \<open>
  A successful download is complete. If \<open>materialise\<close> succeeds, the DAG held only regular
  files and directories, with valid entry names and no failed reader or iterator; the whole tree
  is on disk under the path, every file with exactly its bytes; the count returned is the number of
  content bytes of the DAG; and it respects the limit. In particular a DAG with a symbolic link
  anywhere in it never succeeds.
\<close>

theorem materialise_complete:
  assumes "materialise nd path limit 0 fs = (fs', written, None)"
    and "path \<noteq> []" and "wfTree fs" and "limit < max_int64"
  shows "stored nd (fsKey fs path) fs' \<and> written = int (unodeBytes nd)
    \<and> (0 < limit \<longrightarrow> int (unodeBytes nd) \<le> limit)"
proof -
  have "withinLimit limit 0" by (simp add: withinLimit_def)
  then have "walkOk (fsKey fs path) limit 0 fs (stored nd (fsKey fs path)) (unodeBytes nd) (fs', written, None)"
    using materialise_correct(1) [OF assms(2,3) _ assms(4), of 0 nd] assms(1) by simp
  then show ?thesis by (auto simp: walkOk_def withinLimit_def)
qed

definition harmlessDag :: unode where
  "harmlessDag = UDirectory [(''a'', UFile \<lparr>avail = ''12'', readErr = None\<rparr>),
     (''b'', UDirectory [(''c'', UFile \<lparr>avail = ''345'', readErr = None\<rparr>)] None)] None"

theorem materialise_complete_witness:
  "\<exists>fs'. materialise harmlessDag ''/d/f'' 5 0 plainDisk = (fs', 5, None)
     \<and> entryAt fs' [''d'', ''f'', ''b'', ''c''] = Some (FileEntry ''345'')"
proof -
  have joins: "Join ''/d/f'' ''a'' = ''/d/f/a''" "Join ''/d/f'' ''b'' = ''/d/f/b''"
    "Join ''/d/f/b'' ''c'' = ''/d/f/b/c''"
    by (simp_all add: Join_def Clean_def cleanStack_def isRooted_def renderPath_def pushElem.simps)
  have keys: "fsKey fs ''/d/f'' = [''d'', ''f'']" "fsKey fs ''/d/f/a'' = [''d'', ''f'', ''a'']"
    "fsKey fs ''/d/f/b'' = [''d'', ''f'', ''b'']" "fsKey fs ''/d/f/b/c'' = [''d'', ''f'', ''b'', ''c'']" for fs
    by (simp_all add: fsKey_def isRooted_def pushElem.simps)
  have "\<exists>fs'. materialise harmlessDag ''/d/f'' 5 0 plainDisk = (fs', 5, None)"
    by (simp add: harmlessDag_def joins keys osMkdir_def Let_def validEntryName_def writeLimited_def
        osCreateExcl_def remaining_def copyLimited_def wrap64_def osAppend_def sizeLimitWithTotals_def
        plainDisk_def entryAt_def setEntry_def touch_def)
  then obtain fs' where m: "materialise harmlessDag ''/d/f'' 5 0 plainDisk = (fs', 5, None)" by blast
  show ?thesis
    using m materialise_complete [OF m _ wfTree_plainDisk] by (auto simp: plainDisk_key harmlessDag_def)
qed

end
