(* ===== verification/Download.thy ===== *)
theory Download
  imports Staging Materialise
begin

text \<open>
  \<open>node.download\<close> (\<open>node.go\<close>, lines 301 to 346): the verified path, from the DAG the block
  exchange delivers to the output. What the DAG service answers is an argument: whether the root
  was fetched, the UnixFS node built from it, and the size its author wrote down.
\<close>

section \<open>node.download\<close>

record dagAnswer =
  rootErr :: "error option"
  unixfs :: "error + unode"
  declaredSize :: "error + int64"

text \<open>The hint: what the DAG says of its own size is refused before anything is written.\<close>

definition sizeHint :: "int64 \<Rightarrow> error + int64 \<Rightarrow> error option" where
  "sizeHint sizeLimit declared =
     (if sizeLimit > 0 then
        (case declared of
           Inl e \<Rightarrow> Some e
         | Inr n \<Rightarrow> if n > sizeLimit then Some (SizeLimitError n sizeLimit) else None)
      else None)"

definition stageDag :: "unode \<Rightarrow> int64 \<Rightarrow> string \<Rightarrow> filesystem \<Rightarrow> filesystem \<times> (error + string)" where
  "stageDag nd sizeLimit scratch fs =
     (let staged = Join scratch ''data'' in
      case materialise nd staged sizeLimit 0 fs of
        (fs', written, Some e) \<Rightarrow> (fs', Inl e)
      | (fs', written, None) \<Rightarrow> (fs', Inr staged))"

definition download :: "dagAnswer \<Rightarrow> ctxState \<Rightarrow> (filesystem \<Rightarrow> error + filesystem) \<Rightarrow> string list
    \<Rightarrow> string \<Rightarrow> int64 \<Rightarrow> scratchState \<Rightarrow> scratchState \<times> error option" where
  "download dag ctx lock rands output sizeLimit s =
     (case rootErr dag of
        Some e \<Rightarrow> (s, Some e)
      | None \<Rightarrow>
          (case unixfs dag of
             Inl e \<Rightarrow> (s, Some e)
           | Inr nd \<Rightarrow>
               (case sizeHint sizeLimit (declaredSize dag) of
                  Some e \<Rightarrow> (s, Some e)
                | None \<Rightarrow> publishVia scratchPrefix ctx lock rands (stageDag nd sizeLimit) output s)))"

section \<open>A DAG is staged content\<close>

lemma plainElem_data: "plainElem ''data''"
  by (simp add: plainElem_def)

lemma stageDag_walk:
  assumes run: "stageDag nd limit dir fs = (fs', r)" and dir: "properDir dir" and lim: "limit < max_int64"
    and wf: "wfTree fs"
  obtains w e where "materialise nd (Join dir ''data'') limit 0 fs = (fs', w, e)"
    and "walkOk (fsKey fs (Join dir ''data'')) limit 0 fs (stored nd (fsKey fs (Join dir ''data''))) (unodeBytes nd) (fs', w, e)"
    and "r = (case e of Some x \<Rightarrow> Inl x | None \<Rightarrow> Inr (Join dir ''data''))"
proof -
  let ?p = "Join dir ''data''"
  obtain f w e where m: "materialise nd ?p limit 0 fs = (f, w, e)" by (metis prod_cases3)
  have f: "f = fs'" and r: "r = (case e of Some x \<Rightarrow> Inl x | None \<Rightarrow> Inr ?p)"
    using run m by (auto simp: stageDag_def Let_def split: option.splits)
  have "?p \<noteq> []" using properDir_stack(1) [OF dir] by (rule Join_elem_not_Nil)
  moreover have "withinLimit limit 0" by (simp add: withinLimit_def)
  ultimately have "walkOk (fsKey fs ?p) limit 0 fs (stored nd (fsKey fs ?p)) (unodeBytes nd) (fs', w, e)"
    using materialise_correct(1) [OF _ wf _ lim, of ?p 0 nd] m f by simp
  then show ?thesis using that m f r by blast
qed

lemma stageDag_stored:
  assumes run: "stageDag nd limit dir fs = (fs', Inr staged)" and "properDir dir" "limit < max_int64" "wfTree fs"
  shows "stored nd (fsKey fs' staged) fs'"
proof -
  obtain w e where walk: "walkOk (fsKey fs (Join dir ''data'')) limit 0 fs (stored nd (fsKey fs (Join dir ''data''))) (unodeBytes nd) (fs', w, e)"
    and r: "Inr staged = (case e of Some x \<Rightarrow> Inl x | None \<Rightarrow> Inr (Join dir ''data''))"
    using stageDag_walk [OF assms] by metis
  then have e: "e = None" "staged = Join dir ''data''" by (auto split: option.splits)
  have "fsKey fs' staged = fsKey fs staged" using walk by (auto simp: walkOk_def extends_def intro: sameOutside_fsKey)
  then show ?thesis using walk e by (simp add: walkOk_def)
qed

lemma stored_there: "stored nd k fs \<Longrightarrow> entryAt fs k \<noteq> None"
  by (cases nd) auto

interpretation dag_content: staged_content stageDag
proof unfold_locales
  fix nd limit dir fs fs' r
  assume run: "stageDag nd limit dir fs = (fs', r)" and dir: "properDir dir" and lim: "limit < max_int64"
    and wf: "wfTree fs"
  obtain w e where "walkOk (fsKey fs (Join dir ''data'')) limit 0 fs
      (stored nd (fsKey fs (Join dir ''data''))) (unodeBytes nd) (fs', w, e)"
    using stageDag_walk [OF run dir lim wf] by blast
  then have "sameOutside (fsKey fs (Join dir ''data'')) fs fs'" and wf': "wfTree fs'"
    by (simp_all add: walkOk_def extends_def)
  moreover have "fsKey fs (Join dir ''data'') = fsKey fs dir @ [''data'']"
    by (rule fsKey_Join [OF properDir_stack(1) [OF dir] plainElem_data])
  ultimately show "sameOutside (fsKey fs dir) fs fs' \<and> wfTree fs'"
    by (auto intro: sameOutside_mono)
next
  fix nd limit dir fs fs' staged
  assume run: "stageDag nd limit dir fs = (fs', Inr staged)" and dir: "properDir dir"
    and lim: "limit < max_int64" and wf: "wfTree fs"
  have "staged = Join dir ''data''"
    using run by (auto simp: stageDag_def Let_def split: prod.splits option.splits)
  moreover have "entryAt fs' (fsKey fs' staged) \<noteq> None"
    using stored_there [OF stageDag_stored [OF run dir lim wf]] .
  ultimately show "\<exists>e. plainElem e \<and> staged = dir @ CHR ''/'' # e \<and> entryAt fs' (fsKey fs' staged) \<noteq> None"
    using plainElem_data Join_properDir_elem [OF dir plainElem_data] by blast
qed

lemma stored_transport:
  assumes "\<And>z. entryAt fs' (b @ z) = entryAt fs (a @ z)"
  shows "stored nd (a @ y) fs \<Longrightarrow> stored nd (b @ y) fs'"
    and "storedEntries es (a @ y) fs \<Longrightarrow> storedEntries es (b @ y) fs'"
  using assms
  by (induction nd "a @ y" fs and es "a @ y" fs arbitrary: y and y rule: stored_storedEntries.induct) auto

section \<open>Properties\<close>

text \<open>Everything a download does to the disk, whatever it meets.\<close>

lemma download_effect:
  assumes "downloadable scratchPrefix output rands (disk s)" and "limit < max_int64" and "quietLock lock"
    and "download dag ctx lock rands output limit s = (s', err)"
  shows "(\<forall>k. elsewhere scratchPrefix output (disk s) k \<longrightarrow> entryAt (disk s') k = entryAt (disk s) k)
    \<and> leftTidy scratchPrefix output s s'
    \<and> staging s' \<subseteq> staging s
    \<and> (err \<noteq> None \<longrightarrow> (\<forall>z. entryAt (disk s') (fsKey (disk s) output @ z) = entryAt (disk s) (fsKey (disk s) output @ z)))
    \<and> (err = None \<longrightarrow> (\<exists>nd. unixfs dag = Inr nd
          \<and> stored nd (fsKey (disk s) output) (disk s')
          \<and> (0 < limit \<longrightarrow> int (unodeBytes nd) \<le> limit)
          \<and> sizeHint limit (declaredSize dag) = None))"
proof -
  have "(s' = s \<and> err \<noteq> None) \<or> (\<exists>nd. unixfs dag = Inr nd \<and> sizeHint limit (declaredSize dag) = None
      \<and> publishVia scratchPrefix ctx lock rands (stageDag nd limit) output s = (s', err))"
    using assms(4) by (auto simp: download_def split: option.splits sum.splits)
  then consider (early) "s' = s" "err \<noteq> None"
    | (published) nd where "unixfs dag = Inr nd" "sizeHint limit (declaredSize dag) = None"
        "publishVia scratchPrefix ctx lock rands (stageDag nd limit) output s = (s', err)"
    by blast
  then show ?thesis
  proof cases
    case early
    then show ?thesis by auto
  next
    case published
    note ef = dag_content.publishVia_effect [OF assms(1-3) published(3)]
    have tidy: "leftTidy scratchPrefix output s s'"
      "\<forall>k. elsewhere scratchPrefix output (disk s) k \<longrightarrow> entryAt (disk s') k = entryAt (disk s) k"
      using swept_tidy [OF assms(1), of s'] ef by blast+
    have kept: "\<forall>z. entryAt (disk s') (fsKey (disk s) output @ z) = entryAt (disk s) (fsKey (disk s) output @ z)"
      if "err \<noteq> None"
      using swept_output [OF assms(1), of s'] ef that by blast
    have "stored nd (fsKey (disk s) output) (disk s') \<and> (0 < limit \<longrightarrow> int (unodeBytes nd) \<le> limit)"
      if none: "err = None"
    proof -
      obtain scratch fs2 fs3 staged where st: "stageDag nd limit scratch fs2 = (fs3, Inr staged)"
        and sc: "properDir scratch" "wfTree fs2"
        and moved: "\<And>z. entryAt (disk s') (fsKey (disk s) output @ z) = entryAt fs3 (fsKey fs3 staged @ z)"
        using ef none by blast
      obtain w e where ok: "walkOk (fsKey fs2 (Join scratch ''data'')) limit 0 fs2
          (stored nd (fsKey fs2 (Join scratch ''data''))) (unodeBytes nd) (fs3, w, e)"
        and r: "Inr staged = (case e of Some x \<Rightarrow> Inl x | None \<Rightarrow> Inr (Join scratch ''data''))"
        using stageDag_walk [OF st sc(1) assms(2) sc(2)] by metis
      have e: "e = None" "staged = Join scratch ''data''" using r by (auto split: option.splits)
      then have "stored nd (fsKey fs2 staged) fs3" "withinLimit limit w" "w = int (unodeBytes nd)"
        "fsKey fs3 staged = fsKey fs2 staged"
        using ok sameOutside_fsKey by (auto simp: walkOk_def extends_def)
      then show ?thesis
        using stored_transport(1) [of "disk s'" "fsKey (disk s) output" fs3 "fsKey fs3 staged" nd "[]"] moved
        by (auto simp: withinLimit_def)
    qed
    then show ?thesis using ef tidy kept published(1,2) by blast
  qed
qed


definition dataDisk :: filesystem where
  "dataDisk = \<lparr>cwd = [], clock = 0, ents = [([''d''], DirEntry), ([''d'', ''out''], FileEntry ''old'')], mtimes = []\<rparr>"

definition smallFile :: dagAnswer where
  "smallFile = \<lparr>rootErr = None, unixfs = Inr (UFile \<lparr>avail = ''12'', readErr = None\<rparr>), declaredSize = Inr 2\<rparr>"

lemma Dir_sample: "Dir ''/d/out'' = ''/d''"
  by (simp add: Dir_def Clean_def cleanStack_def isRooted_def renderPath_def pushElem.simps)

lemma properDir_d: "properDir ''/d''"
  by (simp add: properDir_def Clean_def cleanStack_def isRooted_def renderPath_def pushElem.simps)

lemma sampleKeys:
  "fsKey fs ''/d/out'' = [''d'', ''out'']" "fsKey fs ''/d'' = [''d'']"
  "fsKey fs ''/d/.ipfs-download-1'' = [''d'', ''.ipfs-download-1'']"
  "fsKey fs ''/d/.ipfs-download-1/data'' = [''d'', ''.ipfs-download-1'', ''data'']"
  by (simp_all add: fsKey_def isRooted_def pushElem.simps)

lemma dataDisk_downloadable: "downloadable scratchPrefix ''/d/out'' [''1''] dataDisk"
proof -
  have "wfTree dataDisk" by (rule wfTree_list) (simp add: dataDisk_def entryAt_def)
  moreover have "plainTree dataDisk" by (simp add: plainTree_def dataDisk_def plainElem_def)
  ultimately show ?thesis
    by (simp add: downloadable_def Dir_sample properDir_d sampleKeys)
       (simp add: HasPrefix_def scratchPrefix_def)
qed

lemma join_sample: "Join ''/d/.ipfs-download-1'' ''data'' = ''/d/.ipfs-download-1/data''"
  by (simp add: Join_def Clean_def cleanStack_def isRooted_def renderPath_def pushElem.simps)


end
