(* ===== verification/Tar_Extract.thy ===== *)
theory Tar_Extract
  imports Limited_Write Scratch
begin

text \<open>
  \<open>fallback.go\<close>, lines 229 to 319: unpacking the tar archive an untrusted gateway sent.
  \<open>resolveTarPath\<close> places an entry below the staging directory and \<open>extractTar\<close> writes the
  archive there. The archive is what \<open>archive/tar\<close> delivers: a list of headers, each with the
  body that can be read before the next header, then end of file or an error.
\<close>

section \<open>Archives\<close>

text \<open>\<open>tar.TypeReg\<close> and \<open>tar.TypeDir\<close> are the bytes \<open>'0'\<close> and \<open>'5'\<close>.\<close>

definition TypeReg :: char where "TypeReg = CHR ''0''"
definition TypeDir :: char where "TypeDir = CHR ''5''"

record tarHeader =
  Name :: string
  Typeflag :: char
  content :: body

record tarArchive =
  headers :: "tarHeader list"
  nextErr :: "error option"

section \<open>resolveTarPath\<close>

definition resolveTarPath :: "string \<Rightarrow> string \<Rightarrow> error + (string \<times> string)" where
  "resolveTarPath dir name =
     (if name = [] then Inl (Errorf ''tar entry has no name'' [])
      else let cleaned = Clean (CHR ''/'' # name); path = Join dir cleaned in
        if path \<noteq> dir \<and> \<not> HasPrefix path (dir @ ''/'') then
          Inl (Errorf ''tar entry %q escapes the staging directory'' [name])
        else let elements = splitChar CHR ''/'' (TrimPrefix cleaned ''/'') in
          if elements = [] \<or> hd elements = [] then
            Inl (Errorf ''tar entry %q has no top level name'' [name])
          else Inr (path, Join dir (hd elements)))"

text \<open>What is left of a name after cleaning it under the root.\<close>

definition tarElems :: "string \<Rightarrow> string list" where
  "tarElems name = rev (cleanStack (CHR ''/'' # name))"

lemma tarElems_plain: "list_all plainElem (tarElems name)"
  using cleanStack_rooted_plain [of "CHR ''/'' # name"] by (simp add: tarElems_def isRooted_def)

lemma Clean_tarName: "Clean (CHR ''/'' # name) = CHR ''/'' # joinChar CHR ''/'' (tarElems name)"
  by (simp add: Clean_def tarElems_def renderPath_def isRooted_def)

lemma split_tarName:
  "splitChar CHR ''/'' (TrimPrefix (Clean (CHR ''/'' # name)) ''/'')
   = (if tarElems name = [] then [[]] else tarElems name)"
proof -
  have "\<forall>w \<in> set (tarElems name). CHR ''/'' \<notin> set w"
    using tarElems_plain [of name] by (auto simp: list_all_iff plainElem_def)
  then show ?thesis
    by (simp add: Clean_tarName TrimPrefix_def HasPrefix_def splitChar_joinChar)
qed

lemma Join_tarName:
  assumes "properDir dir"
  shows "Join dir (Clean (CHR ''/'' # name))
    = (if tarElems name = [] then dir else dir @ CHR ''/'' # joinChar CHR ''/'' (tarElems name))"
proof (cases "tarElems name = []")
  case True
  then have "Join dir (Clean (CHR ''/'' # name)) = Join dir (renderPath True [])"
    by (simp add: Clean_tarName renderPath_def)
  also have "\<dots> = dir"
    using properDir_stack [OF assms] by (simp add: Join_plain)
  finally show ?thesis using True by simp
next
  case False
  have "Join dir (Clean (CHR ''/'' # name)) = Join dir (renderPath True (tarElems name))"
    by (simp add: Clean_tarName renderPath_def)
  with False show ?thesis by (simp add: Join_properDir [OF assms tarElems_plain])
qed

text \<open>The whole behaviour of \<open>resolveTarPath\<close> below a clean directory that is not \<open>.\<close> or \<open>/\<close>.\<close>

lemma resolveTarPath_eq:
  assumes "properDir dir"
  shows "resolveTarPath dir name =
    (if name = [] then Inl (Errorf ''tar entry has no name'' [])
     else case tarElems name of
       [] \<Rightarrow> Inl (Errorf ''tar entry %q has no top level name'' [name])
     | e # es \<Rightarrow> Inr (dir @ CHR ''/'' # joinChar CHR ''/'' (e # es), dir @ CHR ''/'' # e))"
proof (cases "tarElems name")
  case Nil
  then show ?thesis
    by (simp add: resolveTarPath_def Let_def split_tarName Join_tarName [OF assms])
next
  case (Cons e es)
  have e: "plainElem e" using tarElems_plain [of name] Cons by simp
  then have "Join dir e = dir @ CHR ''/'' # e" by (rule Join_properDir_elem [OF assms])
  moreover have "e \<noteq> []" using e by (simp add: plainElem_def)
  moreover have "HasPrefix (dir @ CHR ''/'' # z) (dir @ ''/'')" for z
    by (simp add: HasPrefix_def)
  ultimately show ?thesis
    by (simp add: resolveTarPath_def Let_def split_tarName Join_tarName [OF assms] Cons)
qed

section \<open>extractTar\<close>

text \<open>
  The body of the loop of \<open>extractTar\<close> for one header: the file system and the bytes written
  after it, and the root or the error that ends the extraction. Once an entry is accepted \<open>root\<close>
  is its top level path, whichever case of the switch it came from.
\<close>

definition extractEntry :: "string \<Rightarrow> int64 \<Rightarrow> tarHeader \<Rightarrow> string \<Rightarrow> int64 \<Rightarrow> filesystem
    \<Rightarrow> filesystem \<times> int64 \<times> (error + string)" where
  "extractEntry dir sizeLimit h root written fs =
     (case resolveTarPath dir (Name h) of
        Inl e \<Rightarrow> (fs, written, Inl e)
      | Inr (path, topPath) \<Rightarrow>
          if root \<noteq> [] \<and> topPath \<noteq> root then
            (fs, written, Inl (Errorf
               ''gateway served an archive with more than one root entry (%q and %q)'' [root, topPath]))
          else if Typeflag h = TypeDir then
            (case osMkdirAll path fs of
               (fs1, Some e) \<Rightarrow> (fs1, written, Inl e)
             | (fs1, None) \<Rightarrow> (fs1, written, Inr topPath))
          else if Typeflag h = TypeReg then
            (case osMkdirAll (Dir path) fs of
               (fs1, Some e) \<Rightarrow> (fs1, written, Inl e)
             | (fs1, None) \<Rightarrow>
                 (case writeLimited path (content h) (remaining sizeLimit written) fs1 of
                    (fs2, count, err) \<Rightarrow>
                      (case sizeLimitWithTotals err (written + count) sizeLimit of
                         Some e \<Rightarrow> (fs2, written + count, Inl e)
                       | None \<Rightarrow> (fs2, written + count, Inr topPath))))
          else (fs, written, Inl (Errorf ''unsupported tar entry %q of type %d'' [Name h, [Typeflag h]])))"

fun extractLoop :: "string \<Rightarrow> int64 \<Rightarrow> error option \<Rightarrow> tarHeader list \<Rightarrow> string \<Rightarrow> int64 \<Rightarrow> filesystem
    \<Rightarrow> filesystem \<times> int64 \<times> (error + string)" where
  "extractLoop dir sizeLimit nextE [] root written fs =
     (case nextE of
        Some e \<Rightarrow> (fs, written, Inl e)
      | None \<Rightarrow>
          if root = [] then (fs, written, Inl (Errorf ''gateway served an empty archive'' []))
          else (fs, written, Inr root))"
| "extractLoop dir sizeLimit nextE (h # hs) root written fs =
     (case extractEntry dir sizeLimit h root written fs of
        (fs1, written1, Inl e) \<Rightarrow> (fs1, written1, Inl e)
      | (fs1, written1, Inr root1) \<Rightarrow> extractLoop dir sizeLimit nextE hs root1 written1 fs1)"

definition extractTar :: "string \<Rightarrow> tarArchive \<Rightarrow> int64 \<Rightarrow> filesystem \<Rightarrow> filesystem \<times> int64 \<times> (error + string)" where
  "extractTar dir archive sizeLimit fs =
     extractLoop dir sizeLimit (nextErr archive) (headers archive) [] 0 fs"

section \<open>Where an entry goes\<close>

lemma fsKey_Dir_entry:
  assumes "d \<noteq> []" and "list_all plainElem es" and "es \<noteq> []"
  shows "fsKey fs (Dir (d @ CHR ''/'' # joinChar CHR ''/'' es)) = fsKey fs d @ butlast es"
proof -
  obtain xs x where es: "es = xs @ [x]" using assms(3) by (cases es rule: rev_cases) auto
  define q where "q = (if xs = [] then d else d @ CHR ''/'' # joinChar CHR ''/'' xs)"
  have pl: "plainElem x" "list_all plainElem xs" using assms(2) es by auto
  have "d @ CHR ''/'' # joinChar CHR ''/'' es = q @ CHR ''/'' # x"
    by (simp add: q_def es joinChar_append)
  then have "Dir (d @ CHR ''/'' # joinChar CHR ''/'' es) = Clean (q @ ''/'')"
    using pl(1) upToLastSlash_eq [of x q] by (simp add: Dir_def plainElem_def)
  then have "fsKey fs (Dir (d @ CHR ''/'' # joinChar CHR ''/'' es)) = fsKey fs (q @ CHR ''/'' # joinChar CHR ''/'' [])"
    by (simp add: fsKey_Clean)
  also have "\<dots> = fsKey fs q"
    using fsKey_append [of q "[]" fs] assms(1) by (simp add: q_def)
  also have "\<dots> = fsKey fs d @ xs"
    using fsKey_append [of d xs fs] assms(1) pl(2) by (simp add: q_def)
  finally show ?thesis by (simp add: es)
qed

lemma Dir_entry_not_Nil:
  "d \<noteq> [] \<Longrightarrow> list_all plainElem es \<Longrightarrow> es \<noteq> [] \<Longrightarrow> Dir (d @ CHR ''/'' # joinChar CHR ''/'' es) \<noteq> []"
  unfolding Dir_def by (rule Clean_not_Nil) (cases d, auto)

text \<open>Making directories below one that is there.\<close>

lemma mkdirAllFrom_skip:
  "(\<And>a. underKey a (pre @ xs) \<Longrightarrow> entryAt fs a = Some DirEntry) \<Longrightarrow>
     mkdirAllFrom fs pre (xs @ es) = mkdirAllFrom fs (pre @ xs) es"
proof (induction xs arbitrary: pre)
  case (Cons x xs)
  have "entryAt fs (pre @ [x]) = Some DirEntry" by (rule Cons.prems) (simp add: underKey_iff)
  then show ?case using Cons.IH [of "pre @ [x]"] Cons.prems by simp
qed simp

lemma osMkdirAll_below:
  assumes "wfTree fs" and "entryAt fs dk = Some DirEntry" and "p \<noteq> []"
    and "fsKey fs p = dk @ es" and "osMkdirAll p fs = (fs', e)"
  shows "sameOutside dk fs fs'" and "entryAt fs k = Some v \<Longrightarrow> entryAt fs' k = Some v"
    and "e = None \<Longrightarrow> entryAt fs' (dk @ es) = Some DirEntry"
proof -
  have up: "entryAt fs a = Some DirEntry" if "underKey a ([] @ dk)" for a
    using that assms(2) walkErr_None_ancestor [OF wfTree_walk [OF assms(1)], of dk a]
    by (cases "a = dk") auto
  have skip: "mkdirAllFrom fs [] (dk @ es) = mkdirAllFrom fs dk es"
    using mkdirAllFrom_skip [of "[]" dk fs es] up by simp
  obtain r where m: "mkdirAllFrom fs dk es = (fs', r)" and e: "e = None \<longleftrightarrow> r = None"
    using assms(3-5) skip
    by (auto simp: osMkdirAll_def split: prod.splits option.splits)
  note fr = mkdirAllFrom_frame [OF m]
  show "sameOutside dk fs fs'" using fr by (simp add: sameOutside_def)
  show "entryAt fs k = Some v \<Longrightarrow> entryAt fs' k = Some v" using fr by simp
  have made: "entryAt f pre = Some DirEntry \<Longrightarrow> mkdirAllFrom f pre qs = (f', None) \<Longrightarrow>
      entryAt f' (pre @ qs) = Some DirEntry" for f pre qs f'
  proof (induction f pre qs rule: mkdirAllFrom.induct)
    case (2 fs pre e es)
    show ?case
    proof (cases "entryAt fs (pre @ [e])")
      case None
      then show ?thesis using "2.IH"(1) [OF refl None] "2.prems" by (simp add: Let_def)
    next
      case (Some w)
      then show ?thesis using "2.IH"(2) [OF refl] "2.prems" by (cases w) (auto simp: Let_def)
    qed
  qed simp
  show "e = None \<Longrightarrow> entryAt fs' (dk @ es) = Some DirEntry" using made assms(2) m e by simp
qed

section \<open>One entry\<close>

text \<open>What extracting one header does below a staging directory that is there.\<close>

lemma resolveTarPath_OkD:
  assumes "properDir dir" and "resolveTarPath dir name = Inr (path, topPath)"
  shows "\<exists>e es. tarElems name = e # es \<and> path = dir @ CHR ''/'' # joinChar CHR ''/'' (e # es)
    \<and> topPath = dir @ CHR ''/'' # e"
  using assms by (auto simp: resolveTarPath_eq split: if_splits list.splits)

lemma tarPath_keys:
  assumes "properDir dir" and "tarElems name = e # es"
    and "path = dir @ CHR ''/'' # joinChar CHR ''/'' (e # es)"
  shows "path \<noteq> []" and "fsKey fs path = fsKey fs dir @ e # es"
    and "Dir path \<noteq> []" and "fsKey fs (Dir path) = fsKey fs dir @ butlast (e # es)"
proof -
  have d: "dir \<noteq> []" using assms(1) by (rule properDir_stack)
  have pl: "list_all plainElem (e # es)" using tarElems_plain [of name] assms(2) by simp
  show "path \<noteq> []" using assms(3) by simp
  show "fsKey fs path = fsKey fs dir @ e # es"
    unfolding assms(3) by (rule fsKey_append [OF d pl])
  show "Dir path \<noteq> []" unfolding assms(3) by (rule Dir_entry_not_Nil [OF d pl]) simp
  show "fsKey fs (Dir path) = fsKey fs dir @ butlast (e # es)"
    unfolding assms(3) by (rule fsKey_Dir_entry [OF d pl]) simp
qed

lemma extends_mkdirAll:
  assumes "wfTree fs" and "entryAt fs dk = Some DirEntry" and "p \<noteq> []"
    and "fsKey fs p = dk @ es" and "osMkdirAll p fs = (fs', e)"
  shows "extends dk fs w fs' w"
  using osMkdirAll_below [OF assms] wfTree_osMkdirAll [OF assms(1,5)] diskBytes_osMkdirAll [OF assms(5)]
  by (auto simp: extends_def)

text \<open>A header that was accepted and is on disk as it was sent.\<close>

definition extracted :: "string \<Rightarrow> string \<Rightarrow> filesystem \<Rightarrow> tarHeader \<Rightarrow> bool" where
  "extracted dir root fs h \<longleftrightarrow>
     tarElems (Name h) \<noteq> [] \<and> root = dir @ CHR ''/'' # hd (tarElems (Name h))
     \<and> (Typeflag h = TypeDir \<and> entryAt fs (fsKey fs dir @ tarElems (Name h)) = Some DirEntry
        \<or> Typeflag h = TypeReg \<and> readErr (content h) = None
          \<and> entryAt fs (fsKey fs dir @ tarElems (Name h)) = Some (FileEntry (avail (content h))))"

lemma extracted_mono: "extends dk fs w fs' w' \<Longrightarrow> extracted dir root fs h \<Longrightarrow> extracted dir root fs' h"
  by (auto simp: extracted_def extends_key dest: extends_entry)

text \<open>
  The contract of one round. The two kinds of entry that write are cases of their own.
\<close>

definition roundOk :: "string \<Rightarrow> int64 \<Rightarrow> tarHeader \<Rightarrow> string \<Rightarrow> int64 \<Rightarrow> filesystem
    \<Rightarrow> filesystem \<times> int64 \<times> (error + string) \<Rightarrow> bool" where
  "roundOk dir limit h root w fs res =
     (case res of (fs', w', r) \<Rightarrow>
        extends (fsKey fs dir) fs w fs' w' \<and> overLimitBy1 limit w'
        \<and> (\<forall>rt. r = Inr rt \<longrightarrow> withinLimit limit w' \<and> rt \<noteq> [] \<and> (root \<noteq> [] \<longrightarrow> rt = root)
              \<and> extracted dir rt fs' h))"

lemma roundOk_stop:
  "wfTree fs \<Longrightarrow> withinLimit limit w \<Longrightarrow> roundOk dir limit h root w fs (fs, w, Inl e)"
  by (simp add: roundOk_def extends_refl withinLimit_over)

lemma extractEntry_dir:
  assumes "properDir dir" and "wfTree fs" and "entryAt fs (fsKey fs dir) = Some DirEntry"
    and "withinLimit limit w" and el: "tarElems (Name h) = e # es"
    and path: "path = dir @ CHR ''/'' # joinChar CHR ''/'' (e # es)"
    and tp: "topPath = dir @ CHR ''/'' # e" and "root \<noteq> [] \<Longrightarrow> topPath = root"
    and "Typeflag h = TypeDir"
  shows "roundOk dir limit h root w fs
    (case osMkdirAll path fs of
       (fs1, Some e) \<Rightarrow> (fs1, w, Inl e)
     | (fs1, None) \<Rightarrow> (fs1, w, Inr topPath))"
proof -
  note keys = tarPath_keys [OF assms(1) el path]
  obtain fs1 er where mk: "osMkdirAll path fs = (fs1, er)" by (cases "osMkdirAll path fs")
  have ex: "extends (fsKey fs dir) fs w fs1 w"
    using extends_mkdirAll [OF assms(2,3) keys(1,2) mk] .
  have "entryAt fs1 (fsKey fs dir @ e # es) = Some DirEntry" if "er = None"
    using osMkdirAll_below(3) [OF assms(2,3) keys(1,2) mk] that by simp
  then show ?thesis
    using mk ex assms(4,8,9) extends_key [OF ex]
    by (auto simp: roundOk_def withinLimit_over extracted_def el tp split: option.split)
qed

lemma extractEntry_file:
  assumes "properDir dir" and "limit < max_int64" and "wfTree fs"
    and "entryAt fs (fsKey fs dir) = Some DirEntry"
    and w: "withinLimit limit w" and el: "tarElems (Name h) = e # es"
    and path: "path = dir @ CHR ''/'' # joinChar CHR ''/'' (e # es)"
    and tp: "topPath = dir @ CHR ''/'' # e" and "root \<noteq> [] \<Longrightarrow> topPath = root"
    and "Typeflag h = TypeReg"
    and mk: "osMkdirAll (Dir path) fs = (fs1, None)"
    and wr: "writeLimited path (content h) (remaining limit w) fs1 = (fs2, n, err)"
  shows "roundOk dir limit h root w fs
    (case sizeLimitWithTotals err (w + n) limit of
       Some e \<Rightarrow> (fs2, w + n, Inl e)
     | None \<Rightarrow> (fs2, w + n, Inr topPath))"
proof -
  note keys = tarPath_keys [OF assms(1) el path]
  have ex1: "extends (fsKey fs dir) fs w fs1 w"
    using extends_mkdirAll [OF assms(3,4) keys(3,4) mk] .
  have k1: "fsKey fs1 p = fsKey fs p" for p by (rule extends_key [OF ex1])
  have wf1: "wfTree fs1" using ex1 by (simp add: extends_def)
  have ex2: "extends (fsKey fs dir) fs1 w fs2 (w + n)"
    by (rule extends_put [OF wf1 _ wr]) (simp add: k1 keys(2))
  note ex = extends_trans [OF ex1 ex2]
  have over: "overLimitBy1 limit (w + n)" by (rule put_overLimitBy1 [OF w assms(2) wr])
  have rem: "remaining limit w < max_int64"
    using assms(2) w by (auto simp: remaining_def withinLimit_def)
  have ok: "withinLimit limit (w + n)" "readErr (content h) = None"
    "entryAt fs2 (fsKey fs dir @ e # es) = Some (FileEntry (avail (content h)))" if "err = None"
    using wl.budget_kept [OF w assms(2) wr [unfolded that]] wl.put_content [OF rem wr [unfolded that]]
    by (auto simp: k1 keys(2))
  have dirKey: "fsKey fs2 dir = fsKey fs dir" by (rule extends_key [OF ex])
  show ?thesis
    using ex over ok assms(9,10)
    by (cases err)
       (auto simp: roundOk_def sizeLimitWithTotals_def extracted_def el tp dirKey split: option.split)
qed

lemma extractEntry_correct:
  assumes "properDir dir" and "limit < max_int64" and "wfTree fs"
    and "entryAt fs (fsKey fs dir) = Some DirEntry" and "withinLimit limit w"
  shows "roundOk dir limit h root w fs (extractEntry dir limit h root w fs)"
proof (cases "resolveTarPath dir (Name h)")
  case (Inl e)
  then show ?thesis using assms(3,5) by (simp add: extractEntry_def roundOk_stop)
next
  case (Inr pt)
  obtain path topPath where pt: "pt = (path, topPath)" by (cases pt)
  with Inr obtain e es where el: "tarElems (Name h) = e # es"
    and path: "path = dir @ CHR ''/'' # joinChar CHR ''/'' (e # es)"
    and tp: "topPath = dir @ CHR ''/'' # e"
    using resolveTarPath_OkD [OF assms(1)] by blast
  consider (stop) "root \<noteq> [] \<and> topPath \<noteq> root \<or> Typeflag h \<noteq> TypeDir \<and> Typeflag h \<noteq> TypeReg"
    | (isdir) "root = [] \<or> topPath = root" "Typeflag h = TypeDir"
    | (isreg) "root = [] \<or> topPath = root" "Typeflag h = TypeReg" "Typeflag h \<noteq> TypeDir" by blast
  then show ?thesis
  proof cases
    case stop
    then show ?thesis using Inr pt assms(3,5) by (auto simp: extractEntry_def roundOk_stop)
  next
    case isdir
    then have "extractEntry dir limit h root w fs
      = (case osMkdirAll path fs of (fs1, Some e) \<Rightarrow> (fs1, w, Inl e) | (fs1, None) \<Rightarrow> (fs1, w, Inr topPath))"
      using Inr pt by (auto simp: extractEntry_def)
    moreover have "root \<noteq> [] \<Longrightarrow> topPath = root" using isdir by auto
    ultimately show ?thesis
      using extractEntry_dir [OF assms(1,3,4,5) el path tp _ isdir(2), of root] by simp
  next
    case isreg
    obtain fs1 er where mk: "osMkdirAll (Dir path) fs = (fs1, er)" by (cases "osMkdirAll (Dir path) fs")
    have ex: "extends (fsKey fs dir) fs w fs1 w"
      using extends_mkdirAll [OF assms(3,4) _ _ mk] tarPath_keys [OF assms(1) el path] by blast
    obtain fs2 n err where wr: "writeLimited path (content h) (remaining limit w) fs1 = (fs2, n, err)"
      by (metis prod_cases3)
    show ?thesis
    proof (cases er)
      case None
      then show ?thesis
        using extractEntry_file [OF assms el path tp _ isreg(2) mk [unfolded None] wr] isreg Inr pt mk wr
        by (auto simp: extractEntry_def)
    next
      case (Some x)
      then show ?thesis
        using isreg Inr pt mk ex assms(5) by (auto simp: extractEntry_def roundOk_def withinLimit_over)
    qed
  qed
qed

text \<open>The loop's contract, by induction over the archive.\<close>

lemma extractLoop_correct:
  assumes "extractLoop dir limit nextE hs root w fs = (fs', w', r)"
    and "properDir dir" and "limit < max_int64"
    and "wfTree fs" and "entryAt fs (fsKey fs dir) = Some DirEntry" and "withinLimit limit w"
  shows "extends (fsKey fs dir) fs w fs' w' \<and> overLimitBy1 limit w'
    \<and> (\<forall>rt. r = Inr rt \<longrightarrow> withinLimit limit w' \<and> nextE = None \<and> rt \<noteq> []
          \<and> (root \<noteq> [] \<longrightarrow> rt = root) \<and> (hs = [] \<longrightarrow> root \<noteq> [])
          \<and> list_all (extracted dir rt fs') hs)"
  using assms
proof (induction hs arbitrary: root w fs)
  case Nil
  then show ?case by (auto simp: extends_refl withinLimit_over split: option.splits if_splits)
next
  case (Cons h hs)
  note prems = Cons.prems
  obtain fs1 w1 r1 where e: "extractEntry dir limit h root w fs = (fs1, w1, r1)" by (metis prod_cases3)
  have ok: "roundOk dir limit h root w fs (fs1, w1, r1)"
    using extractEntry_correct [OF prems(2-6), of h root] e by simp
  then have ex1: "extends (fsKey fs dir) fs w fs1 w1" by (simp add: roundOk_def)
  show ?case
  proof (cases r1)
    case (Inl x)
    then show ?thesis using prems(1) e ok by (auto simp: roundOk_def)
  next
    case (Inr root1)
    have k1: "fsKey fs1 dir = fsKey fs dir" by (rule extends_key [OF ex1])
    have run: "extractLoop dir limit nextE hs root1 w1 fs1 = (fs', w', r)"
      using prems(1) e Inr by simp
    have pre: "wfTree fs1" "entryAt fs1 (fsKey fs1 dir) = Some DirEntry" "withinLimit limit w1"
      using ex1 ok prems(5) k1 Inr by (auto simp: extends_def roundOk_def)
    note ih = Cons.IH [OF run prems(2,3) pre, unfolded k1]
    then have ex: "extends (fsKey fs dir) fs1 w1 fs' w'" by blast
    have "extracted dir root1 fs' h" "root1 \<noteq> []" "root \<noteq> [] \<Longrightarrow> root1 = root"
      using ok Inr extracted_mono [OF ex] by (auto simp: roundOk_def)
    then show ?thesis using extends_trans [OF ex1 ex] ih by auto
  qed
qed

section \<open>Properties\<close>

text \<open>
  No tar entry escapes the staging directory. For every name an archive can hold - absolute,
  with \<open>..\<close> in any place, with doubled or trailing separators - \<open>resolveTarPath\<close> under a
  clean staging directory either refuses the name, which happens exactly when the name is empty or
  cleans to the root itself, or places it at the directory, a separator and the name's cleaned
  elements, none of which is empty, \<open>.\<close> or \<open>..\<close> or holds a separator; the reported top
  level path is the directory's child the entry sits beneath.
\<close>

theorem resolveTarPath_confined:
  assumes "properDir dir"
  shows "(isOk (resolveTarPath dir name) \<longleftrightarrow> name \<noteq> [] \<and> tarElems name \<noteq> [])
    \<and> list_all plainElem (tarElems name)
    \<and> (\<forall>path topPath. resolveTarPath dir name = Inr (path, topPath) \<longrightarrow>
          path = dir @ CHR ''/'' # joinChar CHR ''/'' (tarElems name)
          \<and> topPath = dir @ CHR ''/'' # hd (tarElems name)
          \<and> fsKey fs path = fsKey fs dir @ tarElems name
          \<and> fsKey fs topPath = fsKey fs dir @ [hd (tarElems name)])"
proof (cases "tarElems name")
  case Nil
  then show ?thesis by (simp add: resolveTarPath_eq [OF assms])
next
  case (Cons e es)
  have pl: "list_all plainElem (e # es)" using tarElems_plain [of name] Cons by simp
  have d: "dir \<noteq> []" using assms by (rule properDir_stack)
  show ?thesis
    using pl fsKey_append [OF d pl, of fs] fsKey_elem [OF d, of e fs]
    by (auto simp: resolveTarPath_eq [OF assms] Cons)
qed

lemma properDir_sample: "properDir ''/d''"
  by (simp add: properDir_def Clean_def cleanStack_def isRooted_def renderPath_def pushElem.simps)

theorem resolveTarPath_confined_witness:
  "resolveTarPath ''/d'' ''../../etc//passwd'' = Inr (''/d/etc/passwd'', ''/d/etc'')"
proof -
  have el: "tarElems ''../../etc//passwd'' = [''etc'', ''passwd'']"
    by (simp add: tarElems_def cleanStack_def isRooted_def pushElem.simps)
  note c = resolveTarPath_confined [OF properDir_sample, of "''../../etc//passwd''" plainDisk]
  then obtain path topPath where "resolveTarPath ''/d'' ''../../etc//passwd'' = Inr (path, topPath)"
    using el by (cases "resolveTarPath ''/d'' ''../../etc//passwd''") auto
  with c el show ?thesis by simp
qed

text \<open>
  The unverified fallback cannot deliver into the working directory. With an output such as
  \<open>out.bin\<close> the staging directory is \<open>./.ipfs-gateway-N\<close>; \<open>filepath.Join\<close> drops the
  leading \<open>./\<close>, so the prefix test of \<open>resolveTarPath\<close> calls every entry an escape: any
  archive with at least one entry is refused and nothing is written.
\<close>

theorem extractTar_refuses_in_cwd:
  assumes "claimScratch ''.'' gatewayScratchPrefix rands s = Inr (scratch, s1)"
    and "headers archive \<noteq> []"
  shows "\<exists>err. extractTar scratch archive limit fs = (fs, 0, Inl err)"
proof -
  obtain r where sc: "scratch = ''./'' @ gatewayScratchPrefix @ r"
    using assms(1) by (rule claimScratch_name) (auto simp: joinPath_def)
  have refuse: "\<not> isOk (resolveTarPath scratch name)" for name
  proof -
    let ?p = "Join scratch (Clean (CHR ''/'' # name))"
    have "\<not> HasPrefix ?p ''./''" using Clean_not_dot_slash by (simp add: Join_def sc)
    then have "?p \<noteq> scratch \<and> \<not> HasPrefix ?p (scratch @ ''/'')"
      by (auto simp: sc HasPrefix_iff)
    then show ?thesis by (simp add: resolveTarPath_def Let_def)
  qed
  obtain h hs where h: "headers archive = h # hs" using assms(2) by (cases "headers archive") auto
  obtain e where "resolveTarPath scratch (Name h) = Inl e"
    using refuse [of "Name h"] by (cases "resolveTarPath scratch (Name h)") auto
  then show ?thesis by (simp add: extractTar_def h extractEntry_def)
qed

definition sampleArchive :: tarArchive where
  "sampleArchive =
     \<lparr>headers =
        [\<lparr>Name = ''bafy/a'', Typeflag = TypeReg, content = \<lparr>avail = ''hi'', readErr = None\<rparr>\<rparr>,
         \<lparr>Name = ''bafy'', Typeflag = TypeDir, content = \<lparr>avail = [], readErr = None\<rparr>\<rparr>],
      nextErr = None\<rparr>"

theorem extractTar_refuses_in_cwd_witness:
  "\<exists>s1 err. claimScratch ''.'' gatewayScratchPrefix [''7''] \<lparr>staging = {}, disk = plainDisk\<rparr>
      = Inr (''./.ipfs-gateway-7'', s1)
    \<and> extractTar ''./.ipfs-gateway-7'' sampleArchive 0 (disk s1) = (disk s1, 0, Inl err)"
proof -
  let ?s0 = "\<lparr>staging = {}, disk = plainDisk\<rparr>"
  have key: "fsKey plainDisk ''./.ipfs-gateway-7'' = [''.ipfs-gateway-7'']"
    by (simp add: fsKey_def isRooted_def pushElem.simps plainDisk_def)
  have "isOk (osMkdir ''./.ipfs-gateway-7'' plainDisk)"
    by (simp add: osMkdir_def Let_def key) (simp add: entryAt_def plainDisk_def)
  then obtain fs1 where "osMkdir ''./.ipfs-gateway-7'' plainDisk = Inr fs1"
    by (cases "osMkdir ''./.ipfs-gateway-7'' plainDisk") auto
  then have claim: "claimScratch ''.'' gatewayScratchPrefix [''7''] ?s0
      = Inr (''./.ipfs-gateway-7'', \<lparr>staging = {''./.ipfs-gateway-7''}, disk = fs1\<rparr>)"
    by (simp add: claimScratch_def gatewayScratchPrefix_def joinPath_def)
  have "headers sampleArchive \<noteq> []" by (simp add: sampleArchive_def)
  from extractTar_refuses_in_cwd [OF claim this] claim show ?thesis by auto
qed

text \<open>
  C12. A hostile archive is contained. Whatever headers and bodies the gateway sends, extracting
  into an existing staging directory changes nothing outside it, alters no file or directory that
  was there before (inside it either), keeps the file system a tree, stores exactly the bytes it
  counts, and with a size limit stores at most one byte more than the limit in total.
\<close>

theorem extractTar_contained:
  assumes "extractTar dir archive limit fs = (fs', written, r)"
    and "properDir dir" and "limit < max_int64"
    and "wfTree fs" and "entryAt fs (fsKey fs dir) = Some DirEntry"
  shows "sameOutside (fsKey fs dir) fs fs' \<and> wfTree fs'
    \<and> (\<forall>k v. entryAt fs k = Some v \<longrightarrow> entryAt fs' k = Some v)
    \<and> int (diskBytes fs') = int (diskBytes fs) + written
    \<and> 0 \<le> written \<and> (0 < limit \<longrightarrow> written \<le> limit + 1)"
proof -
  have "withinLimit limit 0" by (simp add: withinLimit_def)
  then have "extends (fsKey fs dir) fs 0 fs' written \<and> overLimitBy1 limit written"
    using extractLoop_correct [OF assms(1) [unfolded extractTar_def] assms(2-5)] by blast
  then show ?thesis by (auto simp: extends_def overLimitBy1_def)
qed

theorem extractTar_contained_witness:
  "\<exists>fs' written r. extractTar ''/d'' sampleArchive 1 plainDisk = (fs', written, r)
     \<and> written \<le> 2 \<and> wfTree fs'"
proof -
  obtain fs' w r where x: "extractTar ''/d'' sampleArchive 1 plainDisk = (fs', w, r)" by (metis prod_cases3)
  have wf: "wfTree plainDisk" by (rule wfTree_list) (simp add: plainDisk_def entryAt_def)
  have d: "entryAt plainDisk (fsKey plainDisk ''/d'') = Some DirEntry"
    by (simp add: fsKey_def isRooted_def pushElem.simps) (simp add: plainDisk_def entryAt_def)
  show ?thesis using x extractTar_contained [OF x properDir_sample _ wf d] by simp
qed

text \<open>
  A successful extraction is complete and has one root. If \<open>extractTar\<close> returns a root, the
  archive ended without error and was not empty; every entry of it was a regular file or a
  directory below that root; each regular file is on disk with exactly the bytes the archive
  carried and each directory is there; the root exists, is a child of the staging directory, and
  the bytes written respect the limit.
\<close>

theorem extractTar_complete:
  assumes "extractTar dir archive limit fs = (fs', written, Inr root)"
    and "properDir dir" and "limit < max_int64"
    and "wfTree fs" and "entryAt fs (fsKey fs dir) = Some DirEntry"
  shows "nextErr archive = None \<and> headers archive \<noteq> []
    \<and> list_all (extracted dir root fs') (headers archive)
    \<and> (\<exists>e. plainElem e \<and> root = dir @ CHR ''/'' # e \<and> entryAt fs' (fsKey fs' root) \<noteq> None)
    \<and> (0 < limit \<longrightarrow> written \<le> limit)"
proof -
  have "withinLimit limit 0" by (simp add: withinLimit_def)
  then have ex: "extends (fsKey fs dir) fs 0 fs' written"
    and ok: "withinLimit limit written \<and> nextErr archive = None \<and> headers archive \<noteq> []
      \<and> list_all (extracted dir root fs') (headers archive)"
    using extractLoop_correct [OF assms(1) [unfolded extractTar_def] assms(2-5)] by blast+
  then obtain h where h: "extracted dir root fs' h" by (cases "headers archive") auto
  then obtain e es where el: "tarElems (Name h) = e # es" and root: "root = dir @ CHR ''/'' # e"
    by (cases "tarElems (Name h)") (auto simp: extracted_def)
  have e: "plainElem e" using tarElems_plain [of "Name h"] el by simp
  have key: "fsKey fs' root = fsKey fs' dir @ [e]"
    unfolding root using properDir_stack(1) [OF assms(2)] e by (rule fsKey_elem)
  have "entryAt fs' ((fsKey fs' dir @ [e]) @ es) \<noteq> None" using h el by (auto simp: extracted_def)
  then have "entryAt fs' (fsKey fs' root) \<noteq> None"
    using wfTree_ancestors [of fs' "fsKey fs' dir @ [e]" es] ex key by (cases es) (auto simp: extends_def)
  then show ?thesis using ok e root by (auto simp: withinLimit_def)
qed

theorem extractTar_complete_witness:
  "\<exists>fs' root. extractTar ''/d'' sampleArchive 5 plainDisk = (fs', 2, Inr root)
     \<and> list_all (extracted ''/d'' root fs') (headers sampleArchive)"
proof -
  have el: "tarElems ''bafy/a'' = [''bafy'', ''a'']" "tarElems ''bafy'' = [''bafy'']"
    by (simp_all add: tarElems_def cleanStack_def isRooted_def pushElem.simps)
  have keys: "fsKey fs ''/d/bafy/a'' = [''d'', ''bafy'', ''a'']" "fsKey fs ''/d/bafy'' = [''d'', ''bafy'']" for fs
    by (simp_all add: fsKey_def isRooted_def pushElem.simps)
  have dir: "Dir ''/d/bafy/a'' = ''/d/bafy''"
    by (simp add: Dir_def Clean_def cleanStack_def isRooted_def renderPath_def pushElem.simps)
  have "\<exists>fs' root. extractTar ''/d'' sampleArchive 5 plainDisk = (fs', 2, Inr root)"
    by (simp add: extractTar_def sampleArchive_def extractEntry_def resolveTarPath_eq [OF properDir_sample]
        el dir osMkdirAll_def keys TypeReg_def TypeDir_def writeLimited_def osCreateExcl_def Let_def
        remaining_def copyLimited_def wrap64_def osAppend_def sizeLimitWithTotals_def
        plainDisk_def entryAt_def setEntry_def touch_def)
  then obtain fs' root where x: "extractTar ''/d'' sampleArchive 5 plainDisk = (fs', 2, Inr root)" by blast
  have wf: "wfTree plainDisk" by (rule wfTree_list) (simp add: plainDisk_def entryAt_def)
  have d: "entryAt plainDisk (fsKey plainDisk ''/d'') = Some DirEntry"
    by (simp add: fsKey_def isRooted_def pushElem.simps) (simp add: plainDisk_def entryAt_def)
  show ?thesis using x extractTar_complete [OF x properDir_sample _ wf d] by auto
qed

end
