(* ===== verification/Go_Hex.thy ===== *)
theory Go_Hex
  imports Go_Errors
begin

text \<open>
  Digits: \<open>encoding/hex\<close>, and the decimal digits the address parsers read.
\<close>

section \<open>Decimal digits\<close>

definition isDigit :: "char \<Rightarrow> bool" where
  "isDigit c \<longleftrightarrow> 48 \<le> (of_char c :: nat) \<and> (of_char c :: nat) \<le> 57"

definition digitVal :: "char \<Rightarrow> int" where
  "digitVal c = int (of_char c) - 48"

lemma char_literal:
  "c = char_of (n :: nat) \<longleftrightarrow> of_char c = n mod 256" "char_of (n :: nat) = c \<longleftrightarrow> of_char c = n mod 256"
  by (metis char_of_char of_char_of)+

section \<open>Hexadecimal text\<close>

definition byteOf :: "nat \<Rightarrow> char" where
  "byteOf n = char_of n"

definition codeOf :: "char \<Rightarrow> nat" where
  "codeOf c = of_char c"

text \<open>\<open>fromHexChar\<close> of \<open>encoding/hex\<close>, by the code of the character.\<close>

definition hexVal :: "char \<Rightarrow> nat option" where
  "hexVal c =
     (let n = codeOf c in
      if 48 \<le> n \<and> n \<le> 57 then Some (n - 48)
      else if 97 \<le> n \<and> n \<le> 102 then Some (n - 87)
      else if 65 \<le> n \<and> n \<le> 70 then Some (n - 55)
      else None)"

definition InvalidByteError :: "char \<Rightarrow> error" where
  "InvalidByteError c = Errorf ''encoding/hex: invalid byte: %#U'' [[c]]"

definition ErrLength :: error where
  "ErrLength = Errorf ''encoding/hex: odd length hex string'' []"

fun DecodeString :: "string \<Rightarrow> error + string" where
  "DecodeString [] = Inr []"
| "DecodeString [a] = (case hexVal a of None \<Rightarrow> Inl (InvalidByteError a) | Some h \<Rightarrow> Inl ErrLength)"
| "DecodeString (a # b # s) =
     (case hexVal a of
        None \<Rightarrow> Inl (InvalidByteError a)
      | Some h \<Rightarrow>
          (case hexVal b of
             None \<Rightarrow> Inl (InvalidByteError b)
           | Some l \<Rightarrow>
               (case DecodeString s of
                  Inl e \<Rightarrow> Inl e
                | Inr bytes \<Rightarrow> Inr (byteOf (16 * h + l) # bytes))))"

section \<open>Encoding\<close>

text \<open>What a caller writes a seed with: two digits a byte, in either case of letters.\<close>

definition hexDigit :: "bool \<Rightarrow> nat \<Rightarrow> char" where
  "hexDigit upper n = byteOf (if n < 10 then 48 + n else if upper then 55 + n else 87 + n)"

definition EncodeToString :: "bool \<Rightarrow> string \<Rightarrow> string" where
  "EncodeToString upper bytes =
     concat (map (\<lambda>c. [hexDigit upper (codeOf c div 16), hexDigit upper (codeOf c mod 16)]) bytes)"

lemma codeOf_byteOf: "n < 256 \<Longrightarrow> codeOf (byteOf n) = n"
  by (simp add: codeOf_def byteOf_def)

lemma codeOf_less: "codeOf c < 256"
  by (simp add: codeOf_def)

lemma byteOf_codeOf: "byteOf (codeOf c) = c"
  by (simp add: codeOf_def byteOf_def)

lemma hexVal_hexDigit: "n < 16 \<Longrightarrow> hexVal (hexDigit upper n) = Some n"
  by (auto simp: hexVal_def hexDigit_def codeOf_byteOf Let_def)

lemma DecodeString_EncodeToString: "DecodeString (EncodeToString upper bytes) = Inr bytes"
proof (induction bytes)
  case (Cons c cs)
  have "codeOf c div 16 < 16" using codeOf_less [of c] by simp
  then show ?case using Cons by (simp add: EncodeToString_def hexVal_hexDigit byteOf_codeOf)
qed (simp add: EncodeToString_def)

lemma hexVal_less: "hexVal c = Some h \<Longrightarrow> h < 16"
  by (auto simp: hexVal_def Let_def split: if_splits)

text \<open>When decoding succeeds, and how much it gives.\<close>

lemma DecodeString_ok:
  "isOk (DecodeString s) \<longleftrightarrow> even (length s) \<and> list_all (\<lambda>c. hexVal c \<noteq> None) s"
proof (induction s rule: DecodeString.induct)
  case (3 a b s)
  then show ?case by (cases "hexVal a"; cases "hexVal b"; cases "DecodeString s") auto
qed (auto split: option.split)

lemma DecodeString_length: "DecodeString s = Inr bytes \<Longrightarrow> length s = 2 * length bytes"
  by (induction s arbitrary: bytes rule: DecodeString.induct) (auto split: option.splits sum.splits)

end
