(* ===== verification/Go_Net.thy ===== *)
theory Go_Net
  imports Go_Hex Go_Strings
begin

text \<open>
  Network addresses as Go's standard library reads and writes them: \<open>net.SplitHostPort\<close>,
  \<open>net.JoinHostPort\<close>, \<open>netip.ParseAddr\<close>, \<open>net.ParseIP\<close> and \<open>IP.To4\<close>. Bytes of addresses are numbers.
  Callers only ask whether a text could be read, so an error is \<open>None\<close>.
\<close>

section \<open>Hosts and ports\<close>

text \<open>The text before and after the last occurrence of a separator.\<close>

fun splitLast :: "char \<Rightarrow> string \<Rightarrow> (string \<times> string) option" where
  "splitLast c [] = None"
| "splitLast c (x # xs) =
     (case splitLast c xs of
        Some (a, b) \<Rightarrow> Some (x # a, b)
      | None \<Rightarrow> if x = c then Some ([], xs) else None)"

definition SplitHostPort :: "string \<Rightarrow> (string \<times> string) option" where
  "SplitHostPort hostport =
     (case splitLast CHR '':'' hostport of
        None \<Rightarrow> None
      | Some (before, port) \<Rightarrow>
          if hd hostport = CHR ''['' then
            (if before = [] \<or> last before \<noteq> CHR '']'' \<or> CHR '']'' \<in> set (butlast before)
               \<or> CHR ''['' \<in> set (tl hostport) \<or> CHR '']'' \<in> set port then None
             else Some (tl (butlast before), port))
          else
            (if CHR '':'' \<in> set before \<or> CHR ''['' \<in> set hostport \<or> CHR '']'' \<in> set hostport then None
             else Some (before, port)))"

definition JoinHostPort :: "string \<Rightarrow> string \<Rightarrow> string" where
  "JoinHostPort h port =
     (if CHR '':'' \<in> set h then CHR ''['' # h @ '']:'' @ port else h @ '':'' @ port)"

lemma splitLast_None_iff: "splitLast c s = None \<longleftrightarrow> c \<notin> set s"
  by (induction s) (auto split: option.split)

lemma splitLast_SomeD: "splitLast c s = Some (a, b) \<Longrightarrow> s = a @ c # b \<and> c \<notin> set b"
proof (induction s arbitrary: a)
  case (Cons x xs)
  show ?case
  proof (cases "splitLast c xs")
    case None
    then show ?thesis using Cons.prems splitLast_None_iff [of c xs] by (simp split: if_splits)
  next
    case (Some p)
    obtain a1 b1 where p: "p = (a1, b1)" by (cases p)
    show ?thesis using Cons.IH [of a1] Cons.prems Some p by simp
  qed
qed simp

lemma splitLast_append: "c \<notin> set b \<Longrightarrow> splitLast c (a @ c # b) = Some (a, b)"
proof -
  assume "c \<notin> set b"
  then have "splitLast c (c # b) = Some ([], b)" using splitLast_None_iff [of c b] by simp
  then show ?thesis by (induction a) auto
qed

lemma SplitHostPort_JoinHostPort:
  assumes "h \<noteq> []" "CHR ''['' \<notin> set h" "CHR '']'' \<notin> set h"
    and "CHR '':'' \<notin> set port" "CHR ''['' \<notin> set port" "CHR '']'' \<notin> set port"
  shows "SplitHostPort (JoinHostPort h port) = Some (h, port)"
proof (cases "CHR '':'' \<in> set h")
  case True
  have "splitLast CHR '':'' ((CHR ''['' # h @ '']'') @ CHR '':'' # port) = Some (CHR ''['' # h @ '']'', port)"
    by (rule splitLast_append) fact
  then show ?thesis using True assms by (simp add: SplitHostPort_def JoinHostPort_def butlast_append)
next
  case False
  have "splitLast CHR '':'' (h @ CHR '':'' # port) = Some (h, port)"
    by (rule splitLast_append) fact
  moreover have "hd (h @ CHR '':'' # port) \<noteq> CHR ''[''" using assms(1,2) by (cases h) auto
  ultimately show ?thesis using False assms by (simp add: SplitHostPort_def JoinHostPort_def)
qed

section \<open>netip.ParseAddr\<close>

text \<open>An address of four bytes, or of sixteen with the zone it may name.\<close>

datatype netipAddr = Addr4 "nat list" | Addr6 "nat list" string

text \<open>
  \<open>parseIPv4Fields\<close>: the value of the octet being read, how many digits it has so far, and the
  octets before it.
\<close>

fun parseIPv4Fields :: "string \<Rightarrow> nat \<Rightarrow> nat \<Rightarrow> nat list \<Rightarrow> nat list option" where
  "parseIPv4Fields [] val digLen fields = (if length fields < 3 then None else Some (fields @ [val]))"
| "parseIPv4Fields (c # cs) val digLen fields =
     (if isDigit c then
        (if digLen = 1 \<and> val = 0 then None
         else let v = val * 10 + nat (digitVal c) in
              if 255 < v then None else parseIPv4Fields cs v (Suc digLen) fields)
      else if c = CHR ''.'' then
        (if digLen = 0 \<or> cs = [] then None
         else if length fields = 3 then None
         else parseIPv4Fields cs 0 0 (fields @ [val]))
      else None)"

definition isHex :: "char \<Rightarrow> bool" where
  "isHex c \<longleftrightarrow> hexVal c \<noteq> None"

definition hexNumber :: "string \<Rightarrow> nat" where
  "hexNumber ds = foldl (\<lambda>acc c. 16 * acc + the (hexVal c)) 0 ds"

text \<open>The end of \<open>parseIPv6\<close>: the whole text was used, and the ellipsis stands for what is missing.\<close>

definition expandEllipsis :: "string \<Rightarrow> nat list \<Rightarrow> nat option \<Rightarrow> nat list option" where
  "expandEllipsis s ip ellipsis =
     (if s \<noteq> [] then None
      else if length ip < 16 then
        (case ellipsis of
           None \<Rightarrow> None
         | Some e \<Rightarrow> Some (take e ip @ replicate (16 - length ip) 0 @ drop e ip))
      else if ellipsis \<noteq> None then None else Some ip)"

lemma dropWhile_shorter: "dropWhile P s = c # r \<Longrightarrow> length r < length s"
  by (metis length_dropWhile_le length_Cons Suc_le_lessD)

text \<open>The loop over groups: \<open>ip\<close> holds the bytes read, \<open>ellipsis\<close> where \<open>::\<close> stood among them.\<close>

function parseGroups :: "string \<Rightarrow> nat list \<Rightarrow> nat option \<Rightarrow> nat list option" where
  "parseGroups s ip ellipsis =
     (if 16 \<le> length ip then expandEllipsis s ip ellipsis
      else
        let ds = takeWhile isHex s; r = dropWhile isHex s in
        if 4 < length ds \<or> ds = [] then None
        else if r \<noteq> [] \<and> hd r = CHR ''.'' then
          (if ellipsis = None \<and> length ip \<noteq> 12 \<or> 16 < length ip + 4 then None
           else (case parseIPv4Fields s 0 0 [] of
                   None \<Rightarrow> None
                 | Some fields \<Rightarrow> expandEllipsis [] (ip @ fields) ellipsis))
        else
          let ip1 = ip @ [hexNumber ds div 256, hexNumber ds mod 256] in
          (case r of
             [] \<Rightarrow> expandEllipsis [] ip1 ellipsis
           | c # r1 \<Rightarrow>
               if c \<noteq> CHR '':'' \<or> r1 = [] then None
               else if hd r1 = CHR '':'' then
                 (if ellipsis \<noteq> None then None
                  else if tl r1 = [] then expandEllipsis [] ip1 (Some (length ip1))
                  else parseGroups (tl r1) ip1 (Some (length ip1)))
               else parseGroups r1 ip1 ellipsis))"
  by pat_completeness auto
termination
  by (relation "measure (\<lambda>(s, ip, ellipsis). length s)")
     (auto dest!: dropWhile_shorter [OF sym] dropWhile_shorter intro: le_less_trans [OF diff_le_self])

declare parseGroups.simps [simp del]

definition parseIPv6 :: "string \<Rightarrow> netipAddr option" where
  "parseIPv6 s =
     (let addr = takeWhile (\<lambda>c. c \<noteq> CHR ''%'') s; zone = tl (dropWhile (\<lambda>c. c \<noteq> CHR ''%'') s) in
      if CHR ''%'' \<in> set s \<and> zone = [] then None
      else if HasPrefix addr ''::'' then
        (if drop 2 addr = [] then Some (Addr6 (replicate 16 0) zone)
         else map_option (\<lambda>ip. Addr6 ip zone) (parseGroups (drop 2 addr) [] (Some 0)))
      else map_option (\<lambda>ip. Addr6 ip zone) (parseGroups addr [] None))"

text \<open>The first of the three characters that tell the forms apart decides.\<close>

definition ParseAddr :: "string \<Rightarrow> netipAddr option" where
  "ParseAddr s =
     (case dropWhile (\<lambda>c. c \<notin> {CHR ''.'', CHR '':'', CHR ''%''}) s of
        [] \<Rightarrow> None
      | c # _ \<Rightarrow>
          if c = CHR ''.'' then map_option Addr4 (parseIPv4Fields s 0 0 [])
          else if c = CHR '':'' then parseIPv6 s
          else None)"

section \<open>net.ParseIP\<close>

fun As16 :: "netipAddr \<Rightarrow> nat list" where
  "As16 (Addr4 ip) = replicate 10 0 @ [255, 255] @ ip"
| "As16 (Addr6 ip zone) = ip"

fun Zone :: "netipAddr \<Rightarrow> string" where
  "Zone (Addr4 ip) = []"
| "Zone (Addr6 ip zone) = zone"

definition ParseIP :: "string \<Rightarrow> nat list option" where
  "ParseIP s =
     (case ParseAddr s of
        None \<Rightarrow> None
      | Some addr \<Rightarrow> if Zone addr \<noteq> [] then None else Some (As16 addr))"

definition To4 :: "nat list \<Rightarrow> nat list option" where
  "To4 ip = (if length ip = 16 \<and> take 12 ip = replicate 10 0 @ [255, 255] then Some (drop 12 ip) else None)"

section \<open>What is an address\<close>

text \<open>The four numbers of an IPv4 address, as they are written.\<close>

definition dotted :: "nat \<Rightarrow> nat \<Rightarrow> nat \<Rightarrow> nat \<Rightarrow> string" where
  "dotted a b c d = showDigits a @ ''.'' @ showDigits b @ ''.'' @ showDigits c @ ''.'' @ showDigits d"

lemma digit_char: "k < 10 \<Longrightarrow> isDigit (char_of (48 + k)) \<and> nat (digitVal (char_of (48 + k))) = k"
  by (simp add: isDigit_def digitVal_def)

lemma digit_char_numeral [simp]:
  "k < 10 \<Longrightarrow> isDigit (char_of (48 + k))" "k < 10 \<Longrightarrow> nat (digitVal (char_of (48 + k))) = k"
  by (simp_all add: digit_char)

lemma showDigits_small:
  "n < 10 \<Longrightarrow> showDigits n = [char_of (48 + n)]"
  "10 \<le> n \<Longrightarrow> n < 100 \<Longrightarrow> showDigits n = [char_of (48 + n div 10), char_of (48 + n mod 10)]"
  "100 \<le> n \<Longrightarrow> n < 1000 \<Longrightarrow>
     showDigits n = [char_of (48 + n div 100), char_of (48 + n div 10 mod 10), char_of (48 + n mod 10)]"
proof -
  show one: "n < 10 \<Longrightarrow> showDigits n = [char_of (48 + n)]" for n by (simp add: showDigits.simps)
  show two: "10 \<le> n \<Longrightarrow> n < 100 \<Longrightarrow> showDigits n = [char_of (48 + n div 10), char_of (48 + n mod 10)]" for n
    using one [of "n div 10"] by (subst showDigits.simps) simp
  show "100 \<le> n \<Longrightarrow> n < 1000 \<Longrightarrow>
     showDigits n = [char_of (48 + n div 100), char_of (48 + n div 10 mod 10), char_of (48 + n mod 10)]"
    using two [of "n div 10"] by (subst showDigits.simps) (simp add: div_mult2_eq [symmetric])
qed

lemma parseIPv4Fields_number:
  assumes "n < 256" and "cs = [] \<or> hd cs = CHR ''.''"
  shows "parseIPv4Fields (showDigits n @ cs) 0 0 fields = parseIPv4Fields cs n 1 fields"
proof -
  have len: "parseIPv4Fields cs n (Suc (Suc k)) fields = parseIPv4Fields cs n (Suc 0) fields" for k
    using assms(2) by (cases cs) (simp_all add: isDigit_def)
  consider "n < 10" | "10 \<le> n" "n < 100" | "100 \<le> n" "n < 256" using assms(1) by linarith
  then show ?thesis
  proof cases
    case 2
    then have "n div 10 < 10" "n div 10 \<noteq> 0" "n div 10 * 10 + n mod 10 = n" "\<not> 255 < n div 10" by auto
    then show ?thesis using 2 by (simp add: showDigits_small(2) len Let_def)
  next
    case 3
    have "n div 100 = n div 10 div 10" by (simp add: div_mult2_eq [symmetric])
    then have "n div 100 * 10 + n div 10 mod 10 = n div 10" by simp
    moreover have "n div 100 < 10" "n div 100 \<noteq> 0" "n div 10 * 10 + n mod 10 = n"
        "\<not> 255 < n div 10" "\<not> 255 < n div 100"
      using 3 by auto
    ultimately show ?thesis using 3 by (simp add: showDigits_small(3) len Let_def)
  qed (simp add: showDigits_small(1) len Let_def)
qed

lemma showDigits_digits: "list_all isDigit (showDigits n)"
proof (induction n rule: less_induct)
  case (less n)
  then show ?case by (cases "n < 10") (subst showDigits.simps; simp add: digit_char)+
qed

lemma showDigits_Cons: "\<exists>c cs. showDigits n = c # cs"
proof -
  have "showDigits n \<noteq> []" by (subst showDigits.simps) simp
  then show ?thesis by (simp add: neq_Nil_conv)
qed

lemma not_digit: "\<not> isDigit CHR ''.''" "\<not> isDigit CHR '':''" "\<not> isDigit CHR ''%''"
    "\<not> isDigit CHR ''[''" "\<not> isDigit CHR '']''" "\<not> isDigit CHR ''/''"
  by (simp_all add: isDigit_def)

lemma ParseAddr_by_dot:
  assumes "CHR '':'' \<notin> set a" "CHR ''%'' \<notin> set a" "CHR ''.'' \<notin> set a"
  shows "ParseAddr (a @ CHR ''.'' # r) = map_option Addr4 (parseIPv4Fields (a @ CHR ''.'' # r) 0 0 [])"
proof -
  have "dropWhile (\<lambda>c. c \<notin> {CHR ''.'', CHR '':'', CHR ''%''}) (a @ CHR ''.'' # r) = CHR ''.'' # r"
    using assms by (subst dropWhile_append2) auto
  then show ?thesis by (simp add: ParseAddr_def)
qed

text \<open>Four numbers below 256 are the address they name.\<close>

lemma ParseAddr_dotted:
  assumes "a < 256" "b < 256" "c < 256" "d < 256"
  shows "ParseAddr (dotted a b c d) = Some (Addr4 [a, b, c, d])"
proof -
  have "list_all isDigit (showDigits a)" by (rule showDigits_digits)
  then have "CHR '':'' \<notin> set (showDigits a)" "CHR ''%'' \<notin> set (showDigits a)" "CHR ''.'' \<notin> set (showDigits a)"
    using not_digit unfolding list_all_iff by blast+
  note by_dot = ParseAddr_by_dot [OF this, of "showDigits b @ ''.'' @ showDigits c @ ''.'' @ showDigits d"]
  obtain x xs y ys z zs where "showDigits b = x # xs" "showDigits c = y # ys" "showDigits d = z # zs"
    using showDigits_Cons by meson
  then have "parseIPv4Fields (dotted a b c d) 0 0 [] = Some [a, b, c, d]"
    using parseIPv4Fields_number [OF assms(1), of "CHR ''.'' # showDigits b @ ''.'' @ showDigits c @ ''.'' @ showDigits d" "[]"]
      parseIPv4Fields_number [OF assms(2), of "CHR ''.'' # showDigits c @ ''.'' @ showDigits d" "[a]"]
      parseIPv4Fields_number [OF assms(3), of "CHR ''.'' # showDigits d" "[a, b]"]
      parseIPv4Fields_number [OF assms(4), of "[]" "[a, b, c]"]
    by (simp add: dotted_def not_digit)
  then show ?thesis using by_dot by (simp add: dotted_def)
qed

text \<open>An IPv4 address is made of digits and dots, so a name with any other character is not one.\<close>

lemma parseIPv4Fields_chars:
  "parseIPv4Fields s val digLen fields = Some ip \<Longrightarrow> list_all (\<lambda>c. isDigit c \<or> c = CHR ''.'') s"
  by (induction s val digLen fields rule: parseIPv4Fields.induct) (auto simp: Let_def split: if_splits)

lemma parseIPv4Fields_length:
  "parseIPv4Fields s val digLen fields = Some ip \<Longrightarrow> length fields \<le> 3 \<Longrightarrow> length ip = 4"
  by (induction s val digLen fields rule: parseIPv4Fields.induct) (auto simp: Let_def split: if_splits)

lemma ParseAddr_name:
  assumes "CHR '':'' \<notin> set s" and "c \<in> set s" "\<not> isDigit c" "c \<noteq> CHR ''.''"
  shows "ParseAddr s = None"
proof (cases "dropWhile (\<lambda>c. c \<notin> {CHR ''.'', CHR '':'', CHR ''%''}) s")
  case (Cons x xs)
  have "x \<in> set s" using Cons set_dropWhileD [of x _ s] by (metis list.set_intros(1))
  then have "x \<noteq> CHR '':''" using assms(1) by auto
  moreover have "parseIPv4Fields s 0 0 [] = None"
    using parseIPv4Fields_chars [of s 0 0 "[]"] assms(2-4) by (cases "parseIPv4Fields s 0 0 []") (auto simp: list_all_iff)
  ultimately show ?thesis using Cons by (simp add: ParseAddr_def)
next
  case Nil
  show ?thesis unfolding ParseAddr_def Nil by simp
qed

text \<open>Groups of an IPv6 address, as they are written, and the bytes they stand for.\<close>

fun hexText :: "nat \<Rightarrow> string" where
  "hexText n = (if n < 16 then [hexDigit False n] else hexText (n div 16) @ [hexDigit False (n mod 16)])"

declare hexText.simps [simp del]

definition grouped :: "nat list \<Rightarrow> string" where
  "grouped gs = joinChar CHR '':'' (map hexText gs)"

definition groupBytes :: "nat list \<Rightarrow> nat list" where
  "groupBytes gs = concat (map (\<lambda>g. [g div 256, g mod 256]) gs)"

lemma isHex_hexDigit: "n < 16 \<Longrightarrow> isHex (hexDigit upper n)"
  by (simp add: isHex_def hexVal_hexDigit)

lemma not_hex: "\<not> isHex CHR '':''" "\<not> isHex CHR ''.''" "\<not> isHex CHR ''%''" "\<not> isHex CHR ''[''" "\<not> isHex CHR '']''"
    "\<not> isHex CHR ''/''"
  by (simp_all add: isHex_def hexVal_def codeOf_def)

lemma hexText_hex: "list_all isHex (hexText n)"
proof (induction n rule: less_induct)
  case (less n)
  then show ?case by (cases "n < 16") (subst hexText.simps; simp add: isHex_hexDigit)+
qed

lemma hexText_Cons: "\<exists>c cs. hexText n = c # cs"
proof -
  have "hexText n \<noteq> []" by (subst hexText.simps) simp
  then show ?thesis by (simp add: neq_Nil_conv)
qed

lemma hexNumber_hexText: "hexNumber (hexText n) = n"
proof (induction n rule: less_induct)
  case (less n)
  show ?case
  proof (cases "n < 16")
    case True
    then show ?thesis by (subst hexText.simps) (simp add: hexNumber_def hexVal_hexDigit)
  next
    case False
    then have "hexNumber (hexText (n div 16)) = n div 16" by (intro less) simp
    then show ?thesis using False by (subst hexText.simps) (simp add: hexNumber_def hexVal_hexDigit)
  qed
qed

lemma hexText_length: "n < 16 ^ k \<Longrightarrow> 0 < k \<Longrightarrow> length (hexText n) \<le> k"
proof (induction k arbitrary: n)
  case (Suc k)
  show ?case
  proof (cases "n < 16")
    case False
    then have "0 < k" using Suc.prems by (cases k) simp_all
    moreover have "n div 16 < 16 ^ k" using Suc.prems by (simp add: div_less_iff_less_mult mult.commute)
    ultimately show ?thesis using Suc.IH [of "n div 16"] False by (subst hexText.simps) simp
  qed (subst hexText.simps, simp)
qed simp

lemma takeWhile_hexText:
  assumes "r = [] \<or> \<not> isHex (hd r)"
  shows "takeWhile isHex (hexText n @ r) = hexText n" "dropWhile isHex (hexText n @ r) = r"
proof -
  have "\<forall>c \<in> set (hexText n). isHex c" using hexText_hex [of n] by (simp add: list_all_iff)
  then show "takeWhile isHex (hexText n @ r) = hexText n" "dropWhile isHex (hexText n @ r) = r"
    using assms by (cases r; simp)+
qed

lemma parseGroups_step:
  assumes "g < 65536" and "length ip \<le> 14" and "r = [] \<or> hd r = CHR '':''"
  shows "parseGroups (hexText g @ r) ip ellipsis =
     (let ip1 = ip @ [g div 256, g mod 256] in
      case r of
        [] \<Rightarrow> expandEllipsis [] ip1 ellipsis
      | c # r1 \<Rightarrow>
          if r1 = [] then None
          else if hd r1 = CHR '':'' then
            (if ellipsis \<noteq> None then None
             else if tl r1 = [] then expandEllipsis [] ip1 (Some (length ip1))
             else parseGroups (tl r1) ip1 (Some (length ip1)))
          else parseGroups r1 ip1 ellipsis)"
proof -
  have "r = [] \<or> \<not> isHex (hd r)" using assms(3) not_hex by auto
  note sp = takeWhile_hexText [OF this, of g]
  have "hexText g \<noteq> []" using hexText_Cons [of g] by auto
  moreover have "length (hexText g) \<le> 4" using hexText_length [of g 4] assms(1) by simp
  ultimately show ?thesis
    using assms(2,3) by (subst parseGroups.simps) (auto simp: sp hexNumber_hexText Let_def split: list.split)
qed

lemma grouped_Cons: "gs \<noteq> [] \<Longrightarrow> grouped (g # gs) = hexText g @ CHR '':'' # grouped gs"
  by (simp add: grouped_def joinChar_Cons)

lemma hexText_no_colon: "hexText g = c # cs \<Longrightarrow> c \<noteq> CHR '':''"
  using hexText_hex [of g] not_hex by auto

lemma grouped_start: "gs \<noteq> [] \<Longrightarrow> \<exists>c cs. grouped gs = c # cs \<and> c \<noteq> CHR '':''"
proof (cases gs)
  case (Cons g gs')
  obtain c cs where "hexText g = c # cs" using hexText_Cons by blast
  then show ?thesis using Cons hexText_no_colon [of g c cs]
    by (cases "gs' = []") (simp_all add: grouped_Cons, simp add: grouped_def)
qed simp

text \<open>Reading groups up to the end of the text, and up to the ellipsis.\<close>

lemma parseGroups_grouped:
  assumes "gs \<noteq> []" "\<forall>g \<in> set gs. g < 65536" "length ip + 2 * length gs \<le> 16"
  shows "parseGroups (grouped gs) ip ellipsis = expandEllipsis [] (ip @ groupBytes gs) ellipsis"
  using assms
proof (induction gs arbitrary: ip)
  case (Cons g gs)
  show ?case
  proof (cases "gs = []")
    case True
    then show ?thesis using Cons.prems parseGroups_step [of g ip "[]" ellipsis]
      by (simp add: grouped_def groupBytes_def)
  next
    case False
    obtain c cs where "grouped gs = c # cs" "c \<noteq> CHR '':''" using grouped_start [OF False] by blast
    then show ?thesis
      using False Cons parseGroups_step [of g ip "CHR '':'' # grouped gs" ellipsis]
      by (simp add: grouped_Cons groupBytes_def)
  qed
qed simp

lemma parseGroups_ellipsis:
  assumes "gs \<noteq> []" "\<forall>g \<in> set gs. g < 65536" "length ip + 2 * length gs \<le> 16"
  shows "parseGroups (grouped gs @ ''::'' @ t) ip None =
     (let ip1 = ip @ groupBytes gs in
      if t = [] then expandEllipsis [] ip1 (Some (length ip1)) else parseGroups t ip1 (Some (length ip1)))"
  using assms
proof (induction gs arbitrary: ip)
  case (Cons g gs)
  show ?case
  proof (cases "gs = []")
    case True
    then show ?thesis using Cons.prems parseGroups_step [of g ip "''::'' @ t" None]
      by (simp add: grouped_def groupBytes_def Let_def)
  next
    case False
    obtain c cs where "grouped gs = c # cs" "c \<noteq> CHR '':''" using grouped_start [OF False] by blast
    then show ?thesis
      using False Cons parseGroups_step [of g ip "CHR '':'' # grouped gs @ ''::'' @ t" None]
      by (simp add: grouped_Cons groupBytes_def)
  qed
qed simp

lemma length_groupBytes [simp]: "length (groupBytes gs) = 2 * length gs"
  by (induction gs) (simp_all add: groupBytes_def)

text \<open>
  The sixteen bytes of an address written in full, or with one \<open>::\<close> for the groups that are zero,
  and what a text that was read can be made of.
\<close>

definition shortForm :: "nat list \<Rightarrow> nat list \<Rightarrow> string" where
  "shortForm gs hs = grouped gs @ ''::'' @ grouped hs"

lemma grouped_chars: "list_all (\<lambda>c. isHex c \<or> c = CHR '':'') (grouped gs)"
proof (induction gs)
  case (Cons g gs)
  have "list_all (\<lambda>c. isHex c \<or> c = CHR '':'') (hexText g)"
    using hexText_hex [of g] by (auto simp: list_all_iff)
  then show ?case using Cons by (cases "gs = []") (simp_all add: grouped_Cons, simp add: grouped_def)
qed (simp add: grouped_def)

lemma grouped_clean: "CHR ''%'' \<notin> set (grouped gs)" "CHR ''.'' \<notin> set (grouped gs)"
proof -
  have "\<forall>c \<in> set (grouped gs). isHex c \<or> c = CHR '':''" using grouped_chars [of gs] by (simp add: list_all_iff)
  then show "CHR ''%'' \<notin> set (grouped gs)" "CHR ''.'' \<notin> set (grouped gs)"
    using not_hex by auto
qed

lemma ParseAddr_by_colon:
  assumes "CHR ''.'' \<notin> set s" "CHR ''%'' \<notin> set s" "CHR '':'' \<in> set s"
  shows "ParseAddr s = parseIPv6 s"
proof -
  obtain a r where s: "s = a @ CHR '':'' # r" "CHR '':'' \<notin> set a" using split_list_first [OF assms(3)] by blast
  have "dropWhile (\<lambda>c. c \<notin> {CHR ''.'', CHR '':'', CHR ''%''}) s = CHR '':'' # r"
    unfolding s(1) using assms(1,2) s by (subst dropWhile_append2) auto
  then show ?thesis by (simp add: ParseAddr_def)
qed

lemma parseIPv6_plain:
  assumes "CHR ''%'' \<notin> set s"
  shows "parseIPv6 s =
     (if HasPrefix s ''::'' then
        (if drop 2 s = [] then Some (Addr6 (replicate 16 0) [])
         else map_option (\<lambda>ip. Addr6 ip []) (parseGroups (drop 2 s) [] (Some 0)))
      else map_option (\<lambda>ip. Addr6 ip []) (parseGroups s [] None))"
proof -
  have tw: "takeWhile (\<lambda>c. c \<noteq> CHR ''%'') s = s" "dropWhile (\<lambda>c. c \<noteq> CHR ''%'') s = []"
    using assms by (auto simp: takeWhile_eq_all_conv)
  show ?thesis using assms by (simp add: parseIPv6_def Let_def tw)
qed

lemma ParseAddr_full:
  assumes "length gs = 8" and "\<forall>g \<in> set gs. g < 65536"
  shows "ParseAddr (grouped gs) = Some (Addr6 (groupBytes gs) [])"
proof -
  obtain g hs where gs: "gs = g # hs" "hs \<noteq> []" using assms(1) by (cases gs; cases "tl gs") auto
  have colon: "CHR '':'' \<in> set (grouped gs)" by (simp add: gs grouped_Cons)
  have "\<not> HasPrefix (grouped gs) ''::''" using grouped_start [of gs] gs by (auto simp: HasPrefix_def)
  then show ?thesis
    using ParseAddr_by_colon [OF grouped_clean(2,1) colon] parseGroups_grouped [of gs "[]" None] assms gs
    by (simp add: parseIPv6_plain grouped_clean expandEllipsis_def)
qed

lemma grouped_Nil_iff: "grouped gs = [] \<longleftrightarrow> gs = []"
  using grouped_start [of gs] by (cases "gs = []") (auto simp: grouped_def)

lemma ParseAddr_short:
  assumes "length gs + length hs \<le> 7" and "\<forall>g \<in> set gs. g < 65536" "\<forall>h \<in> set hs. h < 65536"
  shows "ParseAddr (shortForm gs hs) =
     Some (Addr6 (groupBytes gs @ replicate (16 - 2 * (length gs + length hs)) 0 @ groupBytes hs) [])"
proof -
  have clean: "CHR ''%'' \<notin> set (shortForm gs hs)" "CHR ''.'' \<notin> set (shortForm gs hs)"
    "CHR '':'' \<in> set (shortForm gs hs)"
    using grouped_clean by (simp_all add: shortForm_def)
  have tail: "parseGroups (grouped hs) ip (Some (length ip)) = Some (ip @ replicate (16 - (length ip + 2 * length hs)) 0 @ groupBytes hs)"
    if "hs \<noteq> []" "length ip + 2 * length hs \<le> 14" for ip
    using that parseGroups_grouped [OF that(1) assms(3), of ip "Some (length ip)"] by (simp add: expandEllipsis_def)
  show ?thesis
  proof (cases "gs = []")
    case True
    then have "HasPrefix (shortForm gs hs) ''::''" "drop 2 (shortForm gs hs) = grouped hs"
      by (simp_all add: shortForm_def grouped_def HasPrefix_def)
    moreover have "groupBytes gs = []" "length gs = 0" "groupBytes [] = []" by (simp_all add: True groupBytes_def)
    ultimately show ?thesis
      using ParseAddr_by_colon [OF clean(2,1,3)] tail [of "[]"] assms(1) parseIPv6_plain [OF clean(1)]
      by (cases "hs = []") (simp_all add: grouped_Nil_iff)
  next
    case False
    then have "\<not> HasPrefix (shortForm gs hs) ''::''"
      using grouped_start [of gs] by (auto simp: HasPrefix_def shortForm_def)
    moreover have "parseGroups (shortForm gs hs) [] None =
        Some (groupBytes gs @ replicate (16 - 2 * (length gs + length hs)) 0 @ groupBytes hs)"
      using parseGroups_ellipsis [OF False assms(2), of "[]" "grouped hs"] tail [of "groupBytes gs"] assms(1)
      by (cases "hs = []") (simp_all add: shortForm_def Let_def grouped_Nil_iff groupBytes_def [of "[]"] expandEllipsis_def algebra_simps)
    ultimately show ?thesis
      using ParseAddr_by_colon [OF clean(2,1,3)] by (simp add: parseIPv6_plain clean)
  qed
qed

text \<open>A zone is what follows the percent sign, whatever it is.\<close>

lemma ParseAddr_zone:
  assumes "ParseAddr s = Some (Addr6 ip [])" and "CHR ''%'' \<notin> set s" and "zone \<noteq> []"
  shows "ParseAddr (s @ CHR ''%'' # zone) = Some (Addr6 ip zone)"
proof -
  let ?stop = "\<lambda>c. c \<notin> {CHR ''.'', CHR '':'', CHR ''%''}"
  obtain r where r: "dropWhile ?stop s = CHR '':'' # r" and p: "parseIPv6 s = Some (Addr6 ip [])"
    using assms(1) by (auto simp: ParseAddr_def split: list.splits if_splits)
  have "\<not> (\<forall>x \<in> set s. ?stop x)"
  proof
    assume "\<forall>x \<in> set s. ?stop x"
    then have "dropWhile ?stop s = []" by (simp only: dropWhile_eq_Nil_conv)
    then show False unfolding r by simp
  qed
  then obtain x where "x \<in> set s" "\<not> ?stop x" by blast
  then have "dropWhile ?stop (s @ CHR ''%'' # zone) = dropWhile ?stop s @ CHR ''%'' # zone"
    by (rule dropWhile_append1)
  then have "ParseAddr (s @ CHR ''%'' # zone) = parseIPv6 (s @ CHR ''%'' # zone)"
    unfolding ParseAddr_def r by simp
  moreover have "takeWhile (\<lambda>c. c \<noteq> CHR ''%'') (s @ CHR ''%'' # zone) = s"
    "dropWhile (\<lambda>c. c \<noteq> CHR ''%'') (s @ CHR ''%'' # zone) = CHR ''%'' # zone"
    using assms(2) by (subst takeWhile_append2 dropWhile_append2; auto)+
  ultimately show ?thesis
    using p [unfolded parseIPv6_plain [OF assms(2)]] assms(3) by (auto simp: parseIPv6_def Let_def split: if_splits)
qed

lemma isHex_digit: "isDigit c \<Longrightarrow> isHex c"
  by (simp add: isDigit_def isHex_def hexVal_def codeOf_def)

lemma parseGroups_chars:
  "parseGroups s ip ellipsis = Some r \<Longrightarrow> list_all (\<lambda>c. isHex c \<or> c = CHR '':'' \<or> c = CHR ''.'') s"
proof (induction s ip ellipsis arbitrary: r rule: parseGroups.induct)
  case (1 s ip ellipsis)
  let ?ok = "\<lambda>c. isHex c \<or> c = CHR '':'' \<or> c = CHR ''.''"
  let ?r = "dropWhile isHex s"
  have front: "list_all ?ok s" if "list_all ?ok ?r"
  proof -
    have "list_all ?ok (takeWhile isHex s)" by (auto simp: list_all_iff dest: set_takeWhileD)
    then show ?thesis using that list_all_append [of ?ok "takeWhile isHex s" ?r] by simp
  qed
  show ?case
  proof (cases "16 \<le> length ip \<or> (?r \<noteq> [] \<and> hd ?r = CHR ''.'')")
    case True
    then show ?thesis
      using "1.prems" parseIPv4Fields_chars [of s 0 0 "[]"] isHex_digit
      by (subst (asm) parseGroups.simps) (auto simp: Let_def expandEllipsis_def list_all_iff split: if_splits option.splits)
  next
    case False
    then have "list_all ?ok ?r"
    proof (cases ?r)
      case (Cons c r1)
      have step: "c = CHR '':'' \<and> r1 \<noteq> [] \<and>
         (hd r1 = CHR '':'' \<and> (tl r1 = [] \<or> list_all ?ok (tl r1)) \<or> list_all ?ok r1)"
        using "1.prems" False Cons "1.IH"
        by (subst (asm) parseGroups.simps) (auto simp: Let_def split: if_splits)
      then show ?thesis using Cons by (cases r1) auto
    next
      case Nil
      show ?thesis unfolding Nil by simp
    qed
    then show ?thesis by (rule front)
  qed
qed

lemma parseIPv6_chars:
  assumes "parseIPv6 s = Some addr"
  shows "\<exists>a. s = a @ (if Zone addr = [] then [] else CHR ''%'' # Zone addr)
    \<and> list_all (\<lambda>c. isHex c \<or> c = CHR '':'' \<or> c = CHR ''.'') a \<and> (\<exists>ip. addr = Addr6 ip (Zone addr))"
proof -
  let ?a = "takeWhile (\<lambda>c. c \<noteq> CHR ''%'') s" and ?d = "dropWhile (\<lambda>c. c \<noteq> CHR ''%'') s"
  have zone: "Zone addr = tl ?d" "CHR ''%'' \<in> set s \<longrightarrow> tl ?d \<noteq> []" "\<exists>ip. addr = Addr6 ip (tl ?d)"
    using assms by (auto simp: parseIPv6_def Let_def split: if_splits)
  have a: "list_all (\<lambda>c. isHex c \<or> c = CHR '':'' \<or> c = CHR ''.'') ?a"
    using assms parseGroups_chars [of "drop 2 ?a"] parseGroups_chars [of ?a]
    by (auto simp: parseIPv6_def Let_def HasPrefix_iff split: if_splits)
  have "s = ?a @ (if Zone addr = [] then [] else CHR ''%'' # Zone addr)"
  proof (cases ?d)
    case Nil
    have "s = ?a @ ?d" by simp
    then show ?thesis using zone(1) unfolding Nil by simp
  next
    case (Cons c r)
    then have "c = CHR ''%''" "c \<in> set s"
      using hd_dropWhile [of "\<lambda>c. c \<noteq> CHR ''%''" s] set_dropWhileD [of c _ s] by (auto, metis list.set_intros(1))
    then show ?thesis using zone Cons takeWhile_dropWhile_id [of "\<lambda>c. c \<noteq> CHR ''%''" s] by simp
  qed
  then show ?thesis using a zone by metis
qed

lemma ParseAddr_chars:
  assumes "ParseAddr s = Some addr"
  shows "\<exists>a. s = a @ (if Zone addr = [] then [] else CHR ''%'' # Zone addr) \<and> a \<noteq> []
    \<and> list_all (\<lambda>c. isHex c \<or> c = CHR '':'' \<or> c = CHR ''.'') a"
proof -
  have ne: "s \<noteq> []" using assms by (auto simp: ParseAddr_def)
  consider (four) ip where "parseIPv4Fields s 0 0 [] = Some ip" "addr = Addr4 ip" | (six) "parseIPv6 s = Some addr"
    using assms by (auto simp: ParseAddr_def split: list.splits if_splits)
  then show ?thesis
  proof cases
    case four
    then have "list_all (\<lambda>c. isHex c \<or> c = CHR '':'' \<or> c = CHR ''.'') s"
      using parseIPv4Fields_chars [OF four(1)] isHex_digit unfolding list_all_iff by blast
    then show ?thesis using four ne by auto
  next
    case six
    then obtain a where a: "s = a @ (if Zone addr = [] then [] else CHR ''%'' # Zone addr)"
        "list_all (\<lambda>c. isHex c \<or> c = CHR '':'' \<or> c = CHR ''.'') a"
      using parseIPv6_chars by blast
    have "a \<noteq> []"
    proof
      assume "a = []"
      then show False using a(1) assms ne by (auto simp: ParseAddr_def split: if_splits)
    qed
    then show ?thesis using a by blast
  qed
qed

section \<open>Which addresses are IPv4\<close>

lemma ParseIP_dotted:
  "a < 256 \<Longrightarrow> b < 256 \<Longrightarrow> c < 256 \<Longrightarrow> d < 256 \<Longrightarrow>
    \<exists>ip. ParseIP (dotted a b c d) = Some ip \<and> To4 ip = Some [a, b, c, d]"
  by (simp add: ParseIP_def ParseAddr_dotted To4_def)

lemma ParseIP_name:
  "CHR '':'' \<notin> set s \<Longrightarrow> c \<in> set s \<Longrightarrow> \<not> isDigit c \<Longrightarrow> c \<noteq> CHR ''.'' \<Longrightarrow> ParseIP s = None"
  by (simp add: ParseIP_def ParseAddr_name)

lemma groupBytes_append: "groupBytes (gs @ hs) = groupBytes gs @ groupBytes hs"
  by (simp add: groupBytes_def)

lemma groupBytes_inject: "groupBytes gs = groupBytes hs \<longleftrightarrow> gs = hs"
proof (induction gs arbitrary: hs)
  case (Cons g gs)
  show ?case
  proof (cases hs)
    case (Cons h hs')
    have "g div 256 = h div 256 \<and> g mod 256 = h mod 256 \<longleftrightarrow> g = h" by (metis div_mult_mod_eq)
    then show ?thesis using Cons.IH [of hs'] Cons by (auto simp: groupBytes_def)
  qed (simp add: groupBytes_def)
next
  case Nil
  then show ?case by (cases hs) (simp_all add: groupBytes_def)
qed

lemma take_groupBytes: "take (2 * n) (groupBytes gs) = groupBytes (take n gs)"
proof (induction gs arbitrary: n)
  case (Cons g gs)
  then show ?case by (cases n) (simp_all add: groupBytes_def)
qed (simp add: groupBytes_def)

text \<open>Sixteen bytes are an IPv4 address when its twelve first ones are \<open>::ffff:0:0\<close>.\<close>

lemma To4_groups:
  assumes "length gs = 8"
  shows "To4 (groupBytes gs) \<noteq> None \<longleftrightarrow> take 6 gs = [0, 0, 0, 0, 0, 65535]"
proof -
  have "replicate 10 (0 :: nat) = [0, 0, 0, 0, 0, 0, 0, 0, 0, 0]" by (simp add: eval_nat_numeral)
  then have "replicate 10 0 @ [255, 255] = groupBytes [0, 0, 0, 0, 0, 65535]" by (simp add: groupBytes_def)
  then have "To4 (groupBytes gs) \<noteq> None \<longleftrightarrow> groupBytes (take 6 gs) = groupBytes [0, 0, 0, 0, 0, 65535]"
    using assms(1) take_groupBytes [of 6 gs] by (simp add: To4_def)
  then show ?thesis by (simp add: groupBytes_inject)
qed

section \<open>A bare address names no port\<close>

lemma SplitHostPort_two_colons:
  assumes "s = a @ CHR '':'' # m @ CHR '':'' # b" and "hd s \<noteq> CHR ''[''"
  shows "SplitHostPort s = None"
proof -
  have "CHR '':'' \<in> set s" using assms(1) by simp
  then obtain x y where xy: "splitLast CHR '':'' s = Some (x, y)"
    using splitLast_None_iff [of "CHR '':''" s] by fastforce
  then have s: "s = x @ CHR '':'' # y" "CHR '':'' \<notin> set y" using splitLast_SomeD by blast+
  have "2 \<le> length (filter (\<lambda>c. c = CHR '':'') s)" using assms(1) by simp
  moreover have "filter (\<lambda>c. c = CHR '':'') y = []" using s(2) by (auto simp: filter_empty_conv)
  ultimately have "filter (\<lambda>c. c = CHR '':'') x \<noteq> []" unfolding s(1) by auto
  then have "CHR '':'' \<in> set x" by (auto simp: filter_empty_conv)
  then show ?thesis using xy assms(2) by (simp add: SplitHostPort_def)
qed

text \<open>An IPv6 address as it is written, in full or with one \<open>::\<close>, and the bytes it stands for.\<close>

definition ip6Text :: "nat list \<Rightarrow> nat list \<Rightarrow> string \<Rightarrow> bool" where
  "ip6Text gs hs s \<longleftrightarrow>
     (\<forall>g \<in> set (gs @ hs). g < 65536)
     \<and> (length gs = 8 \<and> hs = [] \<and> s = grouped gs \<or> length gs + length hs \<le> 7 \<and> s = shortForm gs hs)"

definition ip6Groups :: "nat list \<Rightarrow> nat list \<Rightarrow> nat list" where
  "ip6Groups gs hs = gs @ replicate (8 - (length gs + length hs)) 0 @ hs"

lemma groupBytes_zeros: "groupBytes (replicate n 0) = replicate (2 * n) 0"
  by (induction n) (simp_all add: groupBytes_def)

lemma ip6Text_ParseAddr: "ip6Text gs hs s \<Longrightarrow> ParseAddr s = Some (Addr6 (groupBytes (ip6Groups gs hs)) [])"
  using ParseAddr_full [of gs] ParseAddr_short [of gs hs]
  by (auto simp: ip6Text_def ip6Groups_def groupBytes_append groupBytes_zeros groupBytes_def [of "[]"] right_diff_distrib')

lemma ip6Text_chars: "ip6Text gs hs s \<Longrightarrow> list_all (\<lambda>c. isHex c \<or> c = CHR '':'') s"
  using grouped_chars by (auto simp: ip6Text_def shortForm_def)

lemma ip6Text_colons:
  assumes "ip6Text gs hs s"
  shows "\<exists>a m b. s = a @ CHR '':'' # m @ CHR '':'' # b"
proof (cases "length gs = 8")
  case True
  then obtain g h i where gs: "gs = g # h # i" "i \<noteq> []" by (cases gs; cases "tl gs"; cases "tl (tl gs)") auto
  then have "s = hexText g @ CHR '':'' # hexText h @ CHR '':'' # grouped i"
    using assms True by (auto simp: ip6Text_def grouped_Cons)
  then show ?thesis by blast
next
  case False
  then have "s = grouped gs @ CHR '':'' # [] @ CHR '':'' # grouped hs" using assms by (simp add: ip6Text_def shortForm_def)
  then show ?thesis by blast
qed

lemma ip6Text_bare:
  assumes "ip6Text gs hs s"
  shows "SplitHostPort s = None" "s \<noteq> []" "CHR '':'' \<in> set s" "CHR ''['' \<notin> set s" "CHR '']'' \<notin> set s"
proof -
  have chars: "\<forall>c \<in> set s. isHex c \<or> c = CHR '':''" using ip6Text_chars [OF assms] by (simp add: list_all_iff)
  show no: "CHR ''['' \<notin> set s" "CHR '']'' \<notin> set s" using chars not_hex by auto
  obtain a m b where s: "s = a @ CHR '':'' # m @ CHR '':'' # b" using ip6Text_colons [OF assms] by blast
  then show ne: "s \<noteq> []" and "CHR '':'' \<in> set s" by simp_all
  have "hd s \<noteq> CHR ''[''" using no(1) hd_in_set [OF ne] by auto
  then show "SplitHostPort s = None" using SplitHostPort_two_colons [OF s] by blast
qed

lemma dotted_chars: "list_all (\<lambda>c. isDigit c \<or> c = CHR ''.'') (dotted a b c d)"
  using showDigits_digits by (auto simp: dotted_def list_all_iff)

lemma dotted_bare:
  "SplitHostPort (dotted a b c d) = None" "dotted a b c d \<noteq> []" "CHR '':'' \<notin> set (dotted a b c d)"
  "CHR ''['' \<notin> set (dotted a b c d)" "CHR '']'' \<notin> set (dotted a b c d)"
proof -
  have chars: "\<forall>c \<in> set (dotted a b c d). isDigit c \<or> c = CHR ''.''"
    using dotted_chars [of a b c d] by (simp add: list_all_iff)
  then show "CHR ''['' \<notin> set (dotted a b c d)" "CHR '']'' \<notin> set (dotted a b c d)"
    and colon: "CHR '':'' \<notin> set (dotted a b c d)" using not_digit by auto
  then show "SplitHostPort (dotted a b c d) = None"
    using splitLast_None_iff [of "CHR '':''" "dotted a b c d"] by (simp add: SplitHostPort_def)
qed (simp add: dotted_def)

end
