(* ===== verification/Go_Url.thy ===== *)
theory Go_Url
  imports Go_Net Go_Path
begin

text \<open>
  What the code uses of \<open>net/url\<close>, as of the Go release \<open>go.mod\<close> names (1.25): \<open>url.Parse\<close> with the
  escaping it undoes, \<open>URL.Hostname\<close>, \<open>URL.Port\<close>, \<open>URL.String\<close> and \<open>url.JoinPath\<close>; and the host of
  the request \<open>http.NewRequestWithContext\<close> makes.
\<close>

section \<open>URLs\<close>

record URL =
  Scheme :: string
  Opaque :: string
  User :: "(string \<times> string option) option"
  Host :: string
  Path :: string
  RawPath :: string
  OmitHost :: bool
  ForceQuery :: bool
  RawQuery :: string
  Fragment :: string
  RawFragment :: string

definition emptyURL :: URL where
  "emptyURL = \<lparr>Scheme = [], Opaque = [], User = None, Host = [], Path = [], RawPath = [], OmitHost = False,
     ForceQuery = False, RawQuery = [], Fragment = [], RawFragment = []\<rparr>"

text \<open>\<open>strings.Cut\<close> at a character: before it, after it, whether it is there.\<close>

definition Cut :: "char \<Rightarrow> string \<Rightarrow> string \<times> string \<times> bool" where
  "Cut c s = (takeWhile (\<lambda>x. x \<noteq> c) s, tl (dropWhile (\<lambda>x. x \<noteq> c) s), c \<in> set s)"

section \<open>Escaping\<close>

datatype encoding = encodePath | encodeHost | encodeZone | encodeUserPassword | encodeFragment | encodeQueryComponent

definition isLetter :: "char \<Rightarrow> bool" where
  "isLetter c \<longleftrightarrow> 97 \<le> codeOf c \<and> codeOf c \<le> 122 \<or> 65 \<le> codeOf c \<and> codeOf c \<le> 90"

definition alnum :: "char \<Rightarrow> bool" where
  "alnum c \<longleftrightarrow> isLetter c \<or> isDigit c"

definition quote :: char where "quote = CHR 0x22"
definition apostrophe :: char where "apostrophe = CHR 0x27"

definition hostDelims :: "char set" where
  "hostDelims = insert quote (insert apostrophe (set ''!$&()*+,;=:[]<>''))"

definition shouldEscape :: "char \<Rightarrow> encoding \<Rightarrow> bool" where
  "shouldEscape c mode =
     (if alnum c then False
      else if (mode = encodeHost \<or> mode = encodeZone) \<and> c \<in> hostDelims then False
      else if c \<in> set ''-_.~'' then False
      else if c \<in> set ''$&+,/:;=?@'' \<and> mode = encodePath then c = CHR ''?''
      else if c \<in> set ''$&+,/:;=?@'' \<and> mode = encodeUserPassword then c \<in> set ''@/?:''
      else if c \<in> set ''$&+,/:;=?@'' \<and> mode = encodeFragment then False
      else if mode = encodeFragment \<and> c \<in> set ''!()*'' then False
      else True)"

definition EscapeError :: "string \<Rightarrow> error" where
  "EscapeError s = Errorf ''invalid URL escape %q'' [s]"

definition InvalidHostError :: "string \<Rightarrow> error" where
  "InvalidHostError s = Errorf ''invalid character %q in host name'' [s]"

definition unhex :: "char \<Rightarrow> nat" where
  "unhex c = the (hexVal c)"

text \<open>The escapes a host or a zone may not hold.\<close>

definition forbiddenEscape :: "encoding \<Rightarrow> char \<Rightarrow> char \<Rightarrow> bool" where
  "forbiddenEscape mode a b \<longleftrightarrow>
     mode = encodeHost \<and> unhex a < 8 \<and> [a, b] \<noteq> ''25''
     \<or> mode = encodeZone \<and> [a, b] \<noteq> ''25'' \<and> 16 * unhex a + unhex b \<noteq> 32
        \<and> shouldEscape (byteOf (16 * unhex a + unhex b)) encodeHost"

fun unescape :: "encoding \<Rightarrow> string \<Rightarrow> error + string" where
  "unescape mode [] = Inr []"
| "unescape mode (c # s) =
     (if c = CHR ''%'' then
        (case s of
           a # b # r \<Rightarrow>
             if \<not> isHex a \<or> \<not> isHex b then Inl (EscapeError [c, a, b])
             else if forbiddenEscape mode a b then Inl (EscapeError [c, a, b])
             else map_sum id (\<lambda>t. byteOf (16 * unhex a + unhex b) # t) (unescape mode r)
         | _ \<Rightarrow> Inl (EscapeError (c # s)))
      else if (mode = encodeHost \<or> mode = encodeZone) \<and> codeOf c < 128 \<and> shouldEscape c mode
      then Inl (InvalidHostError [c])
      else map_sum id (\<lambda>t. (if c = CHR ''+'' \<and> mode = encodeQueryComponent then CHR '' '' else c) # t) (unescape mode s))"

definition escape :: "encoding \<Rightarrow> string \<Rightarrow> string" where
  "escape mode s =
     concat (map (\<lambda>c. if shouldEscape c mode
                      then [CHR ''%'', hexDigit True (codeOf c div 16), hexDigit True (codeOf c mod 16)]
                      else [c]) s)"

section \<open>The parts of a URL\<close>

text \<open>\<open>getScheme\<close>: \<open>Inr (scheme, rest)\<close>, with no scheme when the text cannot start with one.\<close>

fun schemeFrom :: "string \<Rightarrow> string \<Rightarrow> string \<Rightarrow> error + string \<times> string" where
  "schemeFrom rawURL seen [] = Inr ([], rawURL)"
| "schemeFrom rawURL seen (c # s) =
     (if isLetter c then schemeFrom rawURL (seen @ [c]) s
      else if isDigit c \<or> c \<in> set ''+-.'' then
        (if seen = [] then Inr ([], rawURL) else schemeFrom rawURL (seen @ [c]) s)
      else if c = CHR '':'' then
        (if seen = [] then Inl (Errorf ''missing protocol scheme'' []) else Inr (seen, s))
      else Inr ([], rawURL))"

definition lowerChar :: "char \<Rightarrow> char" where
  "lowerChar c = (if 65 \<le> codeOf c \<and> codeOf c \<le> 90 then byteOf (codeOf c + 32) else c)"

definition validOptionalPort :: "string \<Rightarrow> bool" where
  "validOptionalPort port \<longleftrightarrow> port = [] \<or> (hd port = CHR '':'' \<and> list_all isDigit (tl port))"

definition invalidPort :: "string \<Rightarrow> error" where
  "invalidPort colonPort = Errorf ''invalid port %q after host'' [colonPort]"

text \<open>Where \<open>p\<close> first starts in \<open>s\<close>: the text before it and the text from it on.\<close>

fun cutAt :: "string \<Rightarrow> string \<Rightarrow> (string \<times> string) option" where
  "cutAt p [] = (if p = [] then Some ([], []) else None)"
| "cutAt p (c # s) =
     (if HasPrefix (c # s) p then Some ([], c # s)
      else map_option (\<lambda>(a, b). (c # a, b)) (cutAt p s))"

definition parseLiteral :: "string \<Rightarrow> string \<Rightarrow> error + string" where
  "parseLiteral hostname colonPort =
     andThen
       (case cutAt ''%25'' hostname of
          Some (a, b) \<Rightarrow> andThen (unescape encodeHost a) (\<lambda>h. andThen (unescape encodeZone b) (\<lambda>z. Inr (h @ z)))
        | None \<Rightarrow> unescape encodeHost hostname)
       (\<lambda>h. case ParseAddr h of
              None \<Rightarrow> Inl (Errorf ''invalid host: %w'' [h])
            | Some (Addr4 ip) \<Rightarrow> Inl (Errorf ''invalid IP-literal'' [])
            | Some (Addr6 ip zone) \<Rightarrow> Inr (CHR ''['' # h @ CHR '']'' # colonPort))"

definition parseHost :: "string \<Rightarrow> error + string" where
  "parseHost h =
     (case splitLast CHR ''['' h of
        Some (before, after) \<Rightarrow>
          if before \<noteq> [] then Inl (Errorf ''invalid IP-literal'' [])
          else
            (case splitLast CHR '']'' h of
               None \<Rightarrow> Inl (Errorf ''missing bracket in host'' [])
             | Some (literal, colonPort) \<Rightarrow>
                 if \<not> validOptionalPort colonPort then Inl (invalidPort colonPort)
                 else parseLiteral (tl literal) colonPort)
      | None \<Rightarrow>
          (case splitLast CHR '':'' h of
             Some (name, port) \<Rightarrow>
               if \<not> validOptionalPort (CHR '':'' # port) then Inl (invalidPort (CHR '':'' # port))
               else unescape encodeHost h
           | None \<Rightarrow> unescape encodeHost h))"

definition validUserinfo :: "string \<Rightarrow> bool" where
  "validUserinfo s \<longleftrightarrow> list_all (\<lambda>c. alnum c \<or> c = apostrophe \<or> c \<in> set ''-._:~!$&()*+,;=%@'') s"

definition parseUserinfo :: "string \<Rightarrow> error + (string \<times> string option)" where
  "parseUserinfo info =
     (if \<not> validUserinfo info then Inl (Errorf ''net/url: invalid userinfo'' [])
      else
        case Cut CHR '':'' info of (name, password, found) \<Rightarrow>
          if \<not> found then map_sum id (\<lambda>n. (n, None)) (unescape encodeUserPassword info)
          else andThen (unescape encodeUserPassword name) (\<lambda>n.
               andThen (unescape encodeUserPassword password) (\<lambda>p. Inr (n, Some p))))"

definition parseAuthority :: "string \<Rightarrow> error + (string \<times> string option) option \<times> string" where
  "parseAuthority authority =
     (case splitLast CHR ''@'' authority of
        None \<Rightarrow> map_sum id (\<lambda>h. (None, h)) (parseHost authority)
      | Some (info, h) \<Rightarrow>
          andThen (parseHost h) (\<lambda>h'. andThen (parseUserinfo info) (\<lambda>u. Inr (Some u, h'))))"

definition setPath :: "string \<Rightarrow> URL \<Rightarrow> error + URL" where
  "setPath p u =
     andThen (unescape encodePath p) (\<lambda>path.
       Inr (u\<lparr>Path := path, RawPath := if p = escape encodePath path then [] else p\<rparr>))"

definition setFragment :: "string \<Rightarrow> URL \<Rightarrow> error + URL" where
  "setFragment f u =
     andThen (unescape encodeFragment f) (\<lambda>frag.
       Inr (u\<lparr>Fragment := frag, RawFragment := if f = escape encodeFragment frag then [] else f\<rparr>))"

section \<open>url.Parse\<close>

text \<open>The message of an error names the URL; how it is quoted there is left out.\<close>

definition containsCTLByte :: "string \<Rightarrow> bool" where
  "containsCTLByte s \<longleftrightarrow> list_ex (\<lambda>c. codeOf c < 32 \<or> codeOf c = 127) s"

text \<open>The query: \<open>(rest, RawQuery, ForceQuery)\<close>.\<close>

definition cutQuery :: "string \<Rightarrow> string \<times> string \<times> bool" where
  "cutQuery rest =
     (case Cut CHR ''?'' rest of (before, query, found) \<Rightarrow>
        if found \<and> query = [] then (before, [], True) else (before, query, False))"

definition parseURL :: "string \<Rightarrow> error + URL" where
  "parseURL rawURL =
     (if containsCTLByte rawURL then Inl (Errorf ''net/url: invalid control character in URL'' [])
      else if rawURL = ''*'' then Inr (emptyURL\<lparr>Path := ''*''\<rparr>)
      else
        andThen (schemeFrom rawURL [] rawURL) (\<lambda>(scheme, afterScheme).
          case cutQuery afterScheme of (rest, query, force) \<Rightarrow>
          let u = emptyURL\<lparr>Scheme := map lowerChar scheme, RawQuery := query, ForceQuery := force\<rparr> in
          if \<not> HasPrefix rest ''/'' \<and> Scheme u \<noteq> [] then Inr (u\<lparr>Opaque := rest\<rparr>)
          else if \<not> HasPrefix rest ''/'' \<and> CHR '':'' \<in> set (fst (Cut CHR ''/'' rest)) then
            Inl (Errorf ''first path segment in URL cannot contain colon'' [])
          else if (Scheme u \<noteq> [] \<or> \<not> HasPrefix rest ''///'') \<and> HasPrefix rest ''//'' then
            andThen (parseAuthority (takeWhile (\<lambda>c. c \<noteq> CHR ''/'') (drop 2 rest))) (\<lambda>(user, h).
              setPath (dropWhile (\<lambda>c. c \<noteq> CHR ''/'') (drop 2 rest)) (u\<lparr>User := user, Host := h\<rparr>))
          else if Scheme u \<noteq> [] \<and> HasPrefix rest ''/'' then setPath rest (u\<lparr>OmitHost := True\<rparr>)
          else setPath rest u))"

definition url_Parse :: "string \<Rightarrow> error + URL" where
  "url_Parse rawURL =
     (case Cut CHR ''#'' rawURL of (u, frag, found) \<Rightarrow>
        case parseURL u of
          Inl e \<Rightarrow> Inl (Wrapped (''parse '' @ u) e)
        | Inr url \<Rightarrow>
            if frag = [] then Inr url
            else (case setFragment frag url of
                    Inl e \<Rightarrow> Inl (Wrapped (''parse '' @ rawURL) e)
                  | Inr url' \<Rightarrow> Inr url'))"

section \<open>Hostname and Port\<close>

definition splitHostPort :: "string \<Rightarrow> string \<times> string" where
  "splitHostPort hostPort =
     (let (h, port) =
        (case splitLast CHR '':'' hostPort of
           Some (a, b) \<Rightarrow> if validOptionalPort (CHR '':'' # b) then (a, b) else (hostPort, [])
         | None \<Rightarrow> (hostPort, []))
      in (if h \<noteq> [] \<and> hd h = CHR ''['' \<and> last h = CHR '']'' then butlast (tl h) else h, port))"

definition URL_Hostname :: "URL \<Rightarrow> string" where
  "URL_Hostname u = fst (splitHostPort (Host u))"

definition URL_Port :: "URL \<Rightarrow> string" where
  "URL_Port u = snd (splitHostPort (Host u))"

section \<open>String and JoinPath\<close>

definition validEncoded :: "string \<Rightarrow> encoding \<Rightarrow> bool" where
  "validEncoded s mode \<longleftrightarrow> list_all (\<lambda>c. c = apostrophe \<or> c \<in> set ''!$&()*+,;=:@[]%'' \<or> \<not> shouldEscape c mode) s"

definition EscapedPath :: "URL \<Rightarrow> string" where
  "EscapedPath u =
     (if RawPath u \<noteq> [] \<and> validEncoded (RawPath u) encodePath \<and> unescape encodePath (RawPath u) = Inr (Path u) then RawPath u
      else if Path u = ''*'' then ''*'' else escape encodePath (Path u))"

definition EscapedFragment :: "URL \<Rightarrow> string" where
  "EscapedFragment u =
     (if RawFragment u \<noteq> [] \<and> validEncoded (RawFragment u) encodeFragment
         \<and> unescape encodeFragment (RawFragment u) = Inr (Fragment u) then RawFragment u
      else escape encodeFragment (Fragment u))"

definition userString :: "string \<times> string option \<Rightarrow> string" where
  "userString u =
     (case u of (name, password) \<Rightarrow>
        escape encodeUserPassword name
        @ (case password of None \<Rightarrow> [] | Some p \<Rightarrow> CHR '':'' # escape encodeUserPassword p))"

definition authorityString :: "URL \<Rightarrow> string" where
  "authorityString u =
     (if Scheme u = [] \<and> Host u = [] \<and> User u = None then []
      else if OmitHost u \<and> Host u = [] \<and> User u = None then []
      else (if Host u \<noteq> [] \<or> Path u \<noteq> [] \<or> User u \<noteq> None then ''//'' else [])
        @ (case User u of None \<Rightarrow> [] | Some info \<Rightarrow> userString info @ ''@'')
        @ escape encodeHost (Host u))"

definition URL_String :: "URL \<Rightarrow> string" where
  "URL_String u =
     (let scheme = (if Scheme u \<noteq> [] then Scheme u @ '':'' else []);
          front = scheme @ authorityString u;
          path = EscapedPath u;
          slash = (if path \<noteq> [] \<and> hd path \<noteq> CHR ''/'' \<and> Host u \<noteq> [] then ''/'' else []);
          dot = (if front @ slash = [] \<and> CHR '':'' \<in> set (fst (Cut CHR ''/'' path)) then ''./'' else [])
      in (if Opaque u \<noteq> [] then scheme @ Opaque u else front @ slash @ dot @ path)
         @ (if ForceQuery u \<or> RawQuery u \<noteq> [] then CHR ''?'' # RawQuery u else [])
         @ (if Fragment u \<noteq> [] then CHR ''#'' # EscapedFragment u else []))"

definition path_Join :: "string list \<Rightarrow> string" where
  "path_Join elems =
     (let kept = dropWhile (\<lambda>e. e = []) elems in if kept = [] then [] else Clean (joinChar CHR ''/'' kept))"

definition URL_JoinPath :: "URL \<Rightarrow> string list \<Rightarrow> error + URL" where
  "URL_JoinPath u elems =
     (let base = EscapedPath u; lastElem = last (base # elems);
          p = (if HasPrefix base ''/'' then path_Join (base # elems) else tl (path_Join ((CHR ''/'' # base) # elems)));
          p' = (if HasPrefix (rev lastElem) ''/'' \<and> \<not> HasPrefix (rev p) ''/'' then p @ ''/'' else p)
      in setPath p' u)"

definition url_JoinPath :: "string \<Rightarrow> string list \<Rightarrow> error + string" where
  "url_JoinPath base elems = andThen (url_Parse base) (\<lambda>u. map_sum id URL_String (URL_JoinPath u elems))"

section \<open>The host of a request\<close>

definition hasPort :: "string \<Rightarrow> bool" where
  "hasPort s \<longleftrightarrow>
     (case splitLast CHR '':'' s of None \<Rightarrow> False | Some (a, b) \<Rightarrow> CHR '']'' \<notin> set b)"

definition removeEmptyPort :: "string \<Rightarrow> string" where
  "removeEmptyPort h = (if hasPort h \<and> last h = CHR '':'' then butlast h else h)"

text \<open>\<open>request.URL\<close> of a request for a URL.\<close>

definition requestURL :: "string \<Rightarrow> error + URL" where
  "requestURL url = map_sum id (\<lambda>u. u\<lparr>Host := removeEmptyPort (Host u)\<rparr>) (url_Parse url)"

section \<open>Plain URLs\<close>

text \<open>
  URLs as gateways are configured: a scheme, a host that is a name, an IPv4 or an IPv6 address, a port
  or none, and a path of plain elements. They hold nothing that has to be escaped.
\<close>

definition nameChar :: "char \<Rightarrow> bool" where
  "nameChar c \<longleftrightarrow> alnum c \<or> c \<in> set ''-_.~''"

definition bracketed :: "string \<Rightarrow> string" where
  "bracketed h = (if CHR '':'' \<in> set h then CHR ''['' # h @ '']'' else h)"

definition authority :: "string \<Rightarrow> string \<Rightarrow> string" where
  "authority h port = bracketed h @ (if port = [] then [] else CHR '':'' # port)"

definition hostText :: "string \<Rightarrow> bool" where
  "hostText h \<longleftrightarrow> (h \<noteq> [] \<and> list_all nameChar h) \<or> (\<exists>gs hs. ip6Text gs hs h)"

lemma code_cases:
  "codeOf CHR ''%'' = 37" "codeOf CHR '':'' = 58" "codeOf CHR ''/'' = 47" "codeOf CHR ''?'' = 63"
  "codeOf CHR ''#'' = 35" "codeOf CHR ''@'' = 64" "codeOf CHR ''['' = 91" "codeOf CHR '']'' = 93"
  "codeOf CHR ''-'' = 45" "codeOf CHR ''_'' = 95" "codeOf CHR ''.'' = 46" "codeOf CHR ''~'' = 126"
  "codeOf CHR ''*'' = 42"
  by (simp_all add: codeOf_def)

lemma isDigit_code: "isDigit c \<longleftrightarrow> 48 \<le> codeOf c \<and> codeOf c \<le> 57"
  by (simp add: isDigit_def codeOf_def)

lemma isHex_code:
  "isHex c \<longleftrightarrow> 48 \<le> codeOf c \<and> codeOf c \<le> 57 \<or> 97 \<le> codeOf c \<and> codeOf c \<le> 102 \<or> 65 \<le> codeOf c \<and> codeOf c \<le> 70"
  by (auto simp: isHex_def hexVal_def Let_def)

lemma isHex_alnum: "isHex c \<Longrightarrow> alnum c"
  by (auto simp: isHex_code alnum_def isLetter_def isDigit_code)

lemma isDigit_alnum: "isDigit c \<Longrightarrow> alnum c"
  by (simp add: alnum_def)

lemma alnum_neq:
  "alnum c \<Longrightarrow> c \<notin> set ''%:/?#@[]-_.~*''"
  by (auto simp: alnum_def isLetter_def isDigit_code code_cases)

lemma alnum_not_ctl: "alnum c \<Longrightarrow> \<not> (codeOf c < 32 \<or> codeOf c = 127)"
  by (auto simp: alnum_def isLetter_def isDigit_code)

lemma nameChar_neq: "nameChar c \<Longrightarrow> c \<notin> set ''%:/?#@[]*''"
  using alnum_neq [of c] by (cases "alnum c") (auto simp: nameChar_def)

lemma nameChar_not_ctl: "nameChar c \<Longrightarrow> \<not> (codeOf c < 32 \<or> codeOf c = 127)"
  using alnum_not_ctl [of c] by (cases "alnum c") (auto simp: nameChar_def code_cases)

lemma nameChar_plain: "nameChar c \<Longrightarrow> \<not> shouldEscape c mode"
  by (cases "alnum c"; cases "c \<in> set ''-_.~''") (simp_all add: nameChar_def shouldEscape_def del: list.set)

lemma unescape_plain:
  "list_all (\<lambda>c. c \<noteq> CHR ''%'' \<and> \<not> shouldEscape c mode) s \<Longrightarrow> unescape mode s = Inr s"
proof (induction s)
  case (Cons c s)
  have "shouldEscape CHR ''+'' encodeQueryComponent" by code_simp
  with Cons show ?case by auto
qed simp

lemma escape_plain: "list_all (\<lambda>c. \<not> shouldEscape c mode) s \<Longrightarrow> escape mode s = s"
  by (induction s) (simp_all add: escape_def)

text \<open>The characters of each part.\<close>

definition authorityChar :: "char \<Rightarrow> bool" where
  "authorityChar c \<longleftrightarrow> nameChar c \<or> c \<in> set '':[]''"

definition pathChar :: "char \<Rightarrow> bool" where
  "pathChar c \<longleftrightarrow> nameChar c \<or> c = CHR ''/''"

lemma hostText_chars: "hostText h \<Longrightarrow> list_all (\<lambda>c. nameChar c \<or> c = CHR '':'') h"
  using ip6Text_chars isHex_alnum by (fastforce simp: hostText_def list_all_iff nameChar_def)

lemma hostText_plain:
  assumes "hostText h"
  shows "h \<noteq> []" "CHR ''['' \<notin> set h" "CHR '']'' \<notin> set h" "CHR ''@'' \<notin> set h" "CHR ''/'' \<notin> set h" "CHR ''%'' \<notin> set h"
proof -
  have chars: "\<forall>c \<in> set h. nameChar c \<or> c = CHR '':''" using hostText_chars [OF assms] by (simp add: list_all_iff)
  show "h \<noteq> []" using assms ip6Text_bare(2) by (auto simp: hostText_def)
  show "CHR ''['' \<notin> set h" "CHR '']'' \<notin> set h" "CHR ''@'' \<notin> set h" "CHR ''/'' \<notin> set h" "CHR ''%'' \<notin> set h"
    using chars nameChar_neq by fastforce+
qed

lemma authority_chars:
  assumes "hostText h" and "list_all isDigit port"
  shows "list_all authorityChar (authority h port)"
proof -
  have "list_all authorityChar h" using hostText_chars [OF assms(1)] by (auto simp: list_all_iff authorityChar_def)
  moreover have "list_all authorityChar port"
    using assms(2) isDigit_alnum by (auto simp: list_all_iff authorityChar_def nameChar_def)
  ultimately show ?thesis by (simp add: authority_def bracketed_def authorityChar_def)
qed

lemma authorityChar_plain: "authorityChar c \<Longrightarrow> \<not> shouldEscape c encodeHost"
proof -
  have "\<not> shouldEscape c encodeHost" if "c \<in> set '':[]''"
    using that by (auto simp: shouldEscape_def hostDelims_def)
  then show "authorityChar c \<Longrightarrow> ?thesis" using nameChar_plain by (auto simp: authorityChar_def)
qed

lemma authorityChar_neq: "authorityChar c \<Longrightarrow> c \<notin> set ''%/?#@''"
  using nameChar_neq [of c] by (cases "nameChar c") (auto simp: authorityChar_def)

lemma authorityChar_not_ctl: "authorityChar c \<Longrightarrow> \<not> (codeOf c < 32 \<or> codeOf c = 127)"
  using nameChar_not_ctl [of c] by (cases "nameChar c") (auto simp: authorityChar_def code_cases)

lemma pathChar_plain: "pathChar c \<Longrightarrow> \<not> shouldEscape c encodePath"
  using nameChar_plain [of c] by (cases "nameChar c") (auto simp: pathChar_def shouldEscape_def)

lemma pathChar_neq: "pathChar c \<Longrightarrow> c \<notin> set ''%?#*''"
  using nameChar_neq [of c] by (cases "nameChar c") (auto simp: pathChar_def)

lemma pathChar_not_ctl: "pathChar c \<Longrightarrow> \<not> (codeOf c < 32 \<or> codeOf c = 127)"
  using nameChar_not_ctl [of c] by (cases "nameChar c") (auto simp: pathChar_def code_cases)

lemma digits_no_colon: "list_all isDigit port \<Longrightarrow> CHR '':'' \<notin> set port"
  using not_digit by (auto simp: list_all_iff)

section \<open>Parsing a plain URL\<close>

lemma cutAt_None: "CHR ''%'' \<notin> set s \<Longrightarrow> cutAt ''%25'' s = None"
  by (induction s) (auto simp: HasPrefix_def)

lemma unescape_authority: "list_all authorityChar s \<Longrightarrow> unescape encodeHost s = Inr s"
proof -
  assume s: "list_all authorityChar s"
  have "c \<noteq> CHR ''%'' \<and> \<not> shouldEscape c encodeHost" if "c \<in> set s" for c
    using that s authorityChar_plain [of c] authorityChar_neq [of c] by (auto simp: list_all_iff)
  then show ?thesis by (intro unescape_plain) (simp add: list_all_iff)
qed

lemma hostText_authority: "hostText h \<Longrightarrow> list_all authorityChar h"
  using hostText_chars [of h] by (auto simp: list_all_iff authorityChar_def)

lemma parseHost_name:
  assumes "h \<noteq> []" "list_all nameChar h" and "list_all isDigit port"
  shows "parseHost (authority h port) = Inr (authority h port)"
proof -
  have host: "hostText h" using assms(1,2) by (simp add: hostText_def)
  note plain = hostText_plain [OF host]
  have colon: "CHR '':'' \<notin> set h" using assms(2) nameChar_neq by (fastforce simp: list_all_iff)
  then have b: "bracketed h = h" by (simp add: bracketed_def)
  have un: "unescape encodeHost (authority h port) = Inr (authority h port)"
    using authority_chars [OF host assms(3)] by (rule unescape_authority)
  have "CHR ''['' \<notin> set port" using assms(3) not_digit by (auto simp: list_all_iff)
  then have "splitLast CHR ''['' (authority h port) = None"
    using plain by (simp add: splitLast_None_iff authority_def b)
  moreover have "splitLast CHR '':'' (authority h port) = (if port = [] then None else Some (h, port))"
    using colon splitLast_append [OF digits_no_colon [OF assms(3)], of h] by (simp add: authority_def b splitLast_None_iff)
  ultimately show ?thesis using un assms(3) by (cases "port = []") (simp_all add: parseHost_def validOptionalPort_def)
qed

lemma parseHost_ip6:
  assumes "ip6Text gs hs h" and "list_all isDigit port"
  shows "parseHost (authority h port) = Inr (authority h port)"
proof -
  have host: "hostText h" using assms(1) by (auto simp: hostText_def)
  note plain = hostText_plain [OF host]
  let ?colonPort = "if port = [] then [] else CHR '':'' # port"
  have auth: "authority h port = CHR ''['' # h @ CHR '']'' # ?colonPort"
    using ip6Text_bare(3) [OF assms(1)] by (simp add: authority_def bracketed_def)
  have br: "CHR ''['' \<notin> set ?colonPort" "CHR '']'' \<notin> set ?colonPort"
    using assms(2) not_digit by (auto simp: list_all_iff)
  have "splitLast CHR ''['' ([] @ CHR ''['' # (h @ CHR '']'' # ?colonPort)) = Some ([], h @ CHR '']'' # ?colonPort)"
    using plain br by (intro splitLast_append) simp
  moreover have "splitLast CHR '']'' ((CHR ''['' # h) @ CHR '']'' # ?colonPort) = Some (CHR ''['' # h, ?colonPort)"
    using br by (intro splitLast_append) simp
  moreover have "unescape encodeHost h = Inr h"
    using hostText_authority [OF host] by (rule unescape_authority)
  ultimately show ?thesis
    using plain(6) assms(2) ip6Text_ParseAddr [OF assms(1)]
    by (simp add: auth parseHost_def validOptionalPort_def parseLiteral_def cutAt_None)
qed

lemma parseAuthority_plain:
  assumes "hostText h" and "list_all isDigit port"
  shows "parseAuthority (authority h port) = Inr (None, authority h port)"
proof -
  have "CHR ''@'' \<notin> set (authority h port)"
    using authority_chars [OF assms] authorityChar_neq by (fastforce simp: list_all_iff)
  then have "splitLast CHR ''@'' (authority h port) = None" by (simp add: splitLast_None_iff)
  moreover have "parseHost (authority h port) = Inr (authority h port)"
    using assms parseHost_name [of h port] parseHost_ip6 [of _ _ h port] unfolding hostText_def by blast
  ultimately show ?thesis by (simp add: parseAuthority_def)
qed

definition schemeText :: "string \<Rightarrow> bool" where
  "schemeText s \<longleftrightarrow> s \<noteq> [] \<and> list_all (\<lambda>c. 97 \<le> codeOf c \<and> codeOf c \<le> 122) s"

definition pathText :: "string \<Rightarrow> bool" where
  "pathText p \<longleftrightarrow> list_all pathChar p \<and> (p = [] \<or> hd p = CHR ''/'')"

definition queryText :: "string \<Rightarrow> bool" where
  "queryText q \<longleftrightarrow> list_all (\<lambda>c. c \<noteq> CHR ''#'' \<and> \<not> (codeOf c < 32 \<or> codeOf c = 127)) q"

definition plainURL :: "string \<Rightarrow> string \<Rightarrow> string \<Rightarrow> string \<Rightarrow> string \<Rightarrow> string" where
  "plainURL scheme h port path query =
     scheme @ ''://'' @ authority h port @ path @ (if query = [] then [] else CHR ''?'' # query)"

definition partsOf :: "string \<Rightarrow> string \<Rightarrow> string \<Rightarrow> string \<Rightarrow> string \<Rightarrow> URL" where
  "partsOf scheme h port path query =
     emptyURL\<lparr>Scheme := scheme, Host := authority h port, Path := path, RawQuery := query\<rparr>"

lemma partsOf_simps [simp]:
  "Scheme (partsOf scheme h port path query) = scheme" "Host (partsOf scheme h port path query) = authority h port"
  "Path (partsOf scheme h port path query) = path" "RawQuery (partsOf scheme h port path query) = query"
  "RawPath (partsOf scheme h port path query) = []" "Opaque (partsOf scheme h port path query) = []"
  "User (partsOf scheme h port path query) = None" "\<not> OmitHost (partsOf scheme h port path query)"
  "\<not> ForceQuery (partsOf scheme h port path query)" "Fragment (partsOf scheme h port path query) = []"
  by (simp_all add: partsOf_def emptyURL_def)

lemma schemeText_letters:
  assumes "schemeText s"
  shows "list_all isLetter s" "map lowerChar s = s"
proof -
  have "\<forall>c \<in> set s. 97 \<le> codeOf c \<and> codeOf c \<le> 122" using assms by (simp add: schemeText_def list_all_iff)
  then show "list_all isLetter s" "map lowerChar s = s"
    by (auto simp: isLetter_def lowerChar_def list_all_iff intro!: map_idI)
qed

lemma schemeFrom_letters:
  "list_all isLetter s \<Longrightarrow> seen @ s \<noteq> [] \<Longrightarrow> schemeFrom raw seen (s @ CHR '':'' # r) = Inr (seen @ s, r)"
proof (induction s arbitrary: seen)
  case Nil
  then show ?case by (simp add: isLetter_def code_cases isDigit_code)
qed simp

lemma plainURL_chars:
  assumes "schemeText scheme" "hostText h" "list_all isDigit port" "pathText path" "queryText query" "c \<in> set (plainURL scheme h port path query)"
  shows "\<not> (codeOf c < 32 \<or> codeOf c = 127) \<and> c \<noteq> CHR ''#''"
proof -
  consider "c \<in> set scheme" | "c \<in> set ''://''" | "authorityChar c" | "pathChar c" | "c \<in> set (CHR ''?'' # query)"
    using assms(4,6) authority_chars [OF assms(2,3)]
    by (auto simp: plainURL_def list_all_iff pathText_def split: if_splits)
  then show ?thesis
  proof cases
    case 1
    then show ?thesis using assms(1) by (auto simp: schemeText_def list_all_iff code_cases)
  next
    case 2
    then show ?thesis by (auto simp: code_cases)
  next
    case 3
    then show ?thesis using authorityChar_neq [of c] authorityChar_not_ctl [of c] by auto
  next
    case 4
    then show ?thesis using pathChar_neq [of c] pathChar_not_ctl [of c] by auto
  next
    case 5
    then have "c = CHR ''?'' \<or> c \<in> set query" by simp
    then show ?thesis using assms(5) code_cases(4) by (elim disjE) (simp_all add: queryText_def list_all_iff)
  qed
qed

lemma split_first:
  assumes "c \<notin> set s"
  shows "takeWhile (\<lambda>x. x \<noteq> c) (s @ c # t) = s" "dropWhile (\<lambda>x. x \<noteq> c) (s @ c # t) = c # t"
    "takeWhile (\<lambda>x. x \<noteq> c) s = s" "dropWhile (\<lambda>x. x \<noteq> c) s = []"
  using assms by (induction s) auto

lemma Cut_first: "c \<notin> set s \<Longrightarrow> Cut c (s @ c # t) = (s, t, True)"
  by (simp add: Cut_def split_first)

lemma Cut_none: "c \<notin> set s \<Longrightarrow> Cut c s = (s, [], False)"
  by (simp only: Cut_def split_first list.sel simp_thms)

lemma setPath_plain: "list_all pathChar p \<Longrightarrow> setPath p u = Inr (u\<lparr>Path := p, RawPath := []\<rparr>)"
proof -
  assume "list_all pathChar p"
  then have p: "c \<noteq> CHR ''%'' \<and> \<not> shouldEscape c encodePath" if "c \<in> set p" for c
    using that pathChar_plain [of c] pathChar_neq [of c] by (auto simp: list_all_iff)
  then have "unescape encodePath p = Inr p" by (intro unescape_plain) (simp add: list_all_iff)
  moreover have "escape encodePath p = p" using p by (intro escape_plain) (simp add: list_all_iff)
  ultimately show ?thesis by (simp add: setPath_def)
qed

lemma parseURL_steps:
  assumes "\<not> containsCTLByte raw" "raw \<noteq> ''*''" "schemeText scheme" "pathText path"
    and "schemeFrom raw [] raw = Inr (scheme, rest)" and "cutQuery rest = (''//'' @ t, query, False)"
    and "takeWhile (\<lambda>c. c \<noteq> CHR ''/'') t = authority h port" "dropWhile (\<lambda>c. c \<noteq> CHR ''/'') t = path"
    and "parseAuthority (authority h port) = Inr (None, authority h port)"
  shows "parseURL raw = Inr (partsOf scheme h port path query)"
proof -
  have "list_all pathChar path" using assms(4) by (simp add: pathText_def)
  then show ?thesis
    using assms(1,2,3) schemeText_letters(2) [OF assms(3)]
    by (simp add: parseURL_def assms(5-9) setPath_plain schemeText_def HasPrefix_def Let_def partsOf_def emptyURL_def)
qed

text \<open>A plain URL parses into its parts.\<close>

lemma url_Parse_plain:
  assumes "schemeText scheme" "hostText h" "list_all isDigit port" "pathText path" "queryText query"
  shows "url_Parse (plainURL scheme h port path query) = Inr (partsOf scheme h port path query)"
proof -
  let ?raw = "plainURL scheme h port path query" and ?auth = "authority h port"
  let ?q = "if query = [] then [] else CHR ''?'' # query"
  note chars = plainURL_chars [OF assms]
  have auth: "c \<noteq> CHR ''/'' \<and> c \<noteq> CHR ''?''" if "c \<in> set ?auth" for c
    using that authority_chars [OF assms(2,3)] authorityChar_neq [of c] by (auto simp: list_all_iff)
  have path: "CHR ''?'' \<notin> set path" using assms(4) pathChar_neq by (fastforce simp: pathText_def list_all_iff)
  have cut: "cutQuery (''//'' @ ?auth @ path @ ?q) = (''//'' @ ?auth @ path, query, False)"
  proof -
    have no: "CHR ''?'' \<notin> set (''//'' @ ?auth @ path)" using auth path by auto
    show ?thesis
      using Cut_first [OF no, of query] Cut_none [OF no] by (cases "query = []") (simp_all add: cutQuery_def)
  qed
  have "schemeFrom ?raw [] (scheme @ CHR '':'' # (''//'' @ ?auth @ path @ ?q)) = Inr (scheme, ''//'' @ ?auth @ path @ ?q)"
    using schemeFrom_letters [OF schemeText_letters(1) [OF assms(1)], of "[]"] assms(1) by (simp add: schemeText_def)
  then have scheme: "schemeFrom ?raw [] ?raw = Inr (scheme, ''//'' @ ?auth @ path @ ?q)"
    by (simp add: plainURL_def)
  have split: "takeWhile (\<lambda>c. c \<noteq> CHR ''/'') (?auth @ path) = ?auth" "dropWhile (\<lambda>c. c \<noteq> CHR ''/'') (?auth @ path) = path"
    using split_first [of "CHR ''/''" ?auth] auth assms(4) by (cases path; auto simp: pathText_def)+
  have "\<not> containsCTLByte ?raw" using chars by (auto simp: containsCTLByte_def list_ex_iff)
  moreover have "?raw \<noteq> ''*''" by (auto simp: plainURL_def append_eq_Cons_conv)
  ultimately have "parseURL ?raw = Inr (partsOf scheme h port path query)"
    using parseURL_steps [OF _ _ assms(1,4) scheme cut split parseAuthority_plain [OF assms(2,3)]] by blast
  moreover have "Cut CHR ''#'' ?raw = (?raw, [], False)" using chars by (intro Cut_none) blast
  ultimately show ?thesis by (simp add: url_Parse_def)
qed

section \<open>Joining elements to a plain URL\<close>

definition urlElem :: "string \<Rightarrow> bool" where
  "urlElem e \<longleftrightarrow> plainElem e \<and> list_all nameChar e"

definition elemsPath :: "string list \<Rightarrow> bool \<Rightarrow> string" where
  "elemsPath es slash = concat (map (\<lambda>e. CHR ''/'' # e) es) @ (if slash then ''/'' else [])"

lemma urlElem_no_slash: "urlElem e \<Longrightarrow> CHR ''/'' \<notin> set e"
  by (simp add: urlElem_def plainElem_def)

lemma elemsPath_text: "list_all urlElem es \<Longrightarrow> pathText (elemsPath es slash)"
  by (induction es) (auto simp: elemsPath_def pathText_def urlElem_def list_all_iff pathChar_def)

lemma foldl_pushElem_filter:
  "foldl (pushElem r) st es = foldl (pushElem r) st (filter (\<lambda>e. e \<noteq> []) es)"
  by (induction es arbitrary: st) simp_all

text \<open>Cleaning a rooted path of plain elements only drops repeated and trailing slashes.\<close>

lemma Clean_rooted:
  assumes "isRooted p" and "list_all plainElem (filter (\<lambda>e. e \<noteq> []) (splitChar CHR ''/'' p))"
  shows "Clean p = CHR ''/'' # joinChar CHR ''/'' (filter (\<lambda>e. e \<noteq> []) (splitChar CHR ''/'' p))"
proof -
  have "cleanStack p = rev (filter (\<lambda>e. e \<noteq> []) (splitChar CHR ''/'' p))"
    using assms(2) foldl_pushElem_plain [of _ "isRooted p" "[]"]
    by (subst cleanStack_def, subst foldl_pushElem_filter) simp
  then show ?thesis using assms(1) by (simp add: Clean_def renderPath_def)
qed

lemma splitChar_elems:
  assumes "list_all urlElem es"
  shows "filter (\<lambda>e. e \<noteq> []) (splitChar CHR ''/'' (concat (map (\<lambda>e. CHR ''/'' # e) es) @ CHR ''/'' # r))
    = es @ filter (\<lambda>e. e \<noteq> []) (splitChar CHR ''/'' r)"
  using assms
proof (induction es)
  case (Cons e es)
  let ?u = "concat (map (\<lambda>e. CHR ''/'' # e) es) @ CHR ''/'' # r"
  obtain u where u: "?u = CHR ''/'' # u" by (cases es) simp_all
  have e: "CHR ''/'' \<notin> set e" "e \<noteq> []" using Cons.prems urlElem_no_slash by (auto simp: urlElem_def plainElem_def)
  have "splitChar CHR ''/'' (CHR ''/'' # e @ ?u) = [] # e # splitChar CHR ''/'' u"
    by (simp add: u splitChar_append splitChar_plain [OF e(1)])
  moreover have "filter (\<lambda>e. e \<noteq> []) (splitChar CHR ''/'' u) = es @ filter (\<lambda>e. e \<noteq> []) (splitChar CHR ''/'' r)"
    using Cons by (simp add: u)
  ultimately show ?case using e(2) by simp
qed simp

lemma EscapedPath_plain:
  assumes "RawPath u = []" and "list_all pathChar (Path u)"
  shows "EscapedPath u = Path u"
proof -
  have p: "\<not> shouldEscape c encodePath \<and> c \<noteq> CHR ''*''" if "c \<in> set (Path u)" for c
    using that assms(2) pathChar_plain [of c] pathChar_neq [of c] by (auto simp: list_all_iff)
  then have "escape encodePath (Path u) = Path u" by (intro escape_plain) (simp add: list_all_iff)
  moreover have "Path u \<noteq> ''*''" using p by force
  ultimately show ?thesis using assms(1) by (simp add: EscapedPath_def)
qed

lemma Clean_join:
  assumes "list_all urlElem es" "list_all urlElem fs" "fs \<noteq> []"
  shows "Clean (elemsPath es slash @ CHR ''/'' # joinChar CHR ''/'' fs) = CHR ''/'' # joinChar CHR ''/'' (es @ fs)"
proof -
  let ?p = "elemsPath es slash @ CHR ''/'' # joinChar CHR ''/'' fs"
  have fs: "splitChar CHR ''/'' (joinChar CHR ''/'' fs) = fs" "filter (\<lambda>e. e \<noteq> []) fs = fs"
    using assms(2,3) urlElem_no_slash by (auto intro!: splitChar_joinChar simp: list_all_iff filter_id_conv urlElem_def plainElem_def)
  then have "filter (\<lambda>e. e \<noteq> []) (splitChar CHR ''/'' ?p) = es @ fs"
    using splitChar_elems [OF assms(1), of "joinChar CHR ''/'' fs"] splitChar_elems [OF assms(1), of "CHR ''/'' # joinChar CHR ''/'' fs"]
    by (cases slash) (simp_all add: elemsPath_def)
  moreover have "isRooted ?p" by (cases es) (auto simp: isRooted_def elemsPath_def)
  moreover have "list_all plainElem (es @ fs)" using assms(1,2) by (auto simp: list_all_iff urlElem_def)
  ultimately show ?thesis using Clean_rooted [of ?p] by simp
qed

lemma joined_chars: "list_all urlElem fs \<Longrightarrow> list_all pathChar (joinChar CHR ''/'' fs)"
  by (induction fs rule: induct_list012) (auto simp: urlElem_def list_all_iff pathChar_def)

lemma joined_last:
  assumes "list_all urlElem fs" "fs \<noteq> []"
  shows "\<not> HasPrefix (rev (last fs)) ''/''"
proof -
  have "urlElem (last fs)" using assms by (simp add: list_all_iff)
  then have "CHR ''/'' \<notin> set (rev (last fs))" "rev (last fs) \<noteq> []"
    using urlElem_no_slash by (auto simp: urlElem_def plainElem_def)
  then show ?thesis by (cases "rev (last fs)") (auto simp: HasPrefix_def)
qed

lemma URL_JoinPath_plain:
  assumes "list_all urlElem es" "list_all urlElem fs" "fs \<noteq> []"
  shows "URL_JoinPath (partsOf scheme h port (elemsPath es slash) query) fs
    = Inr (partsOf scheme h port
        ((if elemsPath es slash = [] then [] else ''/'') @ joinChar CHR ''/'' (es @ fs)) query)"
proof -
  let ?u = "partsOf scheme h port (elemsPath es slash) query"
  let ?p = "(if elemsPath es slash = [] then [] else ''/'') @ joinChar CHR ''/'' (es @ fs)"
  have base: "EscapedPath ?u = elemsPath es slash"
    using elemsPath_text [OF assms(1), of slash]
    by (subst EscapedPath_plain) (simp_all add: partsOf_def emptyURL_def pathText_def)
  have "list_all pathChar (joinChar CHR ''/'' (es @ fs))" using assms(1,2) by (intro joined_chars) simp
  then have set: "setPath ?p ?u = Inr (partsOf scheme h port ?p query)"
    by (subst setPath_plain) (simp_all add: pathChar_def partsOf_def emptyURL_def)
  show ?thesis
  proof (cases "elemsPath es slash = []")
    case True
    then have es: "es = []" "\<not> slash" by (cases es; simp add: elemsPath_def split: if_splits)+
    have "Clean (elemsPath [] True @ CHR ''/'' # joinChar CHR ''/'' fs) = CHR ''/'' # joinChar CHR ''/'' fs"
      using Clean_join [of "[]" fs True] assms by simp
    then have "path_Join (''/'' # fs) = CHR ''/'' # joinChar CHR ''/'' fs"
      using assms(3) by (simp add: path_Join_def joinChar_Cons elemsPath_def)
    then show ?thesis
      using set base True es joined_last [OF assms(2,3)] assms(3) by (simp add: URL_JoinPath_def HasPrefix_def)
  next
    case False
    then have "HasPrefix (elemsPath es slash) ''/''" using elemsPath_text [OF assms(1), of slash]
      by (cases "elemsPath es slash") (simp_all add: pathText_def HasPrefix_def)
    moreover have "path_Join (elemsPath es slash # fs) = CHR ''/'' # joinChar CHR ''/'' (es @ fs)"
      using False Clean_join [OF assms] assms(3) by (simp add: path_Join_def joinChar_Cons)
    ultimately show ?thesis
      using set False joined_last [OF assms(2,3)] assms(3) by (simp add: URL_JoinPath_def base)
  qed
qed

lemma authority_escape: "list_all authorityChar s \<Longrightarrow> escape encodeHost s = s"
  using authorityChar_plain by (intro escape_plain) (auto simp: list_all_iff)

lemma authority_not_Nil: "hostText h \<Longrightarrow> authority h port \<noteq> []"
  using hostText_plain(1) by (simp add: authority_def bracketed_def)

lemma URL_String_plain:
  assumes "schemeText scheme" "hostText h" "list_all isDigit port" "list_all pathChar path"
  shows "URL_String (partsOf scheme h port path query)
    = plainURL scheme h port ((if path = [] \<or> hd path = CHR ''/'' then [] else ''/'') @ path) query"
proof -
  let ?u = "partsOf scheme h port path query"
  have "EscapedPath ?u = path" using assms(4) by (subst EscapedPath_plain) (simp_all add: partsOf_def emptyURL_def)
  moreover have "escape encodeHost (authority h port) = authority h port"
    using authority_chars [OF assms(2,3)] by (rule authority_escape)
  ultimately show ?thesis
    using assms(1) authority_not_Nil [OF assms(2), of port]
    by (simp add: URL_String_def authorityString_def plainURL_def schemeText_def Let_def)
qed

section \<open>The query\<close>

text \<open>
  \<open>URL.Query\<close>, which leaves out what it cannot read, and \<open>Values.Get\<close>: the first value under a key,
  or nothing.
\<close>

definition queryPair :: "string \<Rightarrow> (string \<times> string) option" where
  "queryPair s =
     (if CHR '';'' \<in> set s \<or> s = [] then None
      else
        case Cut CHR ''='' s of (k, v, found) \<Rightarrow>
          (case (unescape encodeQueryComponent k, unescape encodeQueryComponent v) of
             (Inr key, Inr val) \<Rightarrow> Some (key, val)
           | _ \<Rightarrow> None))"

definition url_Query :: "URL \<Rightarrow> (string \<times> string) list" where
  "url_Query u = List.map_filter queryPair (splitChar CHR ''&'' (RawQuery u))"

definition Values_Get :: "(string \<times> string) list \<Rightarrow> string \<Rightarrow> string" where
  "Values_Get vs key = (case map_of vs key of Some v \<Rightarrow> v | None \<Rightarrow> [])"

text \<open>Whether \<open>strings.Contains\<close>.\<close>

definition Contains :: "string \<Rightarrow> string \<Rightarrow> bool" where
  "Contains s p \<longleftrightarrow> cutAt p s \<noteq> None"

section \<open>What a plain URL comes back as\<close>

lemma splitHostPort_authority:
  assumes "hostText h" "list_all isDigit port"
  shows "splitHostPort (authority h port) = (h, port)"
proof -
  note plain = hostText_plain [OF assms(1)]
  have strip: "(if bracketed h \<noteq> [] \<and> hd (bracketed h) = CHR ''['' \<and> last (bracketed h) = CHR '']''
      then butlast (tl (bracketed h)) else bracketed h) = h"
    using plain by (cases h) (auto simp: bracketed_def butlast_append)
  show ?thesis
  proof (cases "port = []")
    case False
    then show ?thesis
      using strip splitLast_append [OF digits_no_colon [OF assms(2)], of "bracketed h"] assms(2)
      by (simp add: authority_def splitHostPort_def validOptionalPort_def)
  next
    case True
    have "\<not> validOptionalPort (CHR '':'' # b)" if s: "splitLast CHR '':'' (bracketed h) = Some (a, b)" for a b
    proof -
      have br: "bracketed h = a @ CHR '':'' # b" using splitLast_SomeD [OF s] by blast
      then have "(CHR ''['' # h) @ '']'' = a @ CHR '':'' # b" using plain by (auto simp: bracketed_def split: if_splits)
      then have "last (CHR '':'' # b) = CHR '']''" by (metis last_appendR last_snoc list.distinct(1))
      then have "CHR '']'' \<in> set b" using last_in_set [of b] by (cases "b = []") simp_all
      then show ?thesis using not_digit by (auto simp: validOptionalPort_def list_all_iff)
    qed
    then show ?thesis using strip True
      by (cases "splitLast CHR '':'' (bracketed h)") (auto simp: authority_def splitHostPort_def)
  qed
qed

lemma removeEmptyPort_authority:
  assumes "hostText h" "list_all isDigit port"
  shows "removeEmptyPort (authority h port) = authority h port"
proof (cases "port = []")
  case False
  then have "last (authority h port) \<in> set port" by (simp add: authority_def)
  then show ?thesis using digits_no_colon [OF assms(2)] by (auto simp: removeEmptyPort_def)
next
  case True
  show ?thesis
  proof (cases "CHR '':'' \<in> set h")
    case True
    then show ?thesis using \<open>port = []\<close> by (simp add: removeEmptyPort_def authority_def bracketed_def)
  next
    case False
    then have "last h \<noteq> CHR '':''" using hostText_plain(1) [OF assms(1)] last_in_set by metis
    then show ?thesis using False \<open>port = []\<close> by (simp add: removeEmptyPort_def authority_def bracketed_def)
  qed
qed

lemma requestURL_plain:
  assumes "schemeText scheme" "hostText h" "list_all isDigit port" "pathText path" "queryText query"
  shows "requestURL (plainURL scheme h port path query) = Inr (partsOf scheme h port path query)"
  using removeEmptyPort_authority [OF assms(2,3)]
  by (simp add: requestURL_def url_Parse_plain [OF assms] partsOf_def emptyURL_def)

lemma url_JoinPath_plain:
  assumes "schemeText scheme" "hostText h" "list_all isDigit port"
    and "list_all urlElem es" "list_all urlElem fs" "fs \<noteq> []" "queryText query"
  shows "url_JoinPath (plainURL scheme h port (elemsPath es slash) query) fs
    = Inr (plainURL scheme h port (CHR ''/'' # joinChar CHR ''/'' (es @ fs)) query)"
proof -
  have "list_all pathChar (joinChar CHR ''/'' (es @ fs))" using assms(4,5) by (intro joined_chars) simp
  then have path: "list_all pathChar ((if elemsPath es slash = [] then [] else ''/'') @ joinChar CHR ''/'' (es @ fs))"
    by (simp add: pathChar_def)
  have "joinChar CHR ''/'' (es @ fs) \<noteq> []" "hd (joinChar CHR ''/'' (es @ fs)) \<noteq> CHR ''/''"
  proof -
    have "list_all urlElem (es @ fs)" using assms(4,5) by simp
    then obtain e rest where e: "es @ fs = e # rest" "urlElem e" using assms(6) by (cases "es @ fs") auto
    then obtain c cs where c: "e = c # cs" "c \<noteq> CHR ''/''"
      using urlElem_no_slash [OF e(2)] by (cases e) (auto simp: urlElem_def plainElem_def)
    then show "joinChar CHR ''/'' (es @ fs) \<noteq> []" "hd (joinChar CHR ''/'' (es @ fs)) \<noteq> CHR ''/''"
      by (cases rest; simp add: e(1))+
  qed
  then show ?thesis
    using URL_String_plain [OF assms(1-3) path, of query]
    by (simp add: url_JoinPath_def url_Parse_plain [OF assms(1-3) elemsPath_text [OF assms(4)] assms(7)]
        URL_JoinPath_plain [OF assms(4-6)])
qed

end
