(* ===== verification/Cooldown.thy ===== *)
theory Cooldown
  imports Go_Url
begin

text \<open>
  \<open>gatewayCooldowns\<close> of \<open>fallback.go\<close>: which hosts asked the fallback to slow down, and
  until when. Instants and durations are nanoseconds. What the code takes from elsewhere is an
  argument: the two back-off constants of \<open>httpnet\<close> and \<open>time.Parse\<close> with the RFC 1123 layout.
\<close>

section \<open>Stores whose entries expire\<close>

text \<open>
  The interface the cooldowns share with the TXT answers of \<open>resolver.go\<close>: entries are put at an
  instant and read at an instant. An entry that can be read can be read at any earlier instant, and
  putting another key, now or in the past, does not take it away.
\<close>

locale expiring_store =
  fixes put :: "'k \<Rightarrow> 'v \<Rightarrow> int \<Rightarrow> 'c \<Rightarrow> 'c"
    and get :: "'k \<Rightarrow> int \<Rightarrow> 'c \<Rightarrow> 'r option"
  assumes get_earlier: "get k t c = Some v \<Longrightarrow> t' \<le> t \<Longrightarrow> get k t' c = Some v"
    and get_put_other: "get k t c = Some v \<Longrightarrow> k' \<noteq> k \<Longrightarrow> t0 \<le> t \<Longrightarrow> get k t (put k' w t0 c) = Some v"
begin

definition putAll :: "('k \<times> 'v \<times> int) list \<Rightarrow> 'c \<Rightarrow> 'c" where
  "putAll ps c = foldl (\<lambda>c (k, w, t). put k w t c) c ps"

lemma get_putAll:
  assumes "get k t c = Some v" and "\<forall>(k', w, t0) \<in> set ps. k' \<noteq> k \<and> t0 \<le> t"
  shows "get k t (putAll ps c) = Some v"
  using assms
proof (induction ps arbitrary: c)
  case (Cons p ps)
  obtain k' w t0 where p: "p = (k', w, t0)" by (metis prod_cases3)
  then have "get k t (put k' w t0 c) = Some v" using Cons.prems by (auto intro: get_put_other)
  then show ?case using Cons.IH [of "put k' w t0 c"] Cons.prems p by (simp add: putAll_def)
qed (simp add: putAll_def)

lemma get_putAll_earlier:
  assumes "get k t c = Some v" and "\<forall>(k', w, t0) \<in> set ps. k' \<noteq> k \<and> t0 \<le> t" and "t' \<le> t"
  shows "get k t' (putAll ps c) = Some v"
  using get_earlier [OF get_putAll [OF assms(1,2)] assms(3)] .

end

section \<open>Reading a Retry-After header\<close>

text \<open>\<open>strconv.ParseInt(s, 10, 64)\<close>: an optional sign, then decimal digits, within 64 bits.\<close>

definition parseDigits :: "string \<Rightarrow> int option" where
  "parseDigits s =
     (if s = [] \<or> \<not> list_all isDigit s then None else Some (foldl (\<lambda>n c. 10 * n + digitVal c) 0 s))"

definition parseInt64 :: "string \<Rightarrow> int64 option" where
  "parseInt64 s =
     (case
        (case s of
           [] \<Rightarrow> None
         | c # cs \<Rightarrow>
             if c = CHR ''-'' then map_option uminus (parseDigits cs)
             else if c = CHR ''+'' then parseDigits cs
             else parseDigits (c # cs))
      of Some n \<Rightarrow> if is_int64 n then Some n else None
       | None \<Rightarrow> None)"

record backoff =
  maxBackoff :: int64
  connectFailureBackoff :: int64

definition second :: int64 where
  "second = 1000000000"

text \<open>\<open>time.Until\<close> saturates at the ends of the 64-bit range.\<close>

definition timeUntil :: "int \<Rightarrow> int \<Rightarrow> int64" where
  "timeUntil now date = max min_int64 (min max_int64 (date - now))"

definition retryAfterDelay :: "backoff \<Rightarrow> (string \<Rightarrow> int option) \<Rightarrow> int \<Rightarrow> string \<Rightarrow> int64" where
  "retryAfterDelay bo parseDate now header =
     (let wait =
        (case parseInt64 header of
           Some secs \<Rightarrow> wrap64 (secs * second)
         | None \<Rightarrow>
             (case parseDate header of
                Some date \<Rightarrow> timeUntil now date
              | None \<Rightarrow> 0))
      in if wait \<le> 0 then connectFailureBackoff bo else min wait (maxBackoff bo))"

section \<open>The cooldowns\<close>

type_synonym cooldowns = "string \<Rightarrow> int option"

definition hostCoolingDown :: "string \<Rightarrow> int \<Rightarrow> cooldowns \<Rightarrow> int option" where
  "hostCoolingDown h now cds =
     (case cds h of
        None \<Rightarrow> None
      | Some dl \<Rightarrow> if now < dl then Some dl else None)"

definition gatewayCoolingDown :: "string \<Rightarrow> int \<Rightarrow> cooldowns \<Rightarrow> int option" where
  "gatewayCoolingDown gateway now cds =
     (case url_Parse gateway of
        Inl e \<Rightarrow> None
      | Inr parsed \<Rightarrow> hostCoolingDown (Host parsed) now cds)"

definition startGatewayCooldown ::
    "backoff \<Rightarrow> (string \<Rightarrow> int option) \<Rightarrow> string \<Rightarrow> string \<Rightarrow> int \<Rightarrow> cooldowns \<Rightarrow> cooldowns" where
  "startGatewayCooldown bo parseDate h retryAfter now cds =
     cds(h \<mapsto> now + retryAfterDelay bo parseDate now retryAfter)"

text \<open>The cooldowns are a store that expires, by the host.\<close>

interpretation cooldowns: expiring_store
  "startGatewayCooldown bo parseDate" hostCoolingDown for bo parseDate
  by unfold_locales
     (auto simp: hostCoolingDown_def startGatewayCooldown_def split: option.splits if_splits)

text \<open>What the code relies on \<open>httpnet\<close> for: both back-offs are positive.\<close>

definition backoffOk :: "backoff \<Rightarrow> bool" where
  "backoffOk bo \<longleftrightarrow> 0 < connectFailureBackoff bo \<and> 0 < maxBackoff bo"

section \<open>Properties\<close>

text \<open>
  C40. Whatever a host sends as \<open>Retry-After\<close> - nothing, a malformed value, a date long past or a
  number of any size - the pause is positive and no longer than the larger of the two back-offs, so
  a gateway can neither skip its cooldown nor put itself out of use for longer than the verified
  path would. A number of seconds the 64-bit product can hold and a date still to come, however far, are
  honoured up to the cap; zero, a negative number, a past date and what is neither get the short back-off.
\<close>

theorem retryAfterDelay_bounded:
  assumes "backoffOk bo"
  shows "0 < retryAfterDelay bo parseDate now header
    \<and> retryAfterDelay bo parseDate now header \<le> max (maxBackoff bo) (connectFailureBackoff bo)
    \<and> (\<forall>secs. parseInt64 header = Some secs \<longrightarrow> - (2 ^ 63) \<le> secs * second \<longrightarrow> secs * second < 2 ^ 63 \<longrightarrow>
          retryAfterDelay bo parseDate now header
            = (if 0 < secs then min (secs * second) (maxBackoff bo) else connectFailureBackoff bo))
    \<and> (\<forall>date. parseInt64 header = None \<longrightarrow> parseDate header = Some date \<longrightarrow> maxBackoff bo \<le> max_int64 \<longrightarrow>
          retryAfterDelay bo parseDate now header
            = (if now < date then min (date - now) (maxBackoff bo) else connectFailureBackoff bo))
    \<and> (parseInt64 header = None \<and> parseDate header = None \<longrightarrow>
          retryAfterDelay bo parseDate now header = connectFailureBackoff bo)"
proof -
  have "wrap64 (secs * second) = secs * second" if "- (2 ^ 63) \<le> secs * second" "secs * second < 2 ^ 63" for secs
    using that by (intro wrap64_id) (simp add: is_int64_def)
  then show ?thesis
    using assms by (auto simp: retryAfterDelay_def backoffOk_def Let_def second_def timeUntil_def min_def max_def
        zero_less_mult_iff mult_le_0_iff split: option.split)
qed

definition minuteBackoff :: backoff where
  "minuteBackoff = \<lparr>maxBackoff = 60000000000, connectFailureBackoff = 10000000000\<rparr>"

lemma of_char_digits [simp]:
  "(of_char CHR 0x31 :: nat) = 49" "(of_char CHR 0x32 :: nat) = 50" "(of_char CHR 0x30 :: nat) = 48"
  "(of_char CHR 0x34 :: nat) = 52" "(of_char CHR 0x36 :: nat) = 54" "(of_char CHR 0x37 :: nat) = 55"
  "(of_char CHR 0x38 :: nat) = 56"
  by simp_all

theorem retryAfterDelay_bounded_witness:
  "retryAfterDelay minuteBackoff (\<lambda>_. None) 0 ''12'' = 12000000000"
proof -
  have "parseInt64 ''12'' = Some 12"
    by (simp add: parseInt64_def parseDigits_def isDigit_def digitVal_def is_int64_def)
  then show ?thesis
    using retryAfterDelay_bounded [of minuteBackoff "\<lambda>_. None" 0 "''12''"]
    by (simp add: minuteBackoff_def backoffOk_def second_def)
qed

text \<open>
  A host that asked for a pause is left alone exactly that long: after a throttled answer at
  an instant, every gateway on that host is cooling down until that instant plus the delay and no
  longer, cooldowns of other hosts are unchanged, and answers from other hosts do not end it.
\<close>

theorem cooldown_exact:
  assumes "url_Parse gateway = Inr u" and "Host u = h"
  shows "(gatewayCoolingDown gateway t (startGatewayCooldown bo parseDate h retryAfter now cds) \<noteq> None
      \<longleftrightarrow> t < now + retryAfterDelay bo parseDate now retryAfter)
    \<and> (\<forall>other v. url_Parse other = Inr v \<and> Host v \<noteq> h \<longrightarrow>
          gatewayCoolingDown other t (startGatewayCooldown bo parseDate h retryAfter now cds)
          = gatewayCoolingDown other t cds)
    \<and> (\<forall>dl ps. gatewayCoolingDown gateway t cds = Some dl \<longrightarrow>
          (\<forall>(h', w, t0) \<in> set ps. h' \<noteq> h \<and> t0 \<le> t) \<longrightarrow>
          gatewayCoolingDown gateway t (cooldowns.putAll bo parseDate ps cds) = Some dl)"
proof -
  have conv: "gatewayCoolingDown gateway t c = hostCoolingDown h t c" for c
    using assms by (simp add: gatewayCoolingDown_def)
  have "hostCoolingDown h t (cooldowns.putAll bo parseDate ps cds) = Some dl"
    if "hostCoolingDown h t cds = Some dl" "\<forall>(h', w, t0) \<in> set ps. h' \<noteq> h \<and> t0 \<le> t" for dl ps
    using that by (rule cooldowns.get_putAll)
  then show ?thesis
    unfolding conv by (auto simp: gatewayCoolingDown_def hostCoolingDown_def startGatewayCooldown_def split: option.split)
qed

lemma plainHost_parsed: "\<exists>u. url_Parse ''https://g'' = Inr u \<and> Host u = ''g''"
proof -
  have "map_sum (\<lambda>e. ()) Host (url_Parse ''https://g'') = Inr ''g''" by code_simp
  then show ?thesis by (cases "url_Parse ''https://g''") simp_all
qed

theorem cooldown_exact_witness:
  "gatewayCoolingDown ''https://g'' 5
     (startGatewayCooldown minuteBackoff (\<lambda>_. None) ''g'' [] 0 Map.empty) \<noteq> None"
proof -
  have "retryAfterDelay minuteBackoff (\<lambda>_. None) 0 [] = 10000000000"
    by (simp add: retryAfterDelay_def parseInt64_def minuteBackoff_def)
  then show ?thesis
    using plainHost_parsed cooldown_exact [of "''https://g''" _ "''g''" 5 minuteBackoff "\<lambda>_. None" "[]" 0 Map.empty]
    by auto
qed

text \<open>
  The seconds are multiplied in 64 bits without a check. A host that asks for 18446744074
  seconds is left alone for 0.29 seconds rather than for the cap, and one that asks for
  9223372037 seconds gets the short pause meant for headers that cannot be read.
\<close>

theorem retryAfterDelay_overflows:
  "retryAfterDelay minuteBackoff parseDate now ''18446744074'' = 290448384
   \<and> retryAfterDelay minuteBackoff parseDate now ''9223372037'' = connectFailureBackoff minuteBackoff"
proof -
  have "parseInt64 ''18446744074'' = Some 18446744074" "parseInt64 ''9223372037'' = Some 9223372037"
    by (simp_all add: parseInt64_def parseDigits_def isDigit_def digitVal_def is_int64_def)
  then show ?thesis
    by (simp add: retryAfterDelay_def Let_def second_def wrap64_def minuteBackoff_def)
qed

end
