(* ===== verification/Fallback.thy ===== *)
theory Fallback
  imports Download Tar_Extract Cooldown Go_Strings
begin

text \<open>
  The unverified path of \<open>fallback.go\<close>: \<open>fetchFromGateway\<close> asks one gateway for a tar archive
  and \<open>fetchFromGateways\<close> asks the configured ones in turn. What an attempt meets - the request it
  can build, the answer, the clock, the state of the client and of its contexts - is the record
  \<open>attempt\<close>; the disk and the cooldowns are the state the attempts pass on.
\<close>

section \<open>One gateway\<close>

record httpResponse =
  StatusCode :: nat
  RetryAfter :: string
  ContentType :: string
  Archive :: tarArchive

text \<open>
  \<open>response\<close> is what \<open>gatewayHTTPClient.Do\<close> returns. \<open>closedBefore\<close> and
  \<open>closedAfter\<close> are the two calls of \<open>isClosed\<close>, \<open>checkedAt\<close> and \<open>answeredAt\<close> the
  clock, \<open>stepCtx\<close> the attempt's context when \<open>replace\<close> is reached and \<open>callerCtx\<close> the
  caller's after the attempt.
\<close>

record attempt =
  closedBefore :: bool
  checkedAt :: int
  response :: "error + httpResponse"
  answeredAt :: int
  rands :: "string list"
  stepCtx :: ctxState
  lockWait :: "filesystem \<Rightarrow> error + filesystem"
  closedAfter :: bool
  callerCtx :: ctxState

record world =
  scratch :: scratchState
  gatewayCooldowns :: cooldowns

text \<open>
  What is not under \<open>src/\<close>: \<open>httpnet\<close>'s back-offs, \<open>time.Parse\<close>, and how \<open>fmt\<close> renders instants and the formats errors are built from.
\<close>

record platform =
  backoffs :: backoff
  parseDate :: "string \<Rightarrow> int option"
  showTime :: "int \<Rightarrow> string"
  sprintf :: "string \<Rightarrow> string list \<Rightarrow> string"

definition throttled :: "nat set" where
  "throttled = {429, 502, 503, 504}"

definition stageTar :: "tarArchive \<Rightarrow> int64 \<Rightarrow> string \<Rightarrow> filesystem \<Rightarrow> filesystem \<times> (error + string)" where
  "stageTar archive sizeLimit dir fs =
     (case extractTar dir archive sizeLimit fs of (fs', written, r) \<Rightarrow> (fs', r))"

text \<open>The request for the content: the canonical CID under the gateway's own path, as a tar archive.\<close>

definition gatewayRequest :: "string \<Rightarrow> string \<Rightarrow> error + URL" where
  "gatewayRequest gateway target =
     andThen (url_JoinPath gateway [''ipfs'', target]) (\<lambda>endpoint. requestURL (endpoint @ ''?format=tar''))"

definition fetchFromGateway :: "platform \<Rightarrow> attempt \<Rightarrow> string \<Rightarrow> string \<Rightarrow> string \<Rightarrow> int64 \<Rightarrow> world
    \<Rightarrow> world \<times> error option" where
  "fetchFromGateway pf a gateway target output sizeLimit w =
     (case gatewayRequest gateway target of
        Inl e \<Rightarrow> (w, Some e)
      | Inr url \<Rightarrow>
        (case response a of
           Inl e \<Rightarrow> (w, Some e)
         | Inr resp \<Rightarrow>
             if StatusCode resp \<noteq> 200 then
               (if StatusCode resp \<in> throttled
                then w\<lparr>gatewayCooldowns := startGatewayCooldown (backoffs pf) (parseDate pf) (Host url)
                         (RetryAfter resp) (answeredAt a) (gatewayCooldowns w)\<rparr>
                else w,
                Some (Errorf ''http %d'' [showInt (int (StatusCode resp))]))
             else if ContentType resp \<noteq> [] \<and> \<not> HasPrefix (ContentType resp) ''application/x-tar'' then
               (w, Some (Errorf ''gateway served %q, want application/x-tar'' [ContentType resp]))
             else
               (case publishVia gatewayScratchPrefix (stepCtx a) (lockWait a) (rands a)
                       (stageTar (Archive resp) sizeLimit) output (scratch w) of
                  (sc, err) \<Rightarrow> (w\<lparr>scratch := sc\<rparr>, err))))"

section \<open>All of them\<close>

text \<open>
  The loop of \<open>fetchFromGateways\<close>, over each gateway with what its attempt meets. The size limit
  is recognised by a type assertion, not by \<open>errors.As\<close>.
\<close>

fun isSizeLimit :: "error \<Rightarrow> bool" where
  "isSizeLimit (SizeLimitError s l) \<longleftrightarrow> True"
| "isSizeLimit e \<longleftrightarrow> False"

fun gatewayLoop :: "platform \<Rightarrow> (string \<times> attempt) list \<Rightarrow> string \<Rightarrow> string \<Rightarrow> int64 \<Rightarrow> string list \<Rightarrow> world
    \<Rightarrow> world \<times> error option" where
  "gatewayLoop pf [] target output sizeLimit failures w =
     (w, Some (Errorf ''no gateway served the content (%s)'' [strings_Join failures ''; '']))"
| "gatewayLoop pf ((gateway, a) # rest) target output sizeLimit failures w =
     (if closedBefore a then (w, Some ErrClosed)
      else
        case gatewayCoolingDown gateway (checkedAt a) (gatewayCooldowns w) of
          Some dl \<Rightarrow>
            gatewayLoop pf rest target output sizeLimit 
              (failures @ [gateway @ '': host in cooldown until '' @ showTime pf dl]) w
        | None \<Rightarrow>
            (case fetchFromGateway pf a gateway target output sizeLimit w of
               (w1, None) \<Rightarrow> (w1, None)
             | (w1, Some err) \<Rightarrow>
                 if closedAfter a then (w1, Some ErrClosed)
                 else if isSizeLimit err then (w1, Some err)
                 else if callerCtx a \<noteq> CtxLive then (w1, contextError (callerCtx a))
                 else gatewayLoop pf rest target output sizeLimit 
                   (failures @ [gateway @ '': '' @ errorMessage (sprintf pf) err]) w1))"

definition fetchFromGateways :: "platform \<Rightarrow> (string \<times> attempt) list \<Rightarrow> string \<Rightarrow> string \<Rightarrow> int64 \<Rightarrow> world
    \<Rightarrow> world \<times> error option" where
  "fetchFromGateways pf attempts target output sizeLimit w =
     (if attempts = [] then (w, Some (Errorf ''no gateways configured'' []))
      else gatewayLoop pf attempts target output sizeLimit [] w)"

section \<open>What a gateway is asked for\<close>

text \<open>A gateway as it is configured: its scheme, host, port and the elements of its path.\<close>

definition plainGateway :: "string \<Rightarrow> string \<Rightarrow> string \<Rightarrow> string list \<Rightarrow> bool \<Rightarrow> string \<Rightarrow> string" where
  "plainGateway scheme h port es slash query = plainURL scheme h port (elemsPath es slash) query"

definition gatewayParts :: "string \<Rightarrow> string \<Rightarrow> string \<Rightarrow> string list \<Rightarrow> bool" where
  "gatewayParts scheme h port es \<longleftrightarrow> schemeText scheme \<and> hostText h \<and> list_all isDigit port \<and> list_all urlElem es"

lemma plainGateway_parsed:
  assumes "gatewayParts scheme h port es" and "queryText query"
  shows "url_Parse (plainGateway scheme h port es slash query) = Inr (partsOf scheme h port (elemsPath es slash) query)"
  using assms elemsPath_text url_Parse_plain by (simp add: gatewayParts_def plainGateway_def)

lemma gatewayRequest_plain:
  assumes "gatewayParts scheme h port es" and "urlElem target" and "queryText query"
  shows "gatewayRequest (plainGateway scheme h port es slash query) target =
    Inr (partsOf scheme h port (CHR ''/'' # joinChar CHR ''/'' (es @ [''ipfs'', target]))
      (if query = [] then ''format=tar'' else query @ ''?format=tar''))"
proof -
  let ?p = "CHR ''/'' # joinChar CHR ''/'' (es @ [''ipfs'', target])"
  have parts: "schemeText scheme" "hostText h" "list_all isDigit port" "list_all urlElem es"
    using assms(1) by (simp_all add: gatewayParts_def)
  have "urlElem ''ipfs''" by code_simp
  then have elems: "list_all urlElem [''ipfs'', target]" using assms(2) by simp
  then have path: "pathText ?p" using parts(4) joined_chars [of "es @ [''ipfs'', target]"]
    by (simp add: pathText_def pathChar_def)
  have q: "queryText ''format=tar''" by code_simp
  then have q2: "queryText (query @ ''?format=tar'')"
    using assms(3) by (simp add: queryText_def codeOf_def)
  have "plainURL scheme h port ?p query @ ''?format=tar''
      = plainURL scheme h port ?p (if query = [] then ''format=tar'' else query @ ''?format=tar'')"
    by (simp add: plainURL_def)
  then show ?thesis
    using url_JoinPath_plain [OF parts elems _ assms(3), of slash] requestURL_plain [OF parts(1-3) path q]
      requestURL_plain [OF parts(1-3) path q2]
    by (simp add: gatewayRequest_def plainGateway_def)
qed

text \<open>
  C34. What a gateway is asked for. A gateway URL of a scheme, a host, a port or none and a path is asked,
  under the same scheme, host and port, for \<open>/ipfs/\<close> and the CID below its own path, with the query
  \<open>format=tar\<close>. A gateway URL that has a query of its own is asked with that query and the text
  \<open>?format=tar\<close> run into it, which names no format.
\<close>

theorem gatewayRequest_asks:
  assumes "gatewayParts scheme h port es" and "urlElem target" and "queryText query"
  shows "\<exists>u. gatewayRequest (plainGateway scheme h port es slash query) target = Inr u
    \<and> Scheme u = scheme \<and> Host u = authority h port
    \<and> Path u = CHR ''/'' # joinChar CHR ''/'' (es @ [''ipfs'', target])
    \<and> RawQuery u = (if query = [] then ''format=tar'' else query @ ''?format=tar'')"
  using gatewayRequest_plain [OF assms] by simp

lemma sampleGateway: "gatewayParts ''https'' ''g'' [] []" "urlElem ''bafy''" "queryText []"
    "plainGateway ''https'' ''g'' [] [] False [] = ''https://g''" "authority ''g'' [] = ''g''"
proof -
  have "schemeText ''https''" "list_all nameChar ''g''" by code_simp+
  then show "gatewayParts ''https'' ''g'' [] []" by (simp add: gatewayParts_def hostText_def)
qed code_simp+

theorem gatewayRequest_asks_witness:
  "\<exists>u. gatewayRequest ''https://g'' ''bafy'' = Inr u \<and> Path u = ''/ipfs/bafy'' \<and> RawQuery u = ''format=tar''"
  using gatewayRequest_asks [OF sampleGateway(1-3), of False] by (simp add: sampleGateway(4)) blast

lemma sampleRequest: "gatewayRequest ''https://g'' ''bafy'' = Inr (partsOf ''https'' ''g'' [] ''/ipfs/bafy'' ''format=tar'')"
  using gatewayRequest_plain [OF sampleGateway(1-3), of False] by (simp add: sampleGateway(4))

section \<open>An archive is staged content\<close>

interpretation tar_content: staged_content stageTar
proof unfold_locales
  fix archive limit dir fs fs' r
  assume run: "stageTar archive limit dir fs = (fs', r)" and dir: "properDir dir" and lim: "limit < max_int64"
    and wf: "wfTree fs" and d: "entryAt fs (fsKey fs dir) = Some DirEntry"
  obtain w where x: "extractTar dir archive limit fs = (fs', w, r)"
    using run by (auto simp: stageTar_def split: prod.splits)
  have "withinLimit limit 0" by (simp add: withinLimit_def)
  then show "sameOutside (fsKey fs dir) fs fs' \<and> wfTree fs'"
    using extractLoop_correct [OF x [unfolded extractTar_def] dir lim wf d] by (simp add: extends_def)
next
  fix archive limit dir fs fs' staged
  assume run: "stageTar archive limit dir fs = (fs', Inr staged)" and dir: "properDir dir"
    and lim: "limit < max_int64" and wf: "wfTree fs" and d: "entryAt fs (fsKey fs dir) = Some DirEntry"
  obtain w where x: "extractTar dir archive limit fs = (fs', w, Inr staged)"
    using run by (auto simp: stageTar_def split: prod.splits)
  have "withinLimit limit 0" by (simp add: withinLimit_def)
  then have "headers archive \<noteq> []" "list_all (extracted dir staged fs') (headers archive)" and wf': "wfTree fs'"
    using extractLoop_correct [OF x [unfolded extractTar_def] dir lim wf d] by (blast, blast, simp add: extends_def)
  then obtain h where h: "extracted dir staged fs' h" by (cases "headers archive") auto
  then obtain e es where el: "tarElems (Name h) = e # es" "staged = dir @ CHR ''/'' # e"
    by (cases "tarElems (Name h)") (auto simp: extracted_def)
  then have e: "plainElem e" using tarElems_plain [of "Name h"] by auto
  have "fsKey fs' staged = fsKey fs' dir @ [e]"
    unfolding el(2) using properDir_stack(1) [OF dir] e by (rule fsKey_elem)
  moreover have "entryAt fs' (fsKey fs' dir @ e # es) \<noteq> None" using h el(1) by (auto simp: extracted_def)
  ultimately have "entryAt fs' (fsKey fs' staged) \<noteq> None"
    using wfTree_ancestors [OF wf', of "fsKey fs' dir @ [e]" es] by (cases "es = []") auto
  then show "\<exists>e. plainElem e \<and> staged = dir @ CHR ''/'' # e \<and> entryAt fs' (fsKey fs' staged) \<noteq> None"
    using e el(2) by blast
qed

section \<open>Properties of one attempt\<close>

text \<open>A header of the archive, as the output holds it: the top level name became the output.\<close>

definition delivered :: "key \<Rightarrow> filesystem \<Rightarrow> tarHeader \<Rightarrow> bool" where
  "delivered out fs h \<longleftrightarrow>
     tarElems (Name h) \<noteq> []
     \<and> (Typeflag h = TypeDir \<and> entryAt fs (out @ tl (tarElems (Name h))) = Some DirEntry
        \<or> Typeflag h = TypeReg \<and> entryAt fs (out @ tl (tarElems (Name h))) = Some (FileEntry (avail (content h))))"

lemma fetchFromGateway_cases:
  assumes "fetchFromGateway pf a gateway target output limit w = (w', err)"
  shows "(scratch w' = scratch w \<and> err \<noteq> None)
    \<or> (\<exists>resp. response a = Inr resp \<and> StatusCode resp = 200
        \<and> (ContentType resp = [] \<or> HasPrefix (ContentType resp) ''application/x-tar'')
        \<and> gatewayCooldowns w' = gatewayCooldowns w
        \<and> publishVia gatewayScratchPrefix (stepCtx a) (lockWait a) (rands a)
            (stageTar (Archive resp) limit) output (scratch w) = (scratch w', err))"
  using assms by (auto simp: fetchFromGateway_def split: sum.splits if_splits prod.splits)

text \<open>What an attempt that staged an archive leaves at the output, once the staged entry was moved there.\<close>

lemma staged_delivered:
  assumes st: "stageTar archive limit dir fs2 = (fs3, Inr staged)" and lim: "limit < max_int64"
    and sc: "properDir dir" "wfTree fs2" "entryAt fs2 (fsKey fs2 dir) = Some DirEntry"
    and moved: "\<And>z. entryAt fs4 (out @ z) = entryAt fs3 (fsKey fs3 staged @ z)"
  shows "nextErr archive = None \<and> headers archive \<noteq> [] \<and> list_all (delivered out fs4) (headers archive)
    \<and> (\<exists>name. \<forall>h \<in> set (headers archive). hd (tarElems (Name h)) = name)"
proof -
  obtain wr where x: "extractTar dir archive limit fs2 = (fs3, wr, Inr staged)"
    using st by (auto simp: stageTar_def split: prod.splits)
  have "withinLimit limit 0" by (simp add: withinLimit_def)
  then have ok: "nextErr archive = None" "headers archive \<noteq> []"
    "list_all (extracted dir staged fs3) (headers archive)"
    using extractLoop_correct [OF x [unfolded extractTar_def] sc(1) lim sc(2,3)] by blast+
  have one: "delivered out fs4 h \<and> staged = dir @ CHR ''/'' # hd (tarElems (Name h))"
    if h: "h \<in> set (headers archive)" for h
  proof -
    have ex: "extracted dir staged fs3 h" using ok(3) h by (simp add: list_all_iff)
    then obtain e es where el: "tarElems (Name h) = e # es" and rt: "staged = dir @ CHR ''/'' # e"
      by (cases "tarElems (Name h)") (auto simp: extracted_def)
    have "fsKey fs3 staged = fsKey fs3 dir @ [e]"
      unfolding rt using properDir_stack(1) [OF sc(1)] tarElems_plain [of "Name h"] el
      by (intro fsKey_elem) auto
    then show ?thesis using ex rt moved [of es] by (auto simp: delivered_def extracted_def el)
  qed
  then have "\<exists>name. \<forall>h \<in> set (headers archive). hd (tarElems (Name h)) = name"
    using ok(2) by (metis append_same_eq append_eq_append_conv list.inject same_append_eq)
  then show ?thesis using ok(1,2) one by (simp add: list_all_iff)
qed


definition plainPlatform :: platform where
  "plainPlatform = \<lparr>backoffs = minuteBackoff, parseDate = \<lambda>_. None, showTime = showInt, sprintf = \<lambda>f args. f\<rparr>"

definition tarResponse :: httpResponse where
  "tarResponse = \<lparr>StatusCode = 200, RetryAfter = [], ContentType = ''application/x-tar'', Archive = sampleArchive\<rparr>"

definition plainAttempt :: attempt where
  "plainAttempt = \<lparr>closedBefore = False, checkedAt = 0, response = Inr tarResponse,
     answeredAt = 1, rands = [''1''], stepCtx = CtxLive, lockWait = Inr, closedAfter = False, callerCtx = CtxLive\<rparr>"

definition plainWorld :: world where
  "plainWorld = \<lparr>scratch = \<lparr>staging = {}, disk = dataDisk\<rparr>, gatewayCooldowns = Map.empty\<rparr>"

lemma gatewayKeys:
  "fsKey fs ''/d/.ipfs-gateway-1'' = [''d'', ''.ipfs-gateway-1'']"
  "fsKey fs ''/d/.ipfs-gateway-1/bafy'' = [''d'', ''.ipfs-gateway-1'', ''bafy'']"
  "fsKey fs ''/d/.ipfs-gateway-1/bafy/a'' = [''d'', ''.ipfs-gateway-1'', ''bafy'', ''a'']"
  by (simp_all add: fsKey_def isRooted_def pushElem.simps)

lemma gatewayPaths:
  "properDir ''/d/.ipfs-gateway-1''" "Dir ''/d/.ipfs-gateway-1/bafy/a'' = ''/d/.ipfs-gateway-1/bafy''"
  "tarElems ''bafy/a'' = [''bafy'', ''a'']" "tarElems ''bafy'' = [''bafy'']"
  by (simp_all add: properDir_def Dir_def Clean_def cleanStack_def isRooted_def renderPath_def pushElem.simps tarElems_def)

lemma dataDisk_gateway: "downloadable gatewayScratchPrefix ''/d/out'' [''1''] dataDisk"
  using dataDisk_downloadable
  by (auto simp: downloadable_def sampleKeys Dir_sample HasPrefix_def gatewayScratchPrefix_def)


section \<open>Properties of the run over the gateways\<close>

lemma gatewayLoop_cooling:
  assumes "\<not> closedBefore b" and "gatewayCoolingDown gateway (checkedAt b) (gatewayCooldowns w) \<noteq> None"
  shows "\<exists>note. gatewayLoop pf ((gateway, b) # rest) target output limit failures w
    = gatewayLoop pf rest target output limit (failures @ [note]) w"
  using assms by auto

text \<open>
  Later runs over gateways as they are configured, of whatever host, port, path and query, in which those
  on the host \<open>hp\<close> come up before the instant \<open>dl\<close>; and the same gateways with everything changed
  that those on \<open>hp\<close> would answer and do, but for when they come up and whether the client is closed then.
\<close>

definition comeUpBefore :: "string \<Rightarrow> int \<Rightarrow> (string \<times> attempt) list \<Rightarrow> bool" where
  "comeUpBefore hp dl entries \<longleftrightarrow>
     (\<forall>(gateway, b) \<in> set entries. \<exists>scheme h port es slash query.
        gatewayParts scheme h port es \<and> queryText query \<and> gateway = plainGateway scheme h port es slash query
        \<and> (authority h port = hp \<longrightarrow> checkedAt b < dl))"

definition answering :: "string \<Rightarrow> (attempt \<Rightarrow> attempt) \<Rightarrow> string \<times> attempt \<Rightarrow> string \<times> attempt" where
  "answering hp f entry =
     (case url_Parse (fst entry) of
        Inl e \<Rightarrow> entry
      | Inr u \<Rightarrow> if Host u = hp then (fst entry, (f (snd entry))\<lparr>closedBefore := closedBefore (snd entry),
          checkedAt := checkedAt (snd entry)\<rparr>) else entry)"

lemma comeUpBefore_Cons:
  assumes "comeUpBefore hp dl ((gateway, b) # rest)"
  obtains scheme h port es slash query where "gatewayParts scheme h port es" "queryText query"
    "gateway = plainGateway scheme h port es slash query" "authority h port = hp \<Longrightarrow> checkedAt b < dl"
    "comeUpBefore hp dl rest" "url_Parse gateway = Inr (partsOf scheme h port (elemsPath es slash) query)"
  using assms plainGateway_parsed by (auto simp: comeUpBefore_def)

text \<open>An attempt at another host leaves the deadline of this one alone.\<close>

lemma fetchFromGateway_other_host:
  assumes "gatewayParts scheme h port es" and "queryText query" and "urlElem target" and "authority h port \<noteq> hp"
    and "fetchFromGateway pf a (plainGateway scheme h port es slash query) target output limit w = (w', err)"
  shows "gatewayCooldowns w' hp = gatewayCooldowns w hp"
  using assms(4,5)
  by (auto simp: fetchFromGateway_def gatewayRequest_plain [OF assms(1,3,2)] startGatewayCooldown_def
      split: sum.splits prod.splits if_splits)

lemma gatewayLoop_leaves_alone:
  assumes "urlElem target" and "comeUpBefore hp dl entries" and "gatewayCooldowns w hp = Some dl"
  shows "gatewayCooldowns (fst (gatewayLoop pf entries target output limit failures w)) hp = Some dl
    \<and> gatewayLoop pf (map (answering hp f) entries) target output limit failures w
      = gatewayLoop pf entries target output limit failures w"
  using assms(2,3)
proof (induction entries arbitrary: failures w)
  case (Cons entry rest)
  obtain gateway b where entry: "entry = (gateway, b)" by (cases entry)
  obtain scheme h port es slash query where g: "gatewayParts scheme h port es" "queryText query"
      "gateway = plainGateway scheme h port es slash query"
    and early: "authority h port = hp \<Longrightarrow> checkedAt b < dl" and rest: "comeUpBefore hp dl rest"
    and parsed: "url_Parse gateway = Inr (partsOf scheme h port (elemsPath es slash) query)"
    using comeUpBefore_Cons Cons.prems(1) unfolding entry by metis
  note ih = Cons.IH [OF rest]
  show ?case
  proof (cases "authority h port = hp")
    case True
    then have "gatewayCoolingDown gateway (checkedAt b) (gatewayCooldowns w) = Some dl"
      using Cons.prems(2) early parsed by (simp add: gatewayCoolingDown_def hostCoolingDown_def)
    then show ?thesis using ih [OF Cons.prems(2)] Cons.prems(2) parsed True by (simp add: entry answering_def)
  next
    case False
    then have same: "answering hp f entry = entry" using parsed by (simp add: entry answering_def)
    obtain w1 err where at: "fetchFromGateway pf b gateway target output limit w = (w1, err)"
      by (cases "fetchFromGateway pf b gateway target output limit w")
    then have "gatewayCooldowns w1 hp = Some dl"
      using fetchFromGateway_other_host [OF g(1,2) assms(1) False] g(3) Cons.prems(2) by simp
    then show ?thesis
      using ih [OF Cons.prems(2)] ih [of w1] Cons.prems(2) at same by (simp add: entry split: option.split)
  qed
qed simp

text \<open>
  Runs one after the other, each from whatever the disk and the staging directories are by then: the
  cooldowns are what they share.
\<close>

type_synonym gatewayRun = "scratchState \<times> string \<times> string \<times> int64 \<times> (string \<times> attempt) list"

fun laterRuns :: "platform \<Rightarrow> gatewayRun list \<Rightarrow> world \<Rightarrow> world" where
  "laterRuns pf [] w = w"
| "laterRuns pf ((sc, target, dest, sizeLimit, entries) # runs) w =
     laterRuns pf runs (fst (fetchFromGateways pf entries target dest sizeLimit (w\<lparr>scratch := sc\<rparr>)))"

definition runsBefore :: "string \<Rightarrow> int \<Rightarrow> gatewayRun list \<Rightarrow> bool" where
  "runsBefore hp dl runs \<longleftrightarrow>
     (\<forall>(sc, target, dest, sizeLimit, entries) \<in> set runs. urlElem target \<and> comeUpBefore hp dl entries)"

lemma fetchFromGateways_leaves_alone:
  assumes "urlElem target" and "comeUpBefore hp dl entries" and "gatewayCooldowns w hp = Some dl"
  shows "gatewayCooldowns (fst (fetchFromGateways pf entries target output limit w)) hp = Some dl"
    and "fetchFromGateways pf (map (answering hp f) entries) target output limit w
      = fetchFromGateways pf entries target output limit w"
  using gatewayLoop_leaves_alone [OF assms] assms(3) by (simp_all add: fetchFromGateways_def)

lemma laterRuns_leave_alone:
  "\<lbrakk>runsBefore hp dl runs; gatewayCooldowns w hp = Some dl\<rbrakk> \<Longrightarrow> gatewayCooldowns (laterRuns pf runs w) hp = Some dl"
proof (induction pf runs w rule: laterRuns.induct)
  case (2 pf sc target dest sizeLimit entries runs w)
  then show ?case using fetchFromGateways_leaves_alone(1) [of target hp dl entries "w\<lparr>scratch := sc\<rparr>"]
    by (simp add: runsBefore_def)
qed simp

text \<open>
  C33. A throttled host is left alone until it said. When a gateway answers 429, 502, 503 or 504, the
  attempt fails and its host and port get a deadline, the delay its \<open>Retry-After\<close> asks for after the answer.
  Through any number of runs that follow, over gateways on any hosts answering anything, as long as those
  on this host come up before the deadline, the deadline stays what it is, and every gateway on that host
  that comes up before it is passed over without a request: wherever it stands in the list, the run is the
  same whatever it would have answered. Any other status, such as 404 or 410, leaves the cooldowns as they
  were.
\<close>

theorem throttled_host_left_alone:
  assumes "gatewayParts scheme h port es" and "urlElem target" and "queryText query"
    and "response a = Inr resp" and "StatusCode resp \<noteq> 200"
    and "fetchFromGateway pf a (plainGateway scheme h port es slash query) target output limit w = (w', err)"
    and "dl = answeredAt a + retryAfterDelay (backoffs pf) (parseDate pf) (answeredAt a) (RetryAfter resp)"
  shows "scratch w' = scratch w \<and> err = Some (Errorf ''http %d'' [showInt (int (StatusCode resp))])
    \<and> (StatusCode resp \<notin> throttled \<longrightarrow> gatewayCooldowns w' = gatewayCooldowns w)
    \<and> (StatusCode resp \<in> throttled \<longrightarrow>
        (\<forall>runs. runsBefore (authority h port) dl runs \<longrightarrow>
          gatewayCooldowns (laterRuns pf runs w') (authority h port) = Some dl
          \<and> (\<forall>sc target2 output2 limit2 entries f.
              urlElem target2 \<and> comeUpBefore (authority h port) dl entries \<longrightarrow>
              fetchFromGateways pf (map (answering (authority h port) f) entries) target2 output2 limit2
                  ((laterRuns pf runs w')\<lparr>scratch := sc\<rparr>)
                = fetchFromGateways pf entries target2 output2 limit2 ((laterRuns pf runs w')\<lparr>scratch := sc\<rparr>))
          \<and> (\<forall>scheme2 es2 slash2 query2 b rest failures target2 output2 limit2.
              gatewayParts scheme2 h port es2 \<and> queryText query2 \<and> \<not> closedBefore b \<and> checkedAt b < dl \<longrightarrow>
              (\<exists>note. gatewayLoop pf ((plainGateway scheme2 h port es2 slash2 query2, b) # rest) target2 output2 limit2
                    failures (laterRuns pf runs w')
                 = gatewayLoop pf rest target2 output2 limit2 (failures @ [note]) (laterRuns pf runs w')))))"
proof -
  let ?hp = "authority h port"
  have w': "gatewayCooldowns w' = (if StatusCode resp \<in> throttled then (gatewayCooldowns w)(?hp \<mapsto> dl) else gatewayCooldowns w)"
    "scratch w' = scratch w" "err = Some (Errorf ''http %d'' [showInt (int (StatusCode resp))])"
    using assms(4-7) by (auto simp: fetchFromGateway_def gatewayRequest_plain [OF assms(1-3)] startGatewayCooldown_def)
  have there: "gatewayCooldowns (laterRuns pf runs w') ?hp = Some dl"
    if "StatusCode resp \<in> throttled" "runsBefore ?hp dl runs" for runs
    using that w'(1) by (intro laterRuns_leave_alone) simp_all
  have "gatewayCoolingDown (plainGateway scheme2 h port es2 slash2 query2) t (gatewayCooldowns w2) \<noteq> None"
    if "gatewayParts scheme2 h port es2" "queryText query2" "t < dl" "gatewayCooldowns w2 ?hp = Some dl"
    for scheme2 es2 slash2 query2 t w2
    using that plainGateway_parsed [OF that(1,2), of slash2] by (simp add: gatewayCoolingDown_def hostCoolingDown_def)
  then have skipped: "\<exists>note. gatewayLoop pf ((plainGateway scheme2 h port es2 slash2 query2, b) # rest) target2 output2 limit2
        failures (laterRuns pf runs w')
      = gatewayLoop pf rest target2 output2 limit2 (failures @ [note]) (laterRuns pf runs w')"
    if "StatusCode resp \<in> throttled" "runsBefore ?hp dl runs"
      "gatewayParts scheme2 h port es2 \<and> queryText query2 \<and> \<not> closedBefore b \<and> checkedAt b < dl"
    for runs scheme2 es2 slash2 query2 b rest failures target2 output2 limit2
    using that there [OF that(1,2)] by (intro gatewayLoop_cooling) auto
  have same: "fetchFromGateways pf (map (answering ?hp f) entries) target2 output2 limit2 ((laterRuns pf runs w')\<lparr>scratch := sc\<rparr>)
      = fetchFromGateways pf entries target2 output2 limit2 ((laterRuns pf runs w')\<lparr>scratch := sc\<rparr>)"
    if "StatusCode resp \<in> throttled" "runsBefore ?hp dl runs" "urlElem target2 \<and> comeUpBefore ?hp dl entries"
    for runs sc target2 output2 limit2 entries f
    using that there [OF that(1,2)] by (intro fetchFromGateways_leaves_alone(2)) auto
  have "gatewayCooldowns w' = gatewayCooldowns w" if "StatusCode resp \<notin> throttled" using that w'(1) by simp
  then show ?thesis using w'(2,3) there same skipped by (intro conjI impI allI)
qed

definition busyAttempt :: attempt where
  "busyAttempt = plainAttempt\<lparr>response := Inr (tarResponse\<lparr>StatusCode := 429, RetryAfter := ''12''\<rparr>)\<rparr>"

theorem throttled_host_left_alone_witness:
  "\<exists>w'. fetchFromGateway plainPlatform busyAttempt ''https://g'' ''bafy'' ''/d/out'' 5 plainWorld
       = (w', Some (Errorf ''http %d'' [showInt 429]))
     \<and> gatewayCooldowns (laterRuns plainPlatform
         [(scratch plainWorld, ''bafy'', ''/d/out'', 5, [(''https://g'', plainAttempt\<lparr>checkedAt := 9\<rparr>)])] w') ''g''
       = Some 12000000001"
proof -
  let ?resp = "tarResponse\<lparr>StatusCode := 429, RetryAfter := ''12''\<rparr>"
  let ?runs = "[(scratch plainWorld, ''bafy'', ''/d/out'', 5, [(''https://g'', plainAttempt\<lparr>checkedAt := 9\<rparr>)])]"
  obtain w' err where r: "fetchFromGateway plainPlatform busyAttempt ''https://g'' ''bafy'' ''/d/out'' 5 plainWorld = (w', err)"
    by (cases "fetchFromGateway plainPlatform busyAttempt ''https://g'' ''bafy'' ''/d/out'' 5 plainWorld")
  have req: "response busyAttempt = Inr ?resp" "StatusCode ?resp \<noteq> 200"
    by (simp_all add: busyAttempt_def plainAttempt_def)
  have "retryAfterDelay minuteBackoff (\<lambda>_. None) 1 ''12'' = 12000000000"
    by (simp add: retryAfterDelay_def parseInt64_def parseDigits_def isDigit_def digitVal_def is_int64_def
        second_def wrap64_def minuteBackoff_def)
  then have dl: "12000000001 = answeredAt busyAttempt
      + retryAfterDelay (backoffs plainPlatform) (parseDate plainPlatform) (answeredAt busyAttempt) (RetryAfter ?resp)"
    by (simp add: plainPlatform_def plainAttempt_def busyAttempt_def)
  have sc: "StatusCode ?resp \<in> throttled" by (simp add: throttled_def)
  have "comeUpBefore ''g'' 12000000001 [(''https://g'', plainAttempt\<lparr>checkedAt := 9\<rparr>)]"
    using sampleGateway unfolding comeUpBefore_def by (simp, metis)
  then have before: "runsBefore (authority ''g'' []) 12000000001 ?runs"
    using sampleGateway(2) by (simp add: runsBefore_def sampleGateway(5))
  note th = throttled_host_left_alone [OF sampleGateway(1-3) req, of plainPlatform False, unfolded sampleGateway(4), OF r dl]
  have "gatewayCooldowns (laterRuns plainPlatform ?runs w') (authority ''g'' []) = Some 12000000001"
    using th sc before by blast
  then show ?thesis using th r by (auto simp: sampleGateway(5))
qed

text \<open>
  A gateway written with a colon and no port is asked without it, but looked up with it, so a pause it
  asked for is never kept.
\<close>

lemma empty_port_not_paused:
  "(case gatewayRequest ''https://g:'' ''bafy'' of
      Inl e \<Rightarrow> False
    | Inr url \<Rightarrow> gatewayCoolingDown ''https://g:'' 5 (startGatewayCooldown minuteBackoff (\<lambda>_. None) (Host url) [] 0 Map.empty) = None)"
proof -
  have "map_sum (\<lambda>e. ()) Host (gatewayRequest ''https://g:'' ''bafy'') = Inr ''g''"
    "map_sum (\<lambda>e. ()) Host (url_Parse ''https://g:'') = Inr ''g:''" by code_simp+
  then show ?thesis
    by (cases "gatewayRequest ''https://g:'' ''bafy''"; cases "url_Parse ''https://g:''")
       (simp_all add: gatewayCoolingDown_def hostCoolingDown_def startGatewayCooldown_def)
qed

text \<open>How a run can end, by induction along the gateways.\<close>

lemma gatewayLoop_result:
  assumes "gatewayLoop pf attempts target output limit failures w = (w', err)"
  shows "(err = None \<longrightarrow> (\<exists>i < length attempts. \<exists>w1.
          fetchFromGateway pf (snd (attempts ! i)) (fst (attempts ! i)) target output limit w1 = (w', None)
          \<and> \<not> closedBefore (snd (attempts ! i))
          \<and> gatewayCoolingDown (fst (attempts ! i)) (checkedAt (snd (attempts ! i))) (gatewayCooldowns w1) = None))
    \<and> (\<forall>e. err = Some e \<longrightarrow> e = ErrClosed \<or> isSizeLimit e \<or> e = Timeout \<or> e = Canceled
          \<or> (\<exists>why. e = Errorf ''no gateway served the content (%s)'' [why]))
    \<and> (attempts \<noteq> [] \<and> closedBefore (snd (hd attempts)) \<longrightarrow> w' = w \<and> err = Some ErrClosed)"
  using assms
proof (induction pf attempts target "output" limit failures w rule: gatewayLoop.induct)
  case (1 pf target "output" limit failures w)
  then show ?case by auto
next
  case (2 pf gateway a rest target "output" limit failures w)
  consider (closed) "closedBefore a"
    | (cooling) dl where "\<not> closedBefore a"
        "gatewayCoolingDown gateway (checkedAt a) (gatewayCooldowns w) = Some dl"
    | (asked) w1 r where "\<not> closedBefore a"
        "gatewayCoolingDown gateway (checkedAt a) (gatewayCooldowns w) = None"
        "fetchFromGateway pf a gateway target output limit w = (w1, r)"
    by (metis not_None_eq surj_pair)
  then show ?case
  proof cases
    case closed
    then show ?thesis using "2.prems" by auto
  next
    case cooling
    note ih = "2.IH"(2) [OF cooling]
    show ?thesis using ih cooling "2.prems" by fastforce
  next
    case asked
    consider (served) "r = None" | (ends) e where "r = Some e" "closedAfter a \<or> isSizeLimit e \<or> callerCtx a \<noteq> CtxLive"
      | (failed) e where "r = Some e" "\<not> closedAfter a" "\<not> isSizeLimit e" "\<not> callerCtx a \<noteq> CtxLive" by (cases r) blast+
    then show ?thesis
    proof cases
      case served
      then have "w1 = w'" "err = None" using asked "2.prems" by simp_all
      then show ?thesis using asked served by (auto intro!: exI [of _ 0] exI [of _ w])
    next
      case ends
      then show ?thesis using asked "2.prems"
        by (cases "callerCtx a") (auto simp: contextError_def split: if_splits)
    next
      case failed
      note ih = "2.IH"(1) [OF asked(1,2) asked(3) [symmetric] failed]
      have "gatewayLoop pf rest target output limit (failures @ [gateway @ '': '' @ errorMessage (sprintf pf) e]) w1 = (w', err)"
        using asked failed "2.prems" by simp
      from ih [OF this] show ?thesis using asked by fastforce
    qed
  qed
qed

text \<open>
  What the run over the gateways ends with. It succeeds only through an attempt that succeeded,
  on a gateway that was not cooling down; it fails with the error of a closed client, a size limit
  just as the attempt reported it, the caller's own deadline or cancellation, or the list of what
  went wrong. Once the client was found closed or the content too large no further gateway is asked.
\<close>

theorem gatewayLoop_outcome:
  assumes "gatewayLoop pf attempts target output limit failures w = (w', err)"
  shows "(err = None \<longrightarrow> (\<exists>i < length attempts. \<exists>w1.
          fetchFromGateway pf (snd (attempts ! i)) (fst (attempts ! i)) target output limit w1 = (w', None)
          \<and> \<not> closedBefore (snd (attempts ! i))
          \<and> gatewayCoolingDown (fst (attempts ! i)) (checkedAt (snd (attempts ! i))) (gatewayCooldowns w1) = None))
    \<and> (\<forall>e. err = Some e \<longrightarrow> e = ErrClosed \<or> isSizeLimit e \<or> e = Timeout \<or> e = Canceled
          \<or> (\<exists>why. e = Errorf ''no gateway served the content (%s)'' [why]))
    \<and> (attempts \<noteq> [] \<and> closedBefore (snd (hd attempts)) \<longrightarrow> w' = w \<and> err = Some ErrClosed)"
  using gatewayLoop_result [OF assms] .

theorem gatewayLoop_outcome_witness:
  "gatewayLoop plainPlatform [(''https://g'', plainAttempt\<lparr>closedBefore := True\<rparr>)] ''bafy'' ''/d/out'' 5 [] plainWorld
     = (plainWorld, Some ErrClosed)"
proof -
  obtain w' err where r: "gatewayLoop plainPlatform [(''https://g'', plainAttempt\<lparr>closedBefore := True\<rparr>)] ''bafy'' ''/d/out'' 5 []
      plainWorld = (w', err)"
    by (cases "gatewayLoop plainPlatform [(''https://g'', plainAttempt\<lparr>closedBefore := True\<rparr>)] ''bafy'' ''/d/out'' 5 [] plainWorld")
  show ?thesis using gatewayLoop_outcome [OF r] r by simp
qed

end
