(* ===== verification/Get.thy ===== *)
theory Get
  imports Deadline Fallback
begin

text \<open>
  \<open>Client.Get\<close> of \<open>client.go\<close>: the primary phase, the decision whether the fallback may run,
  and which error the caller sees.
\<close>

section \<open>Waiting for the primary phase\<close>

text \<open>
  Which case of the \<open>select\<close> in \<open>awaitDownload\<close> runs: a result, with what the context says by
  then; or the context being done, with the result the inner \<open>select\<close> finds, if any.
\<close>

datatype selected =
    ResultReady "error option" ctxState
  | CtxDone ctxState "error option option"

fun awaitDownload :: "selected \<Rightarrow> error option" where
  "awaitDownload (ResultReady res ctx) =
     (case res of
        Some e \<Rightarrow> if ctx \<noteq> CtxLive \<and> \<not> conclusive e then contextError ctx else Some e
      | None \<Rightarrow> None)"
| "awaitDownload (CtxDone ctx buffered) =
     (case buffered of
        Some None \<Rightarrow> None
      | Some (Some e) \<Rightarrow> if conclusive e then Some e else contextError ctx
      | None \<Rightarrow> contextError ctx)"

text \<open>What the goroutine of \<open>getPrimary\<close> sends: \<open>acquire\<close>'s error, or what the download returns.\<close>

definition primaryGoroutine :: "error + 'n \<Rightarrow> ('n \<Rightarrow> scratchState \<Rightarrow> scratchState \<times> error option)
    \<Rightarrow> scratchState \<Rightarrow> scratchState \<times> error option" where
  "primaryGoroutine acquired run s =
     (case acquired of Inl e \<Rightarrow> (s, Some e) | Inr n \<Rightarrow> run n s)"

text \<open>
  The primary phase as the caller meets it, under the timeout it was given: what its goroutine has
  done to the disk by the time \<open>awaitDownload\<close> returns, and what that found.
\<close>

type_synonym primaryRun = "int64 option \<Rightarrow> scratchState \<Rightarrow> scratchState \<times> selected"

definition getPrimary :: "primaryRun \<Rightarrow> int64 option \<Rightarrow> world \<Rightarrow> world \<times> error option" where
  "getPrimary primary budget w =
     (case primary budget (scratch w) of (sc, sel) \<Rightarrow> (w\<lparr>scratch := sc\<rparr>, awaitDownload sel))"

section \<open>Get\<close>

text \<open>
  What a call meets: the outcome of \<open>cid.Parse\<close>, as the text \<open>target.String()\<close> gives, the time left to the caller's deadline, the
  primary phase, the caller's context and the client's state once it has failed, and what the attempt
  at each gateway meets, by its place in the list.
\<close>

record getRun =
  parsedCid :: "error + string"
  timeLeft :: "int64 option"
  primary :: primaryRun
  ctxAfterPrimary :: ctxState
  closedAfterPrimary :: bool
  attempts :: "nat \<Rightarrow> attempt"

definition attemptsOf :: "retrieval \<Rightarrow> getRun \<Rightarrow> (string \<times> attempt) list" where
  "attemptsOf c g = map (\<lambda>(i, gateway). (gateway, attempts g i)) (enumerate 0 (gateways c))"

definition Get :: "platform \<Rightarrow> retrieval \<Rightarrow> getRun \<Rightarrow> string \<Rightarrow> string \<Rightarrow> int64 \<Rightarrow> world
    \<Rightarrow> world \<times> error option" where
  "Get pf c g cidStr output sizeLimit w =
     (case parsedCid g of
        Inl e \<Rightarrow> (w, Some (Wrapped (sprintf pf ''invalid cid %q'' [cidStr]) e))
      | Inr parsed \<Rightarrow>
        (case getPrimary (primary g) (primaryDeadline c (timeLeft g)) w of
           (w1, None) \<Rightarrow> (w1, None)
         | (w1, Some err) \<Rightarrow>
             if errorsIs err ErrClosed then (w1, Some err)
             else if asSizeLimit err \<noteq> None then (w1, Some err)
             else if ctxAfterPrimary g \<noteq> CtxLive then (w1, contextError (ctxAfterPrimary g))
             else if \<not> fallbackAvailable c then (w1, Some err)
             else if closedAfterPrimary g then (w1, Some ErrClosed)
             else
               (case fetchFromGateways pf (attemptsOf c g) parsed output sizeLimit w1 of
                  (w2, None) \<Rightarrow> (w2, None)
                | (w2, Some fallbackErr) \<Rightarrow>
                    if asSizeLimit fallbackErr \<noteq> None then (w2, Some fallbackErr)
                    else (w2, Some (Joined [err, fallbackErr])))))"

text \<open>The errors the libraries and the primary phase hand over are as they were made.\<close>

definition errorsAsMade :: "getRun \<Rightarrow> bool" where
  "errorsAsMade g \<longleftrightarrow>
     (\<forall>e. parsedCid g = Inl e \<longrightarrow> asSizeLimit e = None)
     \<and> (\<forall>budget s e. awaitDownload (snd (primary g budget s)) = Some e \<longrightarrow> bareSizeLimit e)"

lemma getPrimary_error:
  "getPrimary p budget w = (w1, Some e) \<Longrightarrow> awaitDownload (snd (p budget (scratch w))) = Some e"
  by (auto simp: getPrimary_def split: prod.splits)

lemma isSizeLimit_iff: "isSizeLimit e \<longleftrightarrow> (\<exists>s l. e = SizeLimitError s l)"
  by (cases e) auto

lemma fetchFromGateways_sizeLimit:
  assumes "fetchFromGateways pf as target output limit w = (w', Some e)" and "asSizeLimit e \<noteq> None"
  shows "isSizeLimit e"
proof (cases "as = []")
  case False
  then have "gatewayLoop pf as target output limit [] w = (w', Some e)" using assms(1) by (simp add: fetchFromGateways_def)
  from gatewayLoop_result [OF this] assms(2) show ?thesis by (auto simp: Timeout_def)
qed (use assms in \<open>auto simp: fetchFromGateways_def\<close>)

section \<open>Properties\<close>

text \<open>
  A finished download is worth more than the deadline it arrived on. Whichever case the select
  picks, success is reported as success and an error that no other source would answer differently
  is reported as itself; any other failure, once the context has ended, is reported as the timeout or
  cancellation, and never as success.
\<close>

theorem awaitDownload_prefers_result:
  "(awaitDownload (ResultReady None ctx) = None \<and> awaitDownload (CtxDone ctx (Some None)) = None)
   \<and> (conclusive e \<longrightarrow> awaitDownload (ResultReady (Some e) ctx) = Some e
        \<and> awaitDownload (CtxDone ctx (Some (Some e))) = Some e)
   \<and> (\<not> conclusive e \<and> ctx \<noteq> CtxLive \<longrightarrow>
        awaitDownload (ResultReady (Some e) ctx) = contextError ctx
        \<and> awaitDownload (CtxDone ctx (Some (Some e))) = contextError ctx
        \<and> awaitDownload (CtxDone ctx None) = contextError ctx \<and> contextError ctx \<noteq> None)
   \<and> contextError DeadlineExceeded = Some Timeout"
  by (auto simp: contextError_def split: ctxState.split)

theorem awaitDownload_prefers_result_witness:
  "awaitDownload (CtxDone DeadlineExceeded (Some (Some (SizeLimitError 6 5)))) = Some (SizeLimitError 6 5)
   \<and> awaitDownload (ResultReady (Some (Errorf ''no peers'' [])) DeadlineExceeded) = Some Timeout"
  using awaitDownload_prefers_result [of DeadlineExceeded "SizeLimitError 6 5"]
    awaitDownload_prefers_result [of DeadlineExceeded "Errorf ''no peers'' []"] by simp

text \<open>
  If the primary phase ends with a size limit only as itself, so does \<open>Get\<close>: the error it returns is never
  one that carries a size limit somewhere inside. \<open>Size_Errors\<close> shows it of the phase the program runs.
\<close>

lemma Get_size_limit:
  assumes "errorsAsMade g" and "Get pf c g cidStr output limit w = (w', Some e)"
  shows "(asSizeLimit e \<noteq> None \<longrightarrow> (\<exists>s l. e = SizeLimitError s l) \<and> hasMessagePrefix fmtf sizeLimitPrefix e)
    \<and> (\<forall>w1 s l parsed. parsedCid g = Inr parsed \<longrightarrow>
          getPrimary (primary g) (primaryDeadline c (timeLeft g)) w = (w1, Some (SizeLimitError s l)) \<longrightarrow>
          e = SizeLimitError s l \<and> w' = w1)"
proof -
  have bare: "isSizeLimit e1" if "getPrimary (primary g) b w = (w1, Some e1)" "asSizeLimit e1 \<noteq> None" for b w1 e1
  proof -
    have "bareSizeLimit e1" using getPrimary_error [OF that(1)] assms(1) by (simp add: errorsAsMade_def)
    with that(2) show ?thesis by (cases e1) auto
  qed
  have "isSizeLimit e" if lim: "asSizeLimit e \<noteq> None"
  proof (cases "parsedCid g")
    case (Inl x)
    then show ?thesis using assms lim by (auto simp: Get_def errorsAsMade_def)
  next
    case (Inr parsed)
    obtain w1 r where p: "getPrimary (primary g) (primaryDeadline c (timeLeft g)) w = (w1, r)"
      by (cases "getPrimary (primary g) (primaryDeadline c (timeLeft g)) w")
    have ctx: "contextError ctx \<noteq> Some e" for ctx
      using lim by (cases ctx) (auto simp: contextError_def Timeout_def)
    show ?thesis
      using assms(2) Inr p bare lim ctx fetchFromGateways_sizeLimit [of pf "attemptsOf c g" parsed "output" limit w1]
      by (auto simp: Get_def split: option.splits if_splits prod.splits)
  qed
  then have "asSizeLimit e \<noteq> None \<longrightarrow> (\<exists>s l. e = SizeLimitError s l)" by (simp add: isSizeLimit_iff)
  then show ?thesis using assms(2) by (auto simp: Get_def)
qed

text \<open>A run on the sample disk: the verified path finds content of six bytes under a limit of five.\<close>

definition tooLargeRun :: getRun where
  "tooLargeRun = \<lparr>parsedCid = Inr ''bafy'', timeLeft = None,
     primary = \<lambda>budget s. (s, ResultReady (Some (SizeLimitError 6 5)) CtxLive),
     ctxAfterPrimary = CtxLive, closedAfterPrimary = False, attempts = \<lambda>i. plainAttempt\<rparr>"

definition fallbackClient :: retrieval where
  "fallbackClient = \<lparr>gateways = [''https://g''], allowUnverified = True, primaryTimeout = 15000000000,
     fallbackStepTimeout = 15000000000\<rparr>"

definition fallbackRuns :: "retrieval \<Rightarrow> getRun \<Rightarrow> error option \<Rightarrow> bool" where
  "fallbackRuns c g err \<longleftrightarrow>
     allowUnverified c \<and> gateways c \<noteq> [] \<and> ctxAfterPrimary g = CtxLive \<and> \<not> closedAfterPrimary g
     \<and> (\<exists>e. err = Some e \<and> \<not> conclusive e)"

text \<open>\<open>Get\<close> once the primary phase has failed.\<close>

lemma Get_after_primary:
  assumes "parsedCid g = Inr parsed"
    and "getPrimary (primary g) (primaryDeadline c (timeLeft g)) w = (w1, Some e)"
  shows "Get pf c g cidStr output limit w =
     (if conclusive e then (w1, Some e)
      else if ctxAfterPrimary g \<noteq> CtxLive then (w1, contextError (ctxAfterPrimary g))
      else if \<not> fallbackAvailable c then (w1, Some e)
      else if closedAfterPrimary g then (w1, Some ErrClosed)
      else (case fetchFromGateways pf (attemptsOf c g) parsed output limit w1 of
              (w2, None) \<Rightarrow> (w2, None)
            | (w2, Some fe) \<Rightarrow> (w2, Some (if asSizeLimit fe \<noteq> None then fe else Joined [e, fe]))))"
  using assms by (auto simp: Get_def conclusive_def split: prod.split option.split)

text \<open>
  C8. Unverified content is a last resort. The fallback runs only when it was allowed and a gateway
  is configured, the primary phase failed with an error another source might not share, the caller's
  context is still live and the client is not closed. In every other case \<open>Get\<close> leaves the world
  exactly as the primary phase left it, whatever the gateways would have answered, and its error is
  the primary's, the caller's deadline or cancellation, or that of a closed client.
\<close>

theorem Get_fallback_is_last_resort:
  assumes "parsedCid g = Inr parsed"
    and "getPrimary (primary g) (primaryDeadline c (timeLeft g)) w = (w1, err)"
  shows "(\<not> fallbackRuns c g err \<longrightarrow>
          fst (Get pf c g cidStr output limit w) = w1
          \<and> (snd (Get pf c g cidStr output limit w) = None \<longleftrightarrow> err = None)
          \<and> (\<forall>e. err = Some e \<and> conclusive e \<longrightarrow> snd (Get pf c g cidStr output limit w) = Some e)
          \<and> (\<forall>e. err = Some e \<and> \<not> conclusive e \<and> ctxAfterPrimary g \<noteq> CtxLive \<longrightarrow>
                snd (Get pf c g cidStr output limit w) = contextError (ctxAfterPrimary g)))
    \<and> (fallbackRuns c g err \<longrightarrow>
          fst (Get pf c g cidStr output limit w) = fst (fetchFromGateways pf (attemptsOf c g) parsed output limit w1)
          \<and> (snd (Get pf c g cidStr output limit w) = None
              \<longleftrightarrow> snd (fetchFromGateways pf (attemptsOf c g) parsed output limit w1) = None))"
proof (cases err)
  case None
  then show ?thesis using assms by (simp add: Get_def fallbackRuns_def)
next
  case (Some e)
  note g = Get_after_primary [OF assms(1) assms(2) [unfolded Some]]
  show ?thesis
  proof (cases "fallbackRuns c g err")
    case True
    then show ?thesis using Some
      by (auto simp: g fallbackRuns_def fallbackAvailable_def split: prod.split option.split)
  next
    case False
    then show ?thesis using Some
      by (auto simp: g fallbackRuns_def fallbackAvailable_def)
  qed
qed

theorem Get_fallback_is_last_resort_witness:
  "fst (Get plainPlatform fallbackClient tooLargeRun ''bafy'' ''/d/out'' 5 plainWorld)
     = plainWorld"
proof -
  have p: "parsedCid tooLargeRun = Inr ''bafy''"
    "getPrimary (primary tooLargeRun) (primaryDeadline fallbackClient (timeLeft tooLargeRun)) plainWorld
       = (plainWorld, Some (SizeLimitError 6 5))"
    by (simp_all add: tooLargeRun_def getPrimary_def plainWorld_def)
  have "\<not> fallbackRuns fallbackClient tooLargeRun (Some (SizeLimitError 6 5))" by (simp add: fallbackRuns_def)
  then show ?thesis using Get_fallback_is_last_resort [OF p] by blast
qed

end
