(* ===== verification/Resolver.thy ===== *)
theory Resolver
  imports Go_Net Cooldown
begin

text \<open>
  \<open>resolver.go\<close>: the DNS servers TXT lookups are sent to, and the process-wide cache of their
  answers. The answer of the servers and the result of building the third-party resolver are
  arguments.
\<close>

section \<open>Server addresses\<close>

definition dnsPort :: string where "dnsPort = ''53''"

definition dnsServerAddr :: "string \<Rightarrow> error + string" where
  "dnsServerAddr server =
     (if SplitHostPort server \<noteq> None then Inr server
      else if ParseAddr server = None then Inl (Errorf ''not an ip address'' [])
      else Inr (JoinHostPort server dnsPort))"

section \<open>newResolver\<close>

text \<open>
  The servers of the resolver built, or none at all. \<open>built\<close> is the outcome of
  \<open>madns.NewResolver\<close>.
\<close>

fun validServers :: "string list \<Rightarrow> string list" where
  "validServers [] = []"
| "validServers (server # servers) =
     (case dnsServerAddr server of
        Inl e \<Rightarrow> validServers servers
      | Inr addr \<Rightarrow> addr # validServers servers)"

definition newResolver :: "error option \<Rightarrow> string list \<Rightarrow> error + string list option" where
  "newResolver built servers =
     (if servers = [] then Inr None
      else
        let addrs = validServers servers in
        if addrs = [] then
          Inl (Errorf ''none of the %d configured dns servers is a valid address'' [showInt (int (length servers))])
        else (case built of Some e \<Rightarrow> Inl e | None \<Rightarrow> Inr (Some addrs)))"

text \<open>
  The \<open>Dial\<close> function: \<open>addrs[int(next.Add(1)-1)%len(addrs)]\<close>. The counter is unsigned 64
  bits, \<open>int\<close> has as many bits as the platform's words, and Go's remainder takes the sign of
  the dividend; a negative index panics, which is \<open>None\<close>.
\<close>

definition toInt :: "nat \<Rightarrow> int \<Rightarrow> int" where
  "toInt bits x = (x + 2 ^ (bits - 1)) mod 2 ^ bits - 2 ^ (bits - 1)"

definition goRem :: "int \<Rightarrow> int \<Rightarrow> int" where
  "goRem a b = (if 0 \<le> a then a mod b else - ((- a) mod b))"

definition dialServer :: "nat \<Rightarrow> string list \<Rightarrow> int \<Rightarrow> string option \<times> int" where
  "dialServer bits addrs counter =
     (let i = goRem (toInt bits counter) (int (length addrs)) in
      (if 0 \<le> i \<and> nat i < length addrs then Some (addrs ! nat i) else None,
       (counter + 1) mod 2 ^ 64))"

fun dialServers :: "nat \<Rightarrow> string list \<Rightarrow> int \<Rightarrow> nat \<Rightarrow> string option list" where
  "dialServers bits addrs counter 0 = []"
| "dialServers bits addrs counter (Suc k) =
     fst (dialServer bits addrs counter) # dialServers bits addrs (snd (dialServer bits addrs counter)) k"

section \<open>The TXT cache\<close>

definition txtAnswerLifetime :: int where "txtAnswerLifetime = 3600000000000"
definition txtAnswerLimit :: nat where "txtAnswerLimit = 64"

record txtAnswer =
  records :: "string list"
  until :: int

text \<open>The map, as the list of its entries.\<close>

type_synonym txtCache = "(string \<times> txtAnswer) list"

definition newTXTCache :: txtCache where "newTXTCache = []"

definition lookup :: "string \<Rightarrow> int \<Rightarrow> txtCache \<Rightarrow> string list option" where
  "lookup name now cache =
     (case map_of cache name of
        None \<Rightarrow> None
      | Some answer \<Rightarrow> if until answer < now then None else Some (records answer))"

definition keep :: "string \<Rightarrow> string list \<Rightarrow> int \<Rightarrow> txtCache \<Rightarrow> txtCache" where
  "keep name recs now cache =
     (let cache1 = (if txtAnswerLimit \<le> length cache
                    then filter (\<lambda>(cached, answer). \<not> until answer < now) cache else cache)
      in if txtAnswerLimit \<le> length cache1 then cache1
         else AList.update name \<lparr>records = recs, until = now + txtAnswerLifetime\<rparr> cache1)"

text \<open>\<open>txtOverride.LookupTXT\<close>: the cache before and after, and whether the servers were asked.\<close>

definition LookupTXT :: "(string \<Rightarrow> error + string list) \<Rightarrow> string \<Rightarrow> int \<Rightarrow> txtCache
    \<Rightarrow> (error + string list) \<times> txtCache" where
  "LookupTXT servers name now cache =
     (case lookup name now cache of
        Some recs \<Rightarrow> (Inr recs, cache)
      | None \<Rightarrow>
          (case servers name of
             Inl e \<Rightarrow> (Inl e, cache)
           | Inr recs \<Rightarrow> (Inr recs, keep name recs now cache)))"

section \<open>The cache as an expiring store\<close>

definition cacheOk :: "txtCache \<Rightarrow> bool" where
  "cacheOk cache \<longleftrightarrow> distinct (map fst cache) \<and> length cache \<le> txtAnswerLimit"

lemma distinct_filter_fst: "distinct (map fst xs) \<Longrightarrow> distinct (map fst (filter P xs))"
  by (induction xs) auto

lemma length_update_le: "length (AList.update k v xs) \<le> Suc (length xs)"
  by (induction xs) auto

lemma cacheOk_keep: "cacheOk cache \<Longrightarrow> cacheOk (keep name recs now cache)"
proof -
  assume ok: "cacheOk cache"
  let ?c = "if txtAnswerLimit \<le> length cache then filter (\<lambda>(cached, answer). \<not> until answer < now) cache else cache"
  have d: "distinct (map fst ?c)" using ok by (simp add: cacheOk_def distinct_filter_fst)
  have len: "length ?c \<le> txtAnswerLimit" using ok by (auto simp: cacheOk_def intro: le_trans [OF length_filter_le])
  show ?thesis
  proof (cases "txtAnswerLimit \<le> length ?c")
    case True
    then have "keep name recs now cache = ?c" by (simp add: keep_def Let_def)
    then show ?thesis using d len by (simp only: cacheOk_def)
  next
    case False
    let ?v = "\<lparr>records = recs, until = now + txtAnswerLifetime\<rparr>"
    have "keep name recs now cache = AList.update name ?v ?c" using False by (simp only: keep_def Let_def if_False)
    moreover have "length (AList.update name ?v ?c) \<le> txtAnswerLimit"
      using False length_update_le [of name ?v ?c] by linarith
    moreover have "distinct (map fst (AList.update name ?v ?c))" using d by (rule distinct_update)
    ultimately show ?thesis by (simp only: cacheOk_def)
  qed
qed

text \<open>A live answer survives whatever is kept under another name.\<close>

lemma map_of_filter_live:
  "map_of xs k = Some a \<Longrightarrow> P a \<Longrightarrow> map_of (filter (\<lambda>(k, a). P a) xs) k = Some a"
  by (induction xs) (auto split: if_splits)

lemma map_of_keep_other:
  assumes "k \<noteq> name" and "map_of cache k = Some a" and "now \<le> until a"
  shows "map_of (keep name recs now cache) k = Some a"
  using assms map_of_filter_live [of cache k a "\<lambda>a. \<not> until a < now"]
  by (auto simp: keep_def Let_def update_conv')

interpretation txtAnswers: expiring_store keep lookup
proof unfold_locales
  show "lookup k t' c = Some v" if "lookup k t c = Some v" "t' \<le> t" for k t c v t'
    using that by (auto simp: lookup_def split: option.splits if_splits)
  show "lookup k t (keep k' w t0 c) = Some v" if "lookup k t c = Some v" "k' \<noteq> k" "t0 \<le> t" for k t c v k' w t0
  proof -
    from that(1) obtain a where a: "map_of c k = Some a" "\<not> until a < t" "records a = v"
      by (auto simp: lookup_def split: option.splits if_splits)
    have "map_of (keep k' w t0 c) k = Some a"
      using map_of_keep_other [OF _ a(1)] that(2,3) a(2) by simp
    then show ?thesis using a by (simp add: lookup_def)
  qed
qed

lemma cacheOk_putAll: "cacheOk cache \<Longrightarrow> cacheOk (txtAnswers.putAll ps cache)"
proof (induction ps arbitrary: cache)
  case (Cons p ps)
  obtain k w t where p: "p = (k, w, t)" by (metis prod_cases3)
  then show ?case using Cons.IH [OF cacheOk_keep [OF Cons.prems, of k w t]] by (simp add: txtAnswers.putAll_def)
qed (simp add: txtAnswers.putAll_def)

section \<open>Properties\<close>

text \<open>
  C38. The TXT cache is bounded and cannot be emptied from outside. Whatever names and records are
  kept, at whatever instants, it never holds more than 64 answers, one per name; and an answer that
  can still be read is not displaced by keeping answers for other names, however many a peer makes
  up, until its own hour is over.
\<close>

theorem txt_cache_bounded:
  assumes "cacheOk cache"
  shows "cacheOk (txtAnswers.putAll kept cache)
    \<and> (\<forall>name t recs. lookup name t cache = Some recs \<longrightarrow> (\<forall>(k, w, t0) \<in> set kept. k \<noteq> name \<and> t0 \<le> t)
        \<longrightarrow> lookup name t (txtAnswers.putAll kept cache) = Some recs)"
  using cacheOk_putAll [OF assms] txtAnswers.get_putAll [where ps = kept and c = cache] by blast

definition bootstrapAnswer :: txtCache where
  "bootstrapAnswer = keep ''boot'' [''peer''] 0 newTXTCache"

lemma bootstrapAnswer_ok: "cacheOk bootstrapAnswer"
  unfolding bootstrapAnswer_def by (rule cacheOk_keep) (simp add: cacheOk_def newTXTCache_def)

theorem txt_cache_bounded_witness:
  "lookup ''boot'' 9 (txtAnswers.putAll [(''evil'', [''x''], 5), (''worse'', [''y''], 6)] bootstrapAnswer)
     = Some [''peer'']"
proof -
  have "lookup ''boot'' 9 bootstrapAnswer = Some [''peer'']"
    by (simp add: bootstrapAnswer_def keep_def newTXTCache_def lookup_def txtAnswerLimit_def txtAnswerLifetime_def)
  then show ?thesis
    using txt_cache_bounded [OF bootstrapAnswer_ok, of "[(''evil'', [''x''], 5), (''worse'', [''y''], 6)]"] by simp
qed

text \<open>
  An answer is asked for once an hour. When a lookup finds nothing to reuse and the cache has
  room, the servers' answer is returned and, for the next hour, returned again without asking them;
  an error is returned and remembered nowhere. After the hour the servers are asked again.
\<close>

theorem LookupTXT_caches:
  assumes "lookup name now cache = None" and "length cache < txtAnswerLimit"
  shows "case servers name of
      Inl e \<Rightarrow> LookupTXT servers name now cache = (Inl e, cache)
    | Inr recs \<Rightarrow>
        fst (LookupTXT servers name now cache) = Inr recs
        \<and> (\<forall>t servers'. t \<le> now + txtAnswerLifetime \<longrightarrow>
             LookupTXT servers' name t (snd (LookupTXT servers name now cache))
             = (Inr recs, snd (LookupTXT servers name now cache)))
        \<and> (\<forall>t. now + txtAnswerLifetime < t \<longrightarrow>
             lookup name t (snd (LookupTXT servers name now cache)) = None)"
proof (cases "servers name")
  case (Inl e)
  then show ?thesis using assms by (simp add: LookupTXT_def)
next
  case (Inr recs)
  have found: "map_of (keep name recs now cache) name = Some \<lparr>records = recs, until = now + txtAnswerLifetime\<rparr>"
    using assms(2) by (simp add: keep_def update_conv')
  have l: "LookupTXT servers name now cache = (Inr recs, keep name recs now cache)"
    using assms(1) Inr by (simp add: LookupTXT_def)
  show ?thesis
    by (simp add: Inr l) (simp add: LookupTXT_def lookup_def found)
qed

theorem LookupTXT_caches_witness:
  "\<exists>c. LookupTXT (\<lambda>_. Inr [''peer'']) ''boot'' 0 newTXTCache = (Inr [''peer''], c)
     \<and> LookupTXT (\<lambda>_. Inl ErrClosed) ''boot'' 3600000000000 c = (Inr [''peer''], c)"
proof -
  have pre: "lookup ''boot'' 0 newTXTCache = None" "length newTXTCache < txtAnswerLimit"
    by (simp_all add: lookup_def newTXTCache_def txtAnswerLimit_def)
  show ?thesis
    using LookupTXT_caches [OF pre, of "\<lambda>_. Inr [''peer'']"]
    by (intro exI [of _ "snd (LookupTXT (\<lambda>_. Inr [''peer'']) ''boot'' 0 newTXTCache)"])
       (auto simp: txtAnswerLifetime_def prod_eq_iff)
qed

lemma dnsServerAddr_bare:
  assumes "SplitHostPort server = None" and "ParseAddr server = Some addr"
    and "CHR ''['' \<notin> set server" "CHR '']'' \<notin> set server"
  shows "dnsServerAddr server = Inr (JoinHostPort server dnsPort)
    \<and> SplitHostPort (JoinHostPort server dnsPort) = Some (server, dnsPort)"
proof -
  have "server \<noteq> []" using assms(2) by (auto simp: ParseAddr_def)
  then have "SplitHostPort (JoinHostPort server dnsPort) = Some (server, dnsPort)"
    using assms(3,4) by (intro SplitHostPort_JoinHostPort) (simp_all add: dnsPort_def)
  then show ?thesis using assms(1,2) by (simp add: dnsServerAddr_def)
qed

text \<open>
  C36. The servers a platform reports can be dialled. An IPv4 address gets port 53, and an IPv6 address,
  written in full or with \<open>::\<close>, gets brackets and port 53; each splits back into that address and
  that port. An entry that already names a port is taken as it is, and what is neither is refused.
\<close>

theorem dnsServerAddr_addresses:
  assumes "a < 256" "b < 256" "c < 256" "d < 256" and "ip6Text gs hs ip6"
  shows "dnsServerAddr (dotted a b c d) = Inr (dotted a b c d @ '':53'')
    \<and> SplitHostPort (dotted a b c d @ '':53'') = Some (dotted a b c d, ''53'')
    \<and> dnsServerAddr ip6 = Inr (CHR ''['' # ip6 @ '']:53'')
    \<and> SplitHostPort (CHR ''['' # ip6 @ '']:53'') = Some (ip6, ''53'')
    \<and> (\<forall>server. SplitHostPort server \<noteq> None \<longrightarrow> dnsServerAddr server = Inr server)
    \<and> (\<forall>server. SplitHostPort server = None \<and> ParseAddr server = None \<longrightarrow>
          dnsServerAddr server = Inl (Errorf ''not an ip address'' []))"
  using dnsServerAddr_bare [OF dotted_bare(1) ParseAddr_dotted [OF assms(1-4)] dotted_bare(4,5)] dotted_bare(3)
    dnsServerAddr_bare [OF ip6Text_bare(1) ip6Text_ParseAddr ip6Text_bare(4,5), OF assms(5,5,5,5)] ip6Text_bare(3) [OF assms(5)]
  by (auto simp: JoinHostPort_def dnsPort_def dnsServerAddr_def)

theorem dnsServerAddr_addresses_witness:
  "dnsServerAddr ''8.8.4.4'' = Inr ''8.8.4.4:53'' \<and> dnsServerAddr ''2606::1'' = Inr ''[2606::1]:53''"
proof -
  have t: "ip6Text [0x2606] [1] ''2606::1''"
    by (simp add: ip6Text_def shortForm_def grouped_def hexText.simps hexDigit_def byteOf_def char_literal)
  have d: "dotted 8 8 4 4 = ''8.8.4.4''" by (simp add: dotted_def showDigits.simps char_literal)
  show ?thesis using dnsServerAddr_addresses [OF _ _ _ _ t, of 8 8 4 4] by (simp add: d)
qed

text \<open>
  A bare address is accepted with any zone, and the server is dialled as that address and port 53
  exactly when the zone holds no bracket; with one, the text made of it cannot be split again, so
  every lookup sent to it fails.
\<close>

theorem dnsServerAddr_zone:
  assumes "ip6Text gs hs ip6" and "zone \<noteq> []" and "CHR ''['' \<notin> set zone"
  shows "dnsServerAddr (ip6 @ CHR ''%'' # zone) = Inr (CHR ''['' # ip6 @ CHR ''%'' # zone @ '']:53'')
    \<and> (CHR '']'' \<notin> set zone \<longrightarrow>
        SplitHostPort (CHR ''['' # ip6 @ CHR ''%'' # zone @ '']:53'') = Some (ip6 @ CHR ''%'' # zone, ''53''))
    \<and> (CHR '']'' \<in> set zone \<longrightarrow> SplitHostPort (CHR ''['' # ip6 @ CHR ''%'' # zone @ '']:53'') = None)"
proof -
  note bare = ip6Text_bare [OF assms(1)]
  have "\<forall>c \<in> set ip6. isHex c \<or> c = CHR '':''" using ip6Text_chars [OF assms(1)] by (simp add: list_all_iff)
  then have "CHR ''%'' \<notin> set ip6" using not_hex(3) by auto
  then have addr: "ParseAddr (ip6 @ CHR ''%'' # zone) = Some (Addr6 (groupBytes (ip6Groups gs hs)) zone)"
    using ParseAddr_zone [OF ip6Text_ParseAddr [OF assms(1)]] assms(2) by blast
  obtain a m b where s: "ip6 = a @ CHR '':'' # m @ CHR '':'' # b" using ip6Text_colons [OF assms(1)] by blast
  have "hd (ip6 @ CHR ''%'' # zone) \<noteq> CHR ''[''" using bare(2,4) by (cases ip6) auto
  then have none: "SplitHostPort (ip6 @ CHR ''%'' # zone) = None"
    using SplitHostPort_two_colons [of _ a m "b @ CHR ''%'' # zone"] s by simp
  have join: "JoinHostPort (ip6 @ CHR ''%'' # zone) dnsPort = CHR ''['' # ip6 @ CHR ''%'' # zone @ '']:53''"
    using bare(3) by (simp add: JoinHostPort_def dnsPort_def)
  have "splitLast CHR '':'' ((CHR ''['' # ip6 @ CHR ''%'' # zone @ '']'') @ CHR '':'' # ''53'')
      = Some (CHR ''['' # ip6 @ CHR ''%'' # zone @ '']'', ''53'')"
    by (rule splitLast_append) simp
  then have "SplitHostPort (CHR ''['' # ip6 @ CHR ''%'' # zone @ '']:53'') = None" if "CHR '']'' \<in> set zone"
    using that by (simp add: SplitHostPort_def butlast_append)
  moreover have "SplitHostPort (JoinHostPort (ip6 @ CHR ''%'' # zone) dnsPort) = Some (ip6 @ CHR ''%'' # zone, dnsPort)"
    if "CHR '']'' \<notin> set zone"
    using that assms(3) bare by (intro SplitHostPort_JoinHostPort) (simp_all add: dnsPort_def)
  ultimately show ?thesis using addr none join by (simp add: dnsServerAddr_def) (simp add: dnsPort_def)
qed

theorem dnsServerAddr_zone_witness:
  "dnsServerAddr ''fe80::1%wlan0'' = Inr ''[fe80::1%wlan0]:53''"
proof -
  have t: "ip6Text [0xfe80] [1] ''fe80::1''"
    by (simp add: ip6Text_def shortForm_def grouped_def hexText.simps hexDigit_def byteOf_def char_literal)
  show ?thesis using dnsServerAddr_zone [OF t, of "''wlan0''"] by simp
qed

lemma toInt_small: "0 < bits \<Longrightarrow> 0 \<le> x \<Longrightarrow> x < 2 ^ (bits - 1) \<Longrightarrow> toInt bits x = x"
proof -
  assume b: "0 < bits" and x: "0 \<le> x" "x < 2 ^ (bits - 1)"
  have "(2::int) ^ bits = 2 * 2 ^ (bits - 1)" using b by (cases bits) simp_all
  with x show ?thesis by (simp add: toInt_def)
qed

lemma dialServers_eq:
  assumes "0 < bits" "bits \<le> 64" "addrs \<noteq> []" "int (c + k) \<le> 2 ^ (bits - 1)"
  shows "dialServers bits addrs (int c) k = map (\<lambda>i. Some (addrs ! ((c + i) mod length addrs))) [0..<k]"
  using assms(4)
proof (induction k arbitrary: c)
  case (Suc k)
  have le: "(2::int) ^ (bits - 1) < 2 ^ 64" using assms(1,2) by (intro power_strict_increasing) auto
  have small: "int c < 2 ^ (bits - 1)" using Suc.prems by linarith
  have "toInt bits (int c) = int c" using assms(1) small by (intro toInt_small) auto
  moreover have "(int c + 1) mod 2 ^ 64 = int (Suc c)"
    using Suc.prems le by (simp add: mod_pos_pos_trivial)
  ultimately have step: "dialServer bits addrs (int c) = (Some (addrs ! (c mod length addrs)), int (Suc c))"
    using assms(3) by (simp add: dialServer_def goRem_def zmod_int [symmetric])
  have up: "[0..<Suc k] = 0 # map Suc [0..<k]" by (simp add: upt_conv_Cons map_Suc_upt)
  show ?case using Suc by (simp only: dialServers.simps step fst_conv snd_conv up) simp
qed simp

text \<open>
  Successive lookups start from successive servers, so one that does not answer is on the
  critical path of at most one lookup in as many as there are servers - for the first 2147483648
  lookups of a platform with 32-bit words, and the first 9223372036854775808 of one with 64.
\<close>

theorem dialServer_round_robin:
  assumes "bits = 32 \<or> bits = 64" and "addrs \<noteq> []" and "int k \<le> 2 ^ (bits - 1)"
  shows "dialServers bits addrs 0 k = map (\<lambda>i. Some (addrs ! (i mod length addrs))) [0..<k]"
  using dialServers_eq [of bits addrs 0 k] assms by auto

theorem dialServer_round_robin_witness:
  "dialServers 32 [''a'', ''b''] 0 3 = [Some ''a'', Some ''b'', Some ''a'']"
  using dialServer_round_robin [of 32 "[''a'', ''b'']" 3] by (simp add: upt_conv_Cons)

text \<open>The first lookup past that count panics when the servers do not divide it.\<close>

lemma dialServer_panics:
  "fst (dialServer 32 [''a'', ''b'', ''c''] 2147483648) = None"
  by (simp add: dialServer_def goRem_def toInt_def)

end
