(* ===== verification/Peers.thy ===== *)
theory Peers
  imports Go_Errors
begin

text \<open>
  Which peers and addresses a node deals with: \<open>parsePeers\<close> of \<open>node.go\<close>, the dial gater of
  \<open>gater.go\<close>, and what a snapshot keeps (\<open>snapshot.go\<close>). Multiaddrs belong to a library, so
  their type is a parameter, and parsing them and asking what kind of address one names are the
  fields of \<open>addrLib\<close>.
\<close>

record 'm addrLib =
  p2pAddr :: "string \<Rightarrow> error + (string \<times> 'm list)"
  isPrivateAddr :: "'m \<Rightarrow> bool"
  isIPLoopback :: "'m \<Rightarrow> bool"
  namesIP :: "'m \<Rightarrow> bool"
  addrString :: "'m \<Rightarrow> string"

record 'm addrInfo =
  ID :: string
  Addrs :: "'m list"

section \<open>parsePeers\<close>

text \<open>
  The loop: \<open>infos\<close> and \<open>order\<close> after each address. \<open>p2pAddr\<close> is
  \<open>multiaddr.NewMultiaddr\<close> followed by \<open>peer.AddrInfoFromP2pAddr\<close>; either failing skips the entry.
\<close>

fun parseLoop :: "('m, 'x) addrLib_scheme \<Rightarrow> string list \<Rightarrow> (string \<Rightarrow> 'm list option) \<Rightarrow> string list
    \<Rightarrow> (string \<Rightarrow> 'm list option) \<times> string list" where
  "parseLoop lib [] infos order = (infos, order)"
| "parseLoop lib (addrStr # addrs) infos order =
     (case p2pAddr lib addrStr of
        Inl e \<Rightarrow> parseLoop lib addrs infos order
      | Inr (pid, as) \<Rightarrow>
          (case infos pid of
             None \<Rightarrow> parseLoop lib addrs (infos(pid \<mapsto> [] @ as)) (order @ [pid])
           | Some info \<Rightarrow> parseLoop lib addrs (infos(pid \<mapsto> info @ as)) order))"

definition parsePeers :: "('m, 'x) addrLib_scheme \<Rightarrow> string list \<Rightarrow> 'm addrInfo list" where
  "parsePeers lib addrs =
     (case parseLoop lib addrs Map.empty [] of
        (infos, order) \<Rightarrow> map (\<lambda>pid. \<lparr>ID = pid, Addrs = the (infos pid)\<rparr>) order)"

section \<open>The gater\<close>

definition newDiscoveredAddrGater :: "'m addrInfo list \<Rightarrow> string set" where
  "newDiscoveredAddrGater configured = set (map ID configured)"

definition dialableAddr :: "('m, 'x) addrLib_scheme \<Rightarrow> 'm \<Rightarrow> bool" where
  "dialableAddr lib addr = (if \<not> isPrivateAddr lib addr then True else isIPLoopback lib addr)"

definition InterceptAddrDial :: "('m, 'x) addrLib_scheme \<Rightarrow> string set \<Rightarrow> string \<Rightarrow> 'm \<Rightarrow> bool" where
  "InterceptAddrDial lib gater pid addr = (if pid \<in> gater then True else dialableAddr lib addr)"

text \<open>The other four methods let everything through; a reason of 0 is given where one is asked for.\<close>

definition InterceptPeerDial :: "string set \<Rightarrow> string \<Rightarrow> bool" where
  "InterceptPeerDial gater pid = True"

definition InterceptAccept :: "string set \<Rightarrow> 'conn \<Rightarrow> bool" where
  "InterceptAccept gater conn = True"

definition InterceptSecured :: "string set \<Rightarrow> 'direction \<Rightarrow> string \<Rightarrow> 'conn \<Rightarrow> bool" where
  "InterceptSecured gater direction pid conn = True"

definition InterceptUpgraded :: "string set \<Rightarrow> 'conn \<Rightarrow> bool \<times> nat" where
  "InterceptUpgraded gater conn = (True, 0)"

section \<open>What a snapshot keeps\<close>

definition snapshotPeers :: nat where "snapshotPeers = 64"

definition snapshotAddrs :: "('m, 'x) addrLib_scheme \<Rightarrow> 'm list \<Rightarrow> 'm list" where
  "snapshotAddrs lib addrs = filter (\<lambda>addr. namesIP lib addr \<and> dialableAddr lib addr) addrs"

text \<open>The loop over the routing table, with what it has kept so far.\<close>

fun worthLoop :: "('m, 'x) addrLib_scheme \<Rightarrow> (string \<Rightarrow> 'm list) \<Rightarrow> string set \<Rightarrow> string list
    \<Rightarrow> 'm addrInfo list \<Rightarrow> 'm addrInfo list" where
  "worthLoop lib peerstore skip [] worth = worth"
| "worthLoop lib peerstore skip (pid # pids) worth =
     (if length worth = snapshotPeers then worth
      else if pid \<in> skip then worthLoop lib peerstore skip pids worth
      else
        let kept = snapshotAddrs lib (peerstore pid) in
        if kept = [] then worthLoop lib peerstore skip pids worth
        else worthLoop lib peerstore skip pids (worth @ [\<lparr>ID = pid, Addrs = kept\<rparr>]))"

text \<open>\<open>None\<close> for the table is a node without a DHT.\<close>

definition snapshotWorth :: "('m, 'x) addrLib_scheme \<Rightarrow> (string \<Rightarrow> 'm list) \<Rightarrow> string list option
    \<Rightarrow> 'm addrInfo list \<Rightarrow> 'm addrInfo list" where
  "snapshotWorth lib peerstore table configured =
     (case table of
        None \<Rightarrow> []
      | Some pids \<Rightarrow> worthLoop lib peerstore (set (map ID configured)) pids [])"

section \<open>What parsing keeps\<close>

text \<open>The entries that parse, in order, and the addresses they give one peer.\<close>

definition validEntries :: "('m, 'x) addrLib_scheme \<Rightarrow> string list \<Rightarrow> (string \<times> 'm list) list" where
  "validEntries lib addrs = List.map_filter (\<lambda>a. case p2pAddr lib a of Inl e \<Rightarrow> None | Inr r \<Rightarrow> Some r) addrs"

lemma validEntries_simps [simp]:
  "validEntries lib [] = []"
  "validEntries lib (a # as) = (case p2pAddr lib a of Inl e \<Rightarrow> validEntries lib as | Inr r \<Rightarrow> r # validEntries lib as)"
  by (simp_all add: validEntries_def map_filter_simps split: sum.split)

definition addrsOf :: "string \<Rightarrow> (string \<times> 'm list) list \<Rightarrow> 'm list" where
  "addrsOf pid es = concat (map snd (filter (\<lambda>e. fst e = pid) es))"

text \<open>The names in order of first appearance.\<close>

fun firsts :: "string list \<Rightarrow> string list \<Rightarrow> string list" where
  "firsts known [] = []"
| "firsts known (x # xs) = (if x \<in> set known then firsts known xs else x # firsts (known @ [x]) xs)"

lemma firsts_distinct: "distinct (firsts known xs) \<and> set (firsts known xs) = set xs - set known"
proof (induction xs arbitrary: known)
  case (Cons x xs)
  show ?case using Cons [of known] Cons [of "known @ [x]"] by auto
qed simp

lemma parseLoop_spec:
  assumes "parseLoop lib addrs infos order = (infos', order')" and "\<And>p. infos p \<noteq> None \<longleftrightarrow> p \<in> set order"
  shows "order' = order @ firsts order (map fst (validEntries lib addrs))
    \<and> (\<forall>p. infos' p = (if p \<in> set order' then
        Some ((case infos p of Some as \<Rightarrow> as | None \<Rightarrow> []) @ addrsOf p (validEntries lib addrs)) else None))"
  using assms
proof (induction lib addrs infos order arbitrary: infos' order' rule: parseLoop.induct)
  case (1 lib infos order)
  then show ?case by (auto simp: addrsOf_def split: option.split) (metis option.distinct(1))
next
  case (2 lib a as infos order)
  show ?case
  proof (cases "p2pAddr lib a")
    case (Inl e)
    then have run: "parseLoop lib as infos order = (infos', order')" using "2.prems"(1) by simp
    show ?thesis using "2.IH"(1) [OF Inl run "2.prems"(2)] Inl by simp
  next
    case (Inr r)
    obtain pid xs where r: "r = (pid, xs)" by (cases r)
    show ?thesis
    proof (cases "infos pid")
      case None
      then have new: "pid \<notin> set order" using "2.prems"(2) [of pid] by simp
      have run: "parseLoop lib as (infos(pid \<mapsto> [] @ xs)) (order @ [pid]) = (infos', order')"
        using "2.prems"(1) Inr r None by simp
      have "order' = (order @ [pid]) @ firsts (order @ [pid]) (map fst (validEntries lib as))
        \<and> (\<forall>p. infos' p = (if p \<in> set order' then
          Some ((case (infos(pid \<mapsto> [] @ xs)) p of Some as \<Rightarrow> as | None \<Rightarrow> []) @ addrsOf p (validEntries lib as)) else None))"
        by (rule "2.IH"(2) [OF Inr r [symmetric] None run]) (use "2.prems"(2) in auto)
      then show ?thesis using Inr r None new by (auto simp: addrsOf_def)
    next
      case (Some info)
      then have old: "pid \<in> set order" using "2.prems"(2) [of pid] by simp
      have run: "parseLoop lib as (infos(pid \<mapsto> info @ xs)) order = (infos', order')"
        using "2.prems"(1) Inr r Some by simp
      have "order' = order @ firsts order (map fst (validEntries lib as))
        \<and> (\<forall>p. infos' p = (if p \<in> set order' then
          Some ((case (infos(pid \<mapsto> info @ xs)) p of Some as \<Rightarrow> as | None \<Rightarrow> []) @ addrsOf p (validEntries lib as)) else None))"
        by (rule "2.IH"(3) [OF Inr r [symmetric] Some run]) (use "2.prems"(2) old in auto)
      then show ?thesis using Inr r Some old by (auto simp: addrsOf_def)
    qed
  qed
qed

section \<open>What a snapshot keeps, and the gater\<close>

text \<open>The loop is the first 64 of the table's peers that are worth keeping, in the table's order.\<close>

lemma worthLoop_eq:
  assumes "length worth \<le> snapshotPeers"
  shows "worthLoop lib peerstore skip pids worth =
    take snapshotPeers (worth @ map (\<lambda>pid. \<lparr>ID = pid, Addrs = snapshotAddrs lib (peerstore pid)\<rparr>)
      (filter (\<lambda>pid. pid \<notin> skip \<and> snapshotAddrs lib (peerstore pid) \<noteq> []) pids))"
  using assms
  by (induction lib peerstore skip pids worth rule: worthLoop.induct) (auto simp: Let_def)

lemma parsePeers_spec:
  "map ID (parsePeers lib addrs) = firsts [] (map fst (validEntries lib addrs))
   \<and> distinct (map ID (parsePeers lib addrs))
   \<and> set (map ID (parsePeers lib addrs)) = fst ` set (validEntries lib addrs)
   \<and> (\<forall>info \<in> set (parsePeers lib addrs). Addrs info = addrsOf (ID info) (validEntries lib addrs))"
proof -
  obtain infos order where run: "parseLoop lib addrs Map.empty [] = (infos, order)"
    by (cases "parseLoop lib addrs Map.empty []")
  note sp = parseLoop_spec [OF run]
  have o: "order = firsts [] (map fst (validEntries lib addrs))"
    and i: "p \<in> set order \<Longrightarrow> infos p = Some (addrsOf p (validEntries lib addrs))" for p
    using sp by simp_all
  have ids: "map ID (parsePeers lib addrs) = order"
    by (simp add: parsePeers_def run comp_def)
  have "Addrs info = addrsOf (ID info) (validEntries lib addrs)" if "info \<in> set (parsePeers lib addrs)" for info
    using that i by (auto simp: parsePeers_def run)
  then show ?thesis using ids o firsts_distinct [of "[]" "map fst (validEntries lib addrs)"] by simp
qed

section \<open>Properties\<close>

text \<open>
  Configured peers are grouped without losing an address. \<open>parsePeers\<close> returns every peer some
  valid entry names, once, in the order of its first entry, with the addresses of all its entries in
  order; entries that do not parse change nothing, wherever they stand in the list.
\<close>

theorem parsePeers_groups:
  "map ID (parsePeers lib addrs) = firsts [] (map fst (validEntries lib addrs))
   \<and> distinct (map ID (parsePeers lib addrs))
   \<and> set (map ID (parsePeers lib addrs)) = fst ` set (validEntries lib addrs)
   \<and> (\<forall>info \<in> set (parsePeers lib addrs). Addrs info = addrsOf (ID info) (validEntries lib addrs))"
  by (rule parsePeers_spec)

theorem parsePeers_groups_witness:
  "\<exists>lib :: string addrLib. map ID (parsePeers lib [''a/x'', ''bad'', ''b/y'', ''a/z'']) = [''a'', ''b'']"
proof -
  let ?lib = "\<lparr>p2pAddr = (\<lambda>s. if s = ''bad'' then Inl ErrClosed else Inr (take 1 s, [s])),
      isPrivateAddr = \<lambda>_. False, isIPLoopback = \<lambda>_. False, namesIP = \<lambda>_. True, addrString = \<lambda>s. s\<rparr>"
  have "map ID (parsePeers ?lib [''a/x'', ''bad'', ''b/y'', ''a/z'']) = [''a'', ''b'']"
    using parsePeers_groups [of ?lib "[''a/x'', ''bad'', ''b/y'', ''a/z'']"] by simp
  then show ?thesis by (rule exI [of _ ?lib])
qed

text \<open>
  C37. A snapshot cannot bring back a dial the node would not make, nor grow without bound. Whatever
  the routing table and the peerstore hold, what is kept is exactly the first 64 of the table's peers,
  in the table's order, that are not configured and for which the peerstore has an address worth
  writing down, each with all such addresses of it and no others; without a table it is nothing.
  So every peer kept comes from the table, is not configured and has at least one address, and every
  address kept is one the peerstore has for it, names an IP and passes the gater of a node with the
  same configuration. Private addresses that are not loopback are dialled for configured peers only.
\<close>

theorem snapshotWorth_dialable:
  "snapshotWorth lib peerstore table configured =
     take 64 (map (\<lambda>pid. \<lparr>ID = pid, Addrs = filter (\<lambda>a. namesIP lib a \<and> dialableAddr lib a) (peerstore pid)\<rparr>)
       (filter (\<lambda>pid. pid \<notin> ID ` set configured
                  \<and> filter (\<lambda>a. namesIP lib a \<and> dialableAddr lib a) (peerstore pid) \<noteq> [])
          (case table of None \<Rightarrow> [] | Some pids \<Rightarrow> pids)))
   \<and> length (snapshotWorth lib peerstore table configured) \<le> 64
   \<and> (\<forall>info \<in> set (snapshotWorth lib peerstore table configured).
        (\<exists>pids. table = Some pids \<and> ID info \<in> set pids)
        \<and> ID info \<notin> set (map ID configured) \<and> Addrs info \<noteq> []
        \<and> (\<forall>a \<in> set (Addrs info). a \<in> set (peerstore (ID info)) \<and> namesIP lib a
              \<and> InterceptAddrDial lib (newDiscoveredAddrGater configured) (ID info) a))
   \<and> (\<forall>pid a. isPrivateAddr lib a \<and> \<not> isIPLoopback lib a \<longrightarrow>
        (InterceptAddrDial lib (newDiscoveredAddrGater configured) pid a \<longleftrightarrow> pid \<in> ID ` set configured))"
proof (cases table)
  case None
  then show ?thesis
    by (simp add: snapshotWorth_def InterceptAddrDial_def dialableAddr_def newDiscoveredAddrGater_def)
next
  case (Some pids)
  let ?skip = "set (map ID configured)"
  have w: "snapshotWorth lib peerstore table configured =
      take snapshotPeers (map (\<lambda>pid. \<lparr>ID = pid, Addrs = snapshotAddrs lib (peerstore pid)\<rparr>)
        (filter (\<lambda>pid. pid \<notin> ?skip \<and> snapshotAddrs lib (peerstore pid) \<noteq> []) pids))"
    using worthLoop_eq [of "[]"] by (simp add: snapshotWorth_def Some)
  show ?thesis
    unfolding w
    by (auto simp: Some snapshotPeers_def snapshotAddrs_def InterceptAddrDial_def newDiscoveredAddrGater_def
        dialableAddr_def dest!: in_set_takeD)
qed

theorem snapshotWorth_dialable_witness:
  "\<exists>lib :: string addrLib. snapshotWorth lib (\<lambda>p. [''10.0.0.1'', ''1.1.1.1'']) (Some [''a'', ''b'']) [\<lparr>ID = ''a'', Addrs = []\<rparr>]
     = [\<lparr>ID = ''b'', Addrs = [''1.1.1.1'']\<rparr>]
   \<and> InterceptAddrDial lib {''a''} ''b'' ''1.1.1.1''"
proof -
  let ?lib = "\<lparr>p2pAddr = (\<lambda>s. Inl ErrClosed), isPrivateAddr = \<lambda>a. a = ''10.0.0.1'', isIPLoopback = \<lambda>_. False,
      namesIP = \<lambda>_. True, addrString = \<lambda>s. s\<rparr>"
  have r: "snapshotWorth ?lib (\<lambda>p. [''10.0.0.1'', ''1.1.1.1'']) (Some [''a'', ''b'']) [\<lparr>ID = ''a'', Addrs = []\<rparr>]
      = [\<lparr>ID = ''b'', Addrs = [''1.1.1.1'']\<rparr>]"
    by (simp add: snapshotWorth_def snapshotAddrs_def dialableAddr_def snapshotPeers_def)
  note kept = snapshotWorth_dialable [of ?lib "\<lambda>p. [''10.0.0.1'', ''1.1.1.1'']" "Some [''a'', ''b'']"
      "[\<lparr>ID = ''a'', Addrs = []\<rparr>]", THEN conjunct2, THEN conjunct2, THEN conjunct1, unfolded r]
  have "InterceptAddrDial ?lib {''a''} ''b'' ''1.1.1.1''"
    using kept [THEN bspec, of "\<lparr>ID = ''b'', Addrs = [''1.1.1.1'']\<rparr>"]
    by (simp only: list.set insertI1 addrInfo.simps ball_simps newDiscoveredAddrGater_def list.map simp_thms True_implies_equals)
  then show ?thesis by (intro exI [of _ ?lib] conjI r)
qed

end
