(* ===== verification/Gateway.thy ===== *)
theory Gateway
  imports Peers Go_Url
begin

text \<open>
  \<open>gateway.go\<close>: the URLs of gateways turned into peers the block exchange can ask, the hosts it is
  held to, and the URLs kept for the fallback.
\<close>

text \<open>
  What is not under \<open>src/\<close>: \<open>multiaddr.NewMultiaddr\<close> and \<open>multihash.Encode\<close>; and SHA-256.
\<close>

record 'm gatewayLib =
  NewMultiaddr :: "string \<Rightarrow> error + 'm"
  Sum256 :: "string \<Rightarrow> string"
  multihashEncode :: "string \<Rightarrow> error + string"

section \<open>One gateway\<close>

definition gatewayPort :: "URL \<Rightarrow> error + string" where
  "gatewayPort u =
     (if URL_Port u = [] then
        (if Scheme u = ''https'' then Inr ''443''
         else if Scheme u = ''http'' then Inr ''80''
         else Inl (Errorf ''unsupported scheme %q, want http or https'' [Scheme u]))
      else Inr (URL_Port u))"

definition gatewayProtocol :: "string \<Rightarrow> string" where
  "gatewayProtocol h =
     (case ParseIP h of
        None \<Rightarrow> ''dns4''
      | Some ip \<Rightarrow> if To4 ip = None then ''ip6'' else ''ip4'')"

definition gatewayMultiaddr :: "('m, 'x) gatewayLib_scheme \<Rightarrow> string \<Rightarrow> error + 'm" where
  "gatewayMultiaddr lib gateway =
     (case url_Parse gateway of
        Inl e \<Rightarrow> Inl e
      | Inr parsed \<Rightarrow>
          (let h = URL_Hostname parsed in
           if h = [] then Inl (Errorf ''no host in %q'' [gateway])
           else
             case gatewayPort parsed of
               Inl e \<Rightarrow> Inl e
             | Inr port \<Rightarrow>
                 NewMultiaddr lib
                   (''/'' @ gatewayProtocol h @ ''/'' @ h @ ''/tcp/'' @ port @ ''/'' @ Scheme parsed)))"

definition gatewayPeerID :: "('m, 'x) gatewayLib_scheme \<Rightarrow> string \<Rightarrow> error + string" where
  "gatewayPeerID lib gateway =
     (case multihashEncode lib (Sum256 lib gateway) of
        Inl e \<Rightarrow> Inl e
      | Inr encoded \<Rightarrow> Inr encoded)"

section \<open>All of them\<close>

text \<open>The three lists the loop appends to.\<close>

fun gatewaysLoop :: "('m, 'x) gatewayLib_scheme \<Rightarrow> string list
    \<Rightarrow> 'm addrInfo list \<times> string list \<times> string list \<Rightarrow> 'm addrInfo list \<times> string list \<times> string list" where
  "gatewaysLoop lib [] acc = acc"
| "gatewaysLoop lib (gateway # rest) (peers, hosts, urls) =
     (case gatewayMultiaddr lib gateway of
        Inl e \<Rightarrow> gatewaysLoop lib rest (peers, hosts, urls)
      | Inr addr \<Rightarrow>
          (case gatewayPeerID lib gateway of
             Inl e \<Rightarrow> gatewaysLoop lib rest (peers, hosts, urls)
           | Inr pid \<Rightarrow>
               (case url_Parse gateway of
                  Inl e \<Rightarrow> gatewaysLoop lib rest (peers, hosts, urls)
                | Inr parsed \<Rightarrow>
                    gatewaysLoop lib rest
                      (peers @ [\<lparr>ID = pid, Addrs = [addr]\<rparr>], hosts @ [URL_Hostname parsed], urls @ [gateway]))))"

definition parseGateways :: "('m, 'x) gatewayLib_scheme \<Rightarrow> string list
    \<Rightarrow> 'm addrInfo list \<times> string list \<times> string list" where
  "parseGateways lib gateways = gatewaysLoop lib gateways ([], [], [])"

section \<open>What parsing keeps\<close>

text \<open>A gateway that can be used, and what is made of one.\<close>

definition usableGateway :: "('m, 'x) gatewayLib_scheme \<Rightarrow> string \<Rightarrow> bool" where
  "usableGateway lib gateway \<longleftrightarrow> isOk (gatewayMultiaddr lib gateway) \<and> isOk (gatewayPeerID lib gateway)"

definition gatewayPeer :: "('m, 'x) gatewayLib_scheme \<Rightarrow> string \<Rightarrow> 'm addrInfo" where
  "gatewayPeer lib gateway =
     \<lparr>ID = projr (gatewayPeerID lib gateway), Addrs = [projr (gatewayMultiaddr lib gateway)]\<rparr>"

definition gatewayHost :: "string \<Rightarrow> string" where
  "gatewayHost gateway = URL_Hostname (projr (url_Parse gateway))"

lemma usableGateway_url: "usableGateway lib gateway \<Longrightarrow> \<exists>u. url_Parse gateway = Inr u"
  by (cases "url_Parse gateway") (simp_all add: usableGateway_def gatewayMultiaddr_def)

lemma gatewaysLoop_eq:
  "gatewaysLoop lib gateways (peers, hosts, urls) =
     (let kept = filter (usableGateway lib) gateways in
      (peers @ map (gatewayPeer lib) kept, hosts @ map (gatewayHost) kept, urls @ kept))"
proof (induction gateways arbitrary: peers hosts urls)
  case (Cons g gs)
  show ?case
  proof (cases "usableGateway lib g")
    case True
    obtain u where u: "url_Parse g = Inr u" using usableGateway_url [OF True] by blast
    obtain addr pid where "gatewayMultiaddr lib g = Inr addr" "gatewayPeerID lib g = Inr pid"
      using True by (cases "gatewayMultiaddr lib g"; cases "gatewayPeerID lib g") (auto simp: usableGateway_def)
    then show ?thesis using True u Cons by (simp add: gatewayPeer_def gatewayHost_def Let_def)
  next
    case False
    then show ?thesis using Cons
      by (cases "gatewayMultiaddr lib g"; cases "gatewayPeerID lib g") (auto simp: usableGateway_def Let_def)
  qed
qed simp

lemma parseGateways_eq:
  "parseGateways lib gateways =
     (let kept = filter (usableGateway lib) gateways in
      (map (gatewayPeer lib) kept, map (gatewayHost) kept, kept))"
  by (simp add: parseGateways_def gatewaysLoop_eq)

lemma gatewayMultiaddr_OkD:
  assumes "gatewayMultiaddr lib gateway = Inr addr"
  obtains u port where "url_Parse gateway = Inr u" and "URL_Hostname u \<noteq> []" and "gatewayPort u = Inr port"
    and "NewMultiaddr lib (''/'' @ gatewayProtocol (URL_Hostname u) @ ''/'' @ URL_Hostname u @ ''/tcp/'' @ port
        @ ''/'' @ Scheme u) = Inr addr"
  using assms by (auto simp: gatewayMultiaddr_def Let_def split: sum.splits if_splits)

lemma gatewayHost_nonempty: "usableGateway lib g \<Longrightarrow> gatewayHost g \<noteq> []"
proof -
  assume "usableGateway lib g"
  then obtain addr where "gatewayMultiaddr lib g = Inr addr"
    by (cases "gatewayMultiaddr lib g") (auto simp: usableGateway_def)
  then obtain u where "url_Parse g = Inr u" "URL_Hostname u \<noteq> []" by (rule gatewayMultiaddr_OkD)
  then show ?thesis by (simp add: gatewayHost_def)
qed

section \<open>Properties\<close>

text \<open>
  The three lists of gateways stay aligned: they hold, in the configured order, the peer, the host
  and the URL of exactly the gateways that could be used, so the allowlist of the block exchange names
  the host of every gateway that is a peer and no other, and the fallback asks those same URLs. An
  entry that cannot be used changes nothing, wherever it stands, and no host is empty.
\<close>

theorem parseGateways_aligned:
  "parseGateways lib gateways =
     (let kept = filter (usableGateway lib) gateways in
      (map (gatewayPeer lib) kept, map (gatewayHost) kept, kept))
   \<and> [] \<notin> set (fst (snd (parseGateways lib gateways)))"
  using gatewayHost_nonempty [of lib] by (force simp: parseGateways_eq Let_def)

text \<open>What kind of address a host is.\<close>

lemma gatewayProtocol_name:
  "CHR '':'' \<notin> set h \<Longrightarrow> \<exists>c \<in> set h. \<not> isDigit c \<and> c \<noteq> CHR ''.'' \<Longrightarrow> gatewayProtocol h = ''dns4''"
  using ParseIP_name by (auto simp: gatewayProtocol_def)

lemma gatewayProtocol_dotted:
  "a < 256 \<Longrightarrow> b < 256 \<Longrightarrow> c < 256 \<Longrightarrow> d < 256 \<Longrightarrow> gatewayProtocol (dotted a b c d) = ''ip4''"
  using ParseIP_dotted [of a b c d] by (auto simp: gatewayProtocol_def)

lemma gatewayProtocol_ip6:
  assumes "ip6Text gs hs h"
  shows "gatewayProtocol h = (if take 6 (ip6Groups gs hs) = [0, 0, 0, 0, 0, 65535] then ''ip4'' else ''ip6'')"
proof -
  have "length (ip6Groups gs hs) = 8" using assms by (auto simp: ip6Text_def ip6Groups_def)
  then have "To4 (groupBytes (ip6Groups gs hs)) \<noteq> None \<longleftrightarrow> take 6 (ip6Groups gs hs) = [0, 0, 0, 0, 0, 65535]"
    by (rule To4_groups)
  then show ?thesis using ip6Text_ParseAddr [OF assms] by (auto simp: gatewayProtocol_def ParseIP_def)
qed

text \<open>
  C39. The address a gateway is dialled at. For a gateway URL made of a scheme, a name or an address, a
  port or none, a path and a query, the multiaddress has the host, without the brackets of an IPv6
  address, that port, and the scheme; without a port it is the scheme's own, and then only http and
  https are gateways. A host is dialled as ip4 or ip6 when it is such an address, an IPv6 address that
  maps an IPv4 one as ip4, and as dns4 otherwise. With a port the scheme is not checked here: it is
  left to the address library.
\<close>

theorem gatewayMultiaddr_address:
  assumes "schemeText scheme" "hostText h" "list_all isDigit port" "pathText path" "queryText query"
  shows "gatewayMultiaddr lib (plainURL scheme h port path query) =
      (let addr = \<lambda>port. NewMultiaddr lib (''/'' @ gatewayProtocol h @ ''/'' @ h @ ''/tcp/'' @ port @ ''/'' @ scheme) in
       if port \<noteq> [] then addr port
       else if scheme = ''https'' then addr ''443''
       else if scheme = ''http'' then addr ''80''
       else Inl (Errorf ''unsupported scheme %q, want http or https'' [scheme]))
    \<and> (CHR '':'' \<notin> set h \<and> (\<exists>c \<in> set h. \<not> isDigit c \<and> c \<noteq> CHR ''.'') \<longrightarrow> gatewayProtocol h = ''dns4'')
    \<and> (\<forall>a < 256. \<forall>b < 256. \<forall>c < 256. \<forall>d < 256. gatewayProtocol (dotted a b c d) = ''ip4'')
    \<and> (\<forall>gs hs. ip6Text gs hs h \<longrightarrow>
          gatewayProtocol h = (if take 6 (ip6Groups gs hs) = [0, 0, 0, 0, 0, 65535] then ''ip4'' else ''ip6''))"
proof -
  have "URL_Hostname (partsOf scheme h port path query) = h" "URL_Port (partsOf scheme h port path query) = port"
    using splitHostPort_authority [OF assms(2,3)] by (simp_all add: URL_Hostname_def URL_Port_def)
  then show ?thesis
    using url_Parse_plain [OF assms] hostText_plain(1) [OF assms(2)]
      gatewayProtocol_name gatewayProtocol_dotted gatewayProtocol_ip6
    by (simp add: gatewayMultiaddr_def gatewayPort_def Let_def)
qed

definition textGateways :: "string gatewayLib" where
  "textGateways = \<lparr>NewMultiaddr = Inr, Sum256 = \<lambda>s. s, multihashEncode = Inr\<rparr>"

lemma loopback_text: "ip6Text [] [1] ''::1''"
  by (simp add: ip6Text_def shortForm_def grouped_def hexText.simps hexDigit_def byteOf_def char_literal)

lemma loopback_url:
  "schemeText ''http''" "hostText ''::1''" "list_all isDigit ''8080''"
  "plainURL ''http'' ''::1'' ''8080'' [] [] = ''http://[::1]:8080''"
  using loopback_text by (auto simp: schemeText_def codeOf_def hostText_def isDigit_def plainURL_def authority_def bracketed_def)

theorem gatewayMultiaddr_address_witness:
  "gatewayMultiaddr textGateways ''http://[::1]:8080'' = Inr ''/ip6/::1/tcp/8080/http''"
proof -
  have "pathText []" "queryText []" by (simp_all add: pathText_def queryText_def)
  note th = gatewayMultiaddr_address [OF loopback_url(1-3) this, of textGateways, unfolded loopback_url(4)]
  have "ip6Groups [] [1] = [0, 0, 0, 0, 0, 0, 0, 1]" by (simp add: ip6Groups_def eval_nat_numeral)
  then have "gatewayProtocol ''::1'' = ''ip6''" using th loopback_text by force
  then show ?thesis using th by (simp add: textGateways_def)
qed

end
