(* ===== verification/Identity.thy ===== *)
theory Identity
  imports Go_Hex
begin

text \<open>
  \<open>identity.go\<close> and the hex the bindings carry a seed in: the length a seed must have, the key made
  of it, and \<open>identitySeed\<close> of \<open>ffi.go\<close>. Bytes are characters.
\<close>

section \<open>Seeds\<close>

definition SeedSize :: nat where "SeedSize = 32"

definition checkIdentitySeed :: "string \<Rightarrow> error option" where
  "checkIdentitySeed seed =
     (if length seed = 0 \<or> length seed = SeedSize then None
      else Some (Errorf ''identity seed is %d bytes, want %d''
        [showInt (int (length seed)), showInt (int SeedSize)]))"

text \<open>
  What is not under \<open>src/\<close>: a fresh random key, and the Ed25519 key of a seed in the form libp2p
  takes it.
\<close>

record 'k keyLib =
  generateKey :: "error + 'k"
  keyFromSeed :: "string \<Rightarrow> error + 'k"

definition nodeIdentity :: "'k keyLib \<Rightarrow> string \<Rightarrow> error + 'k" where
  "nodeIdentity lib seed =
     (case checkIdentitySeed seed of
        Some e \<Rightarrow> Inl e
      | None \<Rightarrow> if length seed = 0 then generateKey lib else keyFromSeed lib seed)"

section \<open>Seeds across the bindings\<close>

text \<open>\<open>ffi.identitySeed\<close>: nil and the empty slice are the same seed to every reader of one.\<close>

definition identitySeed :: "string \<Rightarrow> error + string" where
  "identitySeed hexSeed =
     (if hexSeed = [] then Inr []
      else
        case DecodeString hexSeed of
          Inl e \<Rightarrow> Inl (Wrapped ''identity seed is not hex'' e)
        | Inr seed \<Rightarrow> Inr seed)"

section \<open>Properties\<close>

text \<open>
  A seed survives the bindings: whatever bytes are written as hex, in either case of letters, are
  the bytes \<open>identitySeed\<close> gives back, and the node gets the key of exactly those bytes when they
  are 32.
\<close>

theorem identitySeed_roundtrip:
  "identitySeed (EncodeToString upper seed) = Inr seed
   \<and> (length seed = SeedSize \<longrightarrow> nodeIdentity lib seed = keyFromSeed lib seed)"
proof -
  have "EncodeToString upper seed = [] \<longleftrightarrow> seed = []" by (cases seed) (simp_all add: EncodeToString_def)
  then show ?thesis
    by (simp add: identitySeed_def DecodeString_EncodeToString nodeIdentity_def checkIdentitySeed_def SeedSize_def)
qed

theorem identitySeed_roundtrip_witness:
  "nodeIdentity \<lparr>generateKey = Inl ErrClosed, keyFromSeed = Inr\<rparr> (replicate 32 CHR ''s'') = Inr (replicate 32 CHR ''s'')"
  using identitySeed_roundtrip [of True "replicate 32 CHR ''s''" "\<lparr>generateKey = Inl ErrClosed, keyFromSeed = Inr\<rparr>"]
  by (simp add: SeedSize_def)

text \<open>
  The seeds a client starts with are exactly none at all and 64 hex digits. Anything else is an
  error at construction, never a peer id nobody asked for: other characters and an odd number of
  digits are refused by \<open>identitySeed\<close>, any other length by \<open>checkIdentitySeed\<close>. Only the empty
  seed gives a key made at random.
\<close>

theorem identity_accepted:
  "(\<exists>seed. identitySeed hexSeed = Inr seed \<and> checkIdentitySeed seed = None)
     \<longleftrightarrow> hexSeed = [] \<or> (length hexSeed = 64 \<and> list_all (\<lambda>c. hexVal c \<noteq> None) hexSeed)"
  (is "?accepted \<longleftrightarrow> _")
proof
  assume ?accepted
  then obtain seed where seed: "identitySeed hexSeed = Inr seed" "checkIdentitySeed seed = None" by blast
  show "hexSeed = [] \<or> (length hexSeed = 64 \<and> list_all (\<lambda>c. hexVal c \<noteq> None) hexSeed)"
  proof (cases "hexSeed = []")
    case False
    then have d: "DecodeString hexSeed = Inr seed" using seed(1) by (auto simp: identitySeed_def split: sum.splits)
    then have "list_all (\<lambda>c. hexVal c \<noteq> None) hexSeed" using DecodeString_ok [of hexSeed] by simp
    moreover have "length hexSeed = 64"
      using DecodeString_length [OF d] seed(2) False by (auto simp: checkIdentitySeed_def SeedSize_def split: if_splits)
    ultimately show ?thesis by blast
  qed simp
next
  assume h: "hexSeed = [] \<or> (length hexSeed = 64 \<and> list_all (\<lambda>c. hexVal c \<noteq> None) hexSeed)"
  show ?accepted
  proof (cases "hexSeed = []")
    case False
    then have "isOk (DecodeString hexSeed)" using h by (simp add: DecodeString_ok)
    then obtain seed where d: "DecodeString hexSeed = Inr seed" by (cases "DecodeString hexSeed") auto
    have "length seed = SeedSize" using DecodeString_length [OF d] h False by (simp add: SeedSize_def)
    then show ?thesis using d False by (simp add: identitySeed_def checkIdentitySeed_def)
  qed (simp add: identitySeed_def checkIdentitySeed_def)
qed

end
