(* ===== verification/Delegated.thy ===== *)
theory Delegated
  imports Go_Errors
begin

text \<open>
  The delegated routing of \<open>routing.go\<close>: the client it builds, and the transport that keeps the
  indexer's answers in a format it has.
\<close>

section \<open>jsonOnlyTransport\<close>

text \<open>
  A request as the transport sees it: its headers, by canonical name, and the rest. A round tripper
  is what it makes of a request.
\<close>

record 'r request =
  Header :: "string \<Rightarrow> string option"
  rest :: 'r

definition setHeader :: "string \<Rightarrow> string \<Rightarrow> 'r request \<Rightarrow> 'r request" where
  "setHeader k v req = req\<lparr>Header := (Header req)(k \<mapsto> v)\<rparr>"

definition RoundTrip :: "('r request \<Rightarrow> 'a) option \<Rightarrow> ('r request \<Rightarrow> 'a) \<Rightarrow> 'r request \<Rightarrow> 'a" where
  "RoundTrip inner DefaultTransport request =
     (let forwarded = setHeader ''Accept'' ''application/json'' request in
      case inner of
        None \<Rightarrow> DefaultTransport forwarded
      | Some tripper \<Rightarrow> tripper forwarded)"

text \<open>However the caller asked, the indexer is asked for JSON, once, and nothing else is changed.\<close>

lemma RoundTrip_json:
  "\<exists>forwarded. RoundTrip inner DefaultTransport req = (case inner of None \<Rightarrow> DefaultTransport | Some t \<Rightarrow> t) forwarded
     \<and> Header forwarded ''Accept'' = Some ''application/json''
     \<and> (\<forall>k. k \<noteq> ''Accept'' \<longrightarrow> Header forwarded k = Header req k) \<and> rest forwarded = rest req"
  by (intro exI [of _ "setHeader ''Accept'' ''application/json'' req"])
     (simp add: RoundTrip_def Let_def setHeader_def split: option.split)

section \<open>newDelegatedRouter\<close>

definition userAgent :: string where "userAgent = ''ipfs-mobile''"

definition delegatedResponseLimit :: nat where "delegatedResponseLimit = 2 ^ 20"

text \<open>The options \<open>routinghttp.New\<close> is given; its transport is the one above around the default one.\<close>

record routingOptions =
  LimitBytes :: nat
  UserAgent :: string
  ProtocolFilter :: "string list"

definition routerOptions :: routingOptions where
  "routerOptions =
     \<lparr>LimitBytes = delegatedResponseLimit, UserAgent = userAgent,
      ProtocolFilter = [''unknown'', ''transport-bitswap'', ''transport-ipfs-gateway-http'']\<rparr>"

definition newDelegatedRouter :: "(string \<Rightarrow> string list \<Rightarrow> string)
    \<Rightarrow> (string \<Rightarrow> routingOptions \<Rightarrow> error + 'd) \<Rightarrow> string \<Rightarrow> error + 'd" where
  "newDelegatedRouter sprintf routinghttp_New endpoint =
     (case routinghttp_New endpoint routerOptions of
        Inl e \<Rightarrow> Inl (Wrapped (sprintf ''delegated routing endpoint %q'' [endpoint]) e)
      | Inr delegated \<Rightarrow> Inr delegated)"

end
