(* ===== verification/Client_New.thy ===== *)
theory Client_New
  imports Gateway Identity Delegated Deadline Lifecycle Resolver
begin

text \<open>
  The constructor of \<open>client.go\<close>: what a configuration must have for a client to be made of it, and
  the client that is.
\<close>

section \<open>Configuration and client\<close>

record config =
  BootstrapPeers :: "string list"
  Port :: int
  IdleTimeout :: int64
  DisableDHT :: bool
  IdentitySeed :: string
  PeerSnapshotPath :: string
  DelegatedRoutingEndpoint :: string
  DNSServers :: "string list"
  Gateways :: "string list"
  PrimaryTimeout :: int64
  FallbackStepTimeout :: int64
  AllowUnverifiedGatewayFallback :: bool

text \<open>\<open>nodeConfig\<close> of \<open>node.go\<close>, without the hook of the tests. A resolver is its servers.\<close>

record ('m, 'd) nodeConfig =
  nodePort :: int
  nodePeers :: "'m addrInfo list"
  disableDHT :: bool
  nodeSeed :: string
  snapshotPath :: string
  nodeGateways :: "'m addrInfo list"
  gatewayHosts :: "string list"
  delegated :: "'d option"
  resolver :: "string list option"

text \<open>The three groups of fields of \<open>Client\<close>: its node's configuration, the download path's, its state.\<close>

record ('m, 'd) newClient =
  nodeConf :: "('m, 'd) nodeConfig"
  retrievalConf :: retrieval
  clientState0 :: clientState

text \<open>What is not under \<open>src/\<close>, beside the address libraries.\<close>

record ('m, 'd) newLib =
  addrs :: "'m addrLib"
  gatewayUrls :: "'m gatewayLib"
  madnsErr :: "error option"
  routingNew :: "string \<Rightarrow> routingOptions \<Rightarrow> error + 'd"
  fmtSprintf :: "string \<Rightarrow> string list \<Rightarrow> string"

section \<open>New\<close>

definition optionalRouter :: "('m, 'd) newLib \<Rightarrow> string \<Rightarrow> error + 'd option" where
  "optionalRouter lib endpoint =
     (if endpoint \<noteq> [] then
        (case newDelegatedRouter (fmtSprintf lib) (routingNew lib) endpoint of
           Inl e \<Rightarrow> Inl e
         | Inr router \<Rightarrow> Inr (Some router))
      else Inr None)"

definition nowhereToFetch :: "config \<Rightarrow> error" where
  "nowhereToFetch cfg =
     (let configured = length (BootstrapPeers cfg) + length (Gateways cfg) in
      if configured > 0 then
        Errorf ''none of the %d configured bootstrap peers and gateways is a valid address, there is nowhere to fetch from''
          [showInt (int configured)]
      else
        Errorf ''no bootstrap peers, gateways or delegated routing endpoint configured, there is nowhere to fetch from'' [])"

definition New :: "('m, 'd) newLib \<Rightarrow> config \<Rightarrow> error + ('m, 'd) newClient" where
  "New lib cfg =
     (let peers = parsePeers (addrs lib) (BootstrapPeers cfg);
          (gws, hosts, urls) = parseGateways (gatewayUrls lib) (Gateways cfg)
      in
      case checkIdentitySeed (IdentitySeed cfg) of
        Some e \<Rightarrow> Inl e
      | None \<Rightarrow>
        andThen (newResolver (madnsErr lib) (DNSServers cfg)) (\<lambda>res.
        andThen (optionalRouter lib (DelegatedRoutingEndpoint cfg)) (\<lambda>router.
          if length peers = 0 \<and> length gws = 0 \<and> router = None then Inl (nowhereToFetch cfg)
          else Inr
            \<lparr>nodeConf =
               \<lparr>nodePort = Port cfg, nodePeers = peers, disableDHT = DisableDHT cfg, nodeSeed = IdentitySeed cfg,
                snapshotPath = PeerSnapshotPath cfg, nodeGateways = gws, gatewayHosts = hosts,
                delegated = router, resolver = res\<rparr>,
             retrievalConf =
               \<lparr>gateways = urls, allowUnverified = AllowUnverifiedGatewayFallback cfg,
                primaryTimeout = orDefault (PrimaryTimeout cfg) defaultPrimaryTimeout,
                fallbackStepTimeout = orDefault (FallbackStepTimeout cfg) defaultFallbackStepTimeout\<rparr>,
             clientState0 = newClientState (IdleTimeout cfg)\<rparr>)))"

section \<open>When it succeeds\<close>

text \<open>A route the configuration still has once the entries that do not parse are left out.\<close>

definition validPeer :: "('m, 'x) addrLib_scheme \<Rightarrow> string \<Rightarrow> bool" where
  "validPeer lib entry \<longleftrightarrow> isOk (p2pAddr lib entry)"

definition hasRoute :: "('m, 'd) newLib \<Rightarrow> config \<Rightarrow> bool" where
  "hasRoute lib cfg \<longleftrightarrow>
     list_ex (validPeer (addrs lib)) (BootstrapPeers cfg)
     \<or> list_ex (usableGateway (gatewayUrls lib)) (Gateways cfg)
     \<or> DelegatedRoutingEndpoint cfg \<noteq> []"

definition dnsUsable :: "('m, 'd) newLib \<Rightarrow> config \<Rightarrow> bool" where
  "dnsUsable lib cfg \<longleftrightarrow>
     DNSServers cfg = []
     \<or> madnsErr lib = None \<and> list_ex (\<lambda>server. isOk (dnsServerAddr server)) (DNSServers cfg)"

definition routerUsable :: "('m, 'd) newLib \<Rightarrow> config \<Rightarrow> bool" where
  "routerUsable lib cfg \<longleftrightarrow>
     DelegatedRoutingEndpoint cfg = [] \<or> isOk (routingNew lib (DelegatedRoutingEndpoint cfg) routerOptions)"

lemma parsePeers_Nil_iff: "parsePeers lib entries = [] \<longleftrightarrow> \<not> list_ex (validPeer lib) entries"
proof -
  have "parsePeers lib entries = [] \<longleftrightarrow> validEntries lib entries = []"
    using parsePeers_spec [of lib entries] by (metis empty_set image_is_empty list.set_map set_empty)
  also have "\<dots> \<longleftrightarrow> \<not> list_ex (validPeer lib) entries"
    by (induction entries) (auto simp: validPeer_def split: sum.split)
  finally show ?thesis .
qed

lemma newResolver_ok: "isOk (newResolver built servers) \<longleftrightarrow>
    servers = [] \<or> built = None \<and> list_ex (\<lambda>server. isOk (dnsServerAddr server)) servers"
proof -
  have "validServers servers = [] \<longleftrightarrow> \<not> list_ex (\<lambda>server. isOk (dnsServerAddr server)) servers"
    by (induction servers) (auto split: sum.split)
  then show ?thesis by (auto simp: newResolver_def Let_def split: option.split)
qed

lemma isOk_andThen: "isOk (andThen r f) \<longleftrightarrow> (\<exists>x. r = Inr x \<and> isOk (f x))"
  by (cases r) simp_all

lemma optionalRouter_cases:
  "optionalRouter lib endpoint = Inr router \<Longrightarrow> (router = None \<longleftrightarrow> endpoint = [])"
  by (auto simp: optionalRouter_def split: if_splits sum.splits)

lemma optionalRouter_ok:
  "isOk (optionalRouter lib endpoint) \<longleftrightarrow> endpoint = [] \<or> isOk (routingNew lib endpoint routerOptions)"
  by (cases "routingNew lib endpoint routerOptions") (auto simp: optionalRouter_def newDelegatedRouter_def)

lemma parseGateways_Nil_iff:
  "fst (parseGateways lib entries) = [] \<longleftrightarrow> \<not> list_ex (usableGateway lib) entries"
  by (auto simp: parseGateways_eq Let_def filter_empty_conv list_ex_iff)

lemma New_eq:
  "New lib cfg =
     (case checkIdentitySeed (IdentitySeed cfg) of
        Some e \<Rightarrow> Inl e
      | None \<Rightarrow>
        andThen (newResolver (madnsErr lib) (DNSServers cfg)) (\<lambda>res.
        andThen (optionalRouter lib (DelegatedRoutingEndpoint cfg)) (\<lambda>router.
          if \<not> hasRoute lib cfg then Inl (nowhereToFetch cfg)
          else Inr
            \<lparr>nodeConf =
               \<lparr>nodePort = Port cfg, nodePeers = parsePeers (addrs lib) (BootstrapPeers cfg),
                disableDHT = DisableDHT cfg, nodeSeed = IdentitySeed cfg, snapshotPath = PeerSnapshotPath cfg,
                nodeGateways = fst (parseGateways (gatewayUrls lib) (Gateways cfg)),
                gatewayHosts = fst (snd (parseGateways (gatewayUrls lib) (Gateways cfg))),
                delegated = router, resolver = res\<rparr>,
             retrievalConf =
               \<lparr>gateways = snd (snd (parseGateways (gatewayUrls lib) (Gateways cfg))),
                allowUnverified = AllowUnverifiedGatewayFallback cfg,
                primaryTimeout = orDefault (PrimaryTimeout cfg) defaultPrimaryTimeout,
                fallbackStepTimeout = orDefault (FallbackStepTimeout cfg) defaultFallbackStepTimeout\<rparr>,
             clientState0 = newClientState (IdleTimeout cfg)\<rparr>)))"
proof -
  have route: "(parsePeers (addrs lib) (BootstrapPeers cfg) = [] \<and> fst (parseGateways (gatewayUrls lib) (Gateways cfg)) = []
      \<and> router = None) \<longleftrightarrow> \<not> hasRoute lib cfg"
    if "optionalRouter lib (DelegatedRoutingEndpoint cfg) = Inr router" for router
    using optionalRouter_cases [OF that] by (auto simp: hasRoute_def parsePeers_Nil_iff parseGateways_Nil_iff)
  show ?thesis
  proof (cases "optionalRouter lib (DelegatedRoutingEndpoint cfg)")
    case (Inl e)
    then show ?thesis
      by (cases "newResolver (madnsErr lib) (DNSServers cfg)")
         (simp_all add: New_def Let_def split: option.split prod.split)
  next
    case (Inr router)
    from route [OF this] Inr show ?thesis
      by (cases "newResolver (madnsErr lib) (DNSServers cfg)")
         (auto simp: New_def Let_def split: option.split prod.split)
  qed
qed

lemma New_parts:
  assumes "New lib cfg = Inr c"
  shows "(nodePeers (nodeConf c) \<noteq> [] \<or> nodeGateways (nodeConf c) \<noteq> [] \<or> delegated (nodeConf c) \<noteq> None)
    \<and> 0 < primaryTimeout (retrievalConf c) \<and> 0 < fallbackStepTimeout (retrievalConf c)
    \<and> gateways (retrievalConf c) = filter (usableGateway (gatewayUrls lib)) (Gateways cfg)
    \<and> nodeGateways (nodeConf c) = map (gatewayPeer (gatewayUrls lib)) (gateways (retrievalConf c))
    \<and> gatewayHosts (nodeConf c) = map (gatewayHost) (gateways (retrievalConf c))
    \<and> (resolver (nodeConf c) = None \<longleftrightarrow> DNSServers cfg = []) \<and> nodeSeed (nodeConf c) = IdentitySeed cfg
    \<and> clientState0 c = newClientState (IdleTimeout cfg)
    \<and> disableDHT (nodeConf c) = DisableDHT cfg
    \<and> (delegated (nodeConf c) = None \<longleftrightarrow> DelegatedRoutingEndpoint cfg = [])"
proof -
  have seed: "checkIdentitySeed (IdentitySeed cfg) = None"
    using assms by (auto simp: New_eq split: option.splits)
  then obtain res router where res: "newResolver (madnsErr lib) (DNSServers cfg) = Inr res"
    and router: "optionalRouter lib (DelegatedRoutingEndpoint cfg) = Inr router"
    and route: "hasRoute lib cfg"
    using assms by (auto simp: New_eq andThen_Inr_iff split: if_splits)
  have "res = None \<longleftrightarrow> DNSServers cfg = []"
    using res by (auto simp: newResolver_def Let_def split: if_splits option.splits)
  moreover have "parsePeers (addrs lib) (BootstrapPeers cfg) \<noteq> []
      \<or> fst (parseGateways (gatewayUrls lib) (Gateways cfg)) \<noteq> [] \<or> router \<noteq> None"
    using route optionalRouter_cases [OF router] by (auto simp: hasRoute_def parsePeers_Nil_iff parseGateways_Nil_iff)
  moreover have "router = None \<longleftrightarrow> DelegatedRoutingEndpoint cfg = []" by (rule optionalRouter_cases [OF router])
  ultimately show ?thesis
    using assms seed res router route
    by (auto simp: New_eq parseGateways_eq Let_def orDefault_def defaultPrimaryTimeout_def defaultFallbackStepTimeout_def)
qed

lemma New_accepted:
  "(isOk (New lib cfg) \<longleftrightarrow>
      checkIdentitySeed (IdentitySeed cfg) = None \<and> dnsUsable lib cfg \<and> routerUsable lib cfg \<and> hasRoute lib cfg)
   \<and> (checkIdentitySeed (IdentitySeed cfg) = None \<and> dnsUsable lib cfg \<and> routerUsable lib cfg \<and> \<not> hasRoute lib cfg
      \<longrightarrow> New lib cfg = Inl (nowhereToFetch cfg))"
proof -
  have dns: "dnsUsable lib cfg \<longleftrightarrow> isOk (newResolver (madnsErr lib) (DNSServers cfg))"
    by (simp add: dnsUsable_def newResolver_ok)
  have router: "routerUsable lib cfg \<longleftrightarrow> isOk (optionalRouter lib (DelegatedRoutingEndpoint cfg))"
    by (simp add: routerUsable_def optionalRouter_ok)
  show ?thesis
    unfolding dns router New_eq
    by (cases "newResolver (madnsErr lib) (DNSServers cfg)";
        cases "optionalRouter lib (DelegatedRoutingEndpoint cfg)") (auto split: option.split)
qed

section \<open>Properties\<close>

text \<open>
  C24. A client is made exactly of a configuration with a route: the seed has a length a seed has, the
  DNS servers, if any are named, include a valid one, the delegated endpoint, if one is named, can be
  used, and at least one bootstrap peer, one gateway or that endpoint is left once the entries that do
  not parse are skipped - so a typo in one list never takes away what another list provides. With
  everything else in order and no route, the error says how many entries were tried.
\<close>

theorem New_accepts:
  "(isOk (New lib cfg) \<longleftrightarrow>
      checkIdentitySeed (IdentitySeed cfg) = None \<and> dnsUsable lib cfg \<and> routerUsable lib cfg \<and> hasRoute lib cfg)
   \<and> (checkIdentitySeed (IdentitySeed cfg) = None \<and> dnsUsable lib cfg \<and> routerUsable lib cfg \<and> \<not> hasRoute lib cfg
      \<longrightarrow> New lib cfg = Inl (nowhereToFetch cfg))"
  by (rule New_accepted)

text \<open>
  What a new client is like: it has somewhere to fetch from, both of its timeouts are positive
  whatever was configured, its fallback asks exactly the gateways its node is allowed to ask, in
  order, none with an empty host, its servers and seed are the configured ones, and it starts idle:
  open, with no node, no timer and no download.
\<close>

theorem New_client:
  assumes "New lib cfg = Inr c"
  shows "(nodePeers (nodeConf c) \<noteq> [] \<or> nodeGateways (nodeConf c) \<noteq> [] \<or> delegated (nodeConf c) \<noteq> None)
    \<and> 0 < primaryTimeout (retrievalConf c) \<and> 0 < fallbackStepTimeout (retrievalConf c)
    \<and> gateways (retrievalConf c) = filter (usableGateway (gatewayUrls lib)) (Gateways cfg)
    \<and> nodeGateways (nodeConf c) = map (gatewayPeer (gatewayUrls lib)) (gateways (retrievalConf c))
    \<and> gatewayHosts (nodeConf c) = map (gatewayHost) (gateways (retrievalConf c))
    \<and> (resolver (nodeConf c) = None \<longleftrightarrow> DNSServers cfg = []) \<and> nodeSeed (nodeConf c) = IdentitySeed cfg
    \<and> clientState0 c = newClientState (IdleTimeout cfg)"
  using New_parts [OF assms] by blast

text \<open>One delegated endpoint and a gateway that does not parse.\<close>

definition sampleLib :: "(string, unit) newLib" where
  "sampleLib =
     \<lparr>addrs = \<lparr>p2pAddr = \<lambda>s. Inl ErrClosed, isPrivateAddr = \<lambda>_. False, isIPLoopback = \<lambda>_. False, namesIP = \<lambda>_. True,
        addrString = \<lambda>s. s\<rparr>,
      gatewayUrls = textGateways, madnsErr = None, routingNew = \<lambda>_ _. Inr (),
      fmtSprintf = \<lambda>f args. f\<rparr>"

definition sampleConfig :: config where
  "sampleConfig =
     \<lparr>BootstrapPeers = [], Port = 0, IdleTimeout = 0, DisableDHT = True, IdentitySeed = [], PeerSnapshotPath = [],
      DelegatedRoutingEndpoint = ''https://cid.contact'', DNSServers = [], Gateways = [''bad''], PrimaryTimeout = -1,
      FallbackStepTimeout = 0, AllowUnverifiedGatewayFallback = True\<rparr>"

lemma badGateway: "\<not> usableGateway textGateways ''bad''"
  by code_simp

theorem New_accepts_witness:
  "isOk (New sampleLib sampleConfig)
   \<and> New sampleLib (sampleConfig\<lparr>DelegatedRoutingEndpoint := []\<rparr>) = Inl (nowhereToFetch sampleConfig)"
proof -
  have "hasRoute sampleLib sampleConfig" "\<not> hasRoute sampleLib (sampleConfig\<lparr>DelegatedRoutingEndpoint := []\<rparr>)"
    using badGateway by (simp_all add: hasRoute_def sampleConfig_def sampleLib_def)
  moreover have "nowhereToFetch (sampleConfig\<lparr>DelegatedRoutingEndpoint := []\<rparr>) = nowhereToFetch sampleConfig"
    by (simp add: nowhereToFetch_def)
  ultimately show ?thesis
    using New_accepts [of sampleLib sampleConfig] New_accepts [of sampleLib "sampleConfig\<lparr>DelegatedRoutingEndpoint := []\<rparr>"]
    by (simp add: checkIdentitySeed_def dnsUsable_def routerUsable_def) (simp add: sampleConfig_def sampleLib_def)
qed

theorem New_client_witness:
  "\<exists>c. New sampleLib sampleConfig = Inr c \<and> primaryTimeout (retrievalConf c) = 15000000000 \<and> 0 < fallbackStepTimeout (retrievalConf c)"
proof -
  obtain c where c: "New sampleLib sampleConfig = Inr c"
    and t: "primaryTimeout (retrievalConf c) = 15000000000"
    by (simp add: New_eq hasRoute_def sampleConfig_def sampleLib_def checkIdentitySeed_def newResolver_def optionalRouter_def
        newDelegatedRouter_def orDefault_def defaultPrimaryTimeout_def)
  show ?thesis using c t New_client [OF c] by blast
qed

end
