(* ===== verification/FFI.thy ===== *)
theory FFI
  imports Client_New Get
begin

text \<open>
  The bindings of \<open>ffi.go\<close>, and the one-shot \<open>Get\<close> of \<open>client.go\<close> they share their shape with: what
  gomobile can carry, turned into what the client takes.
\<close>

section \<open>Durations\<close>

definition millisecond :: int64 where "millisecond = 1000000"

definition maxMilliseconds :: int64 where "maxMilliseconds = max_int64 div millisecond"

definition milliseconds :: "int64 \<Rightarrow> int64" where
  "milliseconds value =
     (if value \<le> 0 then 0
      else if value > maxMilliseconds then max_int64
      else wrap64 (value * millisecond))"

text \<open>The timeout of the context a call runs under, if it has one.\<close>

definition withTimeout :: "int64 \<Rightarrow> int64 option" where
  "withTimeout timeout =
     (if timeout \<le> 0 \<or> timeout > maxMilliseconds then None
      else Some (wrap64 (timeout * millisecond)))"

section \<open>Configurations\<close>

text \<open>The fields carry the prefix of their struct, as two structs here and \<open>client.Config\<close> share names.\<close>

record ClientConfig =
  ccBootstrapPeers :: string
  ccPort :: int
  ccGateways :: string
  ccDNSServers :: string
  ccDisableDHT :: bool
  ccIdentitySeed :: string
  ccPeerSnapshotPath :: string
  ccDelegatedRouting :: string
  ccIdleTimeout :: int64
  ccAllowUnverifiedGatewayFallback :: bool
  ccPrimaryTimeout :: int64
  ccFallbackStepTimeout :: int64

record onceConfig =
  ocBootstrapPeers :: string
  ocPort :: int
  ocSizeLimit :: int64
  ocTimeout :: int64
  ocDisableDHT :: bool
  ocDelegatedRouting :: string
  ocGateways :: string
  ocDNSServers :: string
  ocAllowUnverifiedGatewayFallback :: bool
  ocPrimaryTimeout :: int64
  ocFallbackStepTimeout :: int64

definition clientConfig :: "onceConfig \<Rightarrow> ClientConfig" where
  "clientConfig cfg =
     \<lparr>ccBootstrapPeers = ocBootstrapPeers cfg, ccPort = ocPort cfg, ccGateways = ocGateways cfg,
      ccDNSServers = ocDNSServers cfg, ccDisableDHT = ocDisableDHT cfg, ccIdentitySeed = [],
      ccPeerSnapshotPath = [], ccDelegatedRouting = ocDelegatedRouting cfg, ccIdleTimeout = 0,
      ccAllowUnverifiedGatewayFallback = ocAllowUnverifiedGatewayFallback cfg,
      ccPrimaryTimeout = ocPrimaryTimeout cfg, ccFallbackStepTimeout = ocFallbackStepTimeout cfg\<rparr>"

section \<open>NewClient\<close>

definition innerConfig :: "ClientConfig \<Rightarrow> string \<Rightarrow> config" where
  "innerConfig cfg seed =
     \<lparr>BootstrapPeers = GetStringSlice (ccBootstrapPeers cfg) [], Port = ccPort cfg,
      IdleTimeout = milliseconds (ccIdleTimeout cfg), DisableDHT = ccDisableDHT cfg, IdentitySeed = seed,
      PeerSnapshotPath = ccPeerSnapshotPath cfg, DelegatedRoutingEndpoint = ccDelegatedRouting cfg,
      DNSServers = GetStringSlice (ccDNSServers cfg) [], Gateways = GetStringSlice (ccGateways cfg) [],
      PrimaryTimeout = milliseconds (ccPrimaryTimeout cfg),
      FallbackStepTimeout = milliseconds (ccFallbackStepTimeout cfg),
      AllowUnverifiedGatewayFallback = ccAllowUnverifiedGatewayFallback cfg\<rparr>"

definition NewClient :: "('m, 'd) newLib \<Rightarrow> ClientConfig \<Rightarrow> error + ('m, 'd) newClient" where
  "NewClient lib cfg =
     (case identitySeed (ccIdentitySeed cfg) of
        Inl e \<Rightarrow> Inl e
      | Inr seed \<Rightarrow>
          (case New lib (innerConfig cfg seed) of
             Inl e \<Rightarrow> Inl e
           | Inr inner \<Rightarrow> Inr inner))"

section \<open>Get\<close>

text \<open>
  A call's surroundings, given the timeout of its context, and the client's state by the time the
  download has returned. \<open>Close\<close> is deferred, so it runs on every path past the constructor.
\<close>

record callRun =
  run :: "int64 option \<Rightarrow> getRun"
  stateAfter :: "clientState \<Rightarrow> clientState"

definition clientGet :: "platform \<Rightarrow> retrieval \<Rightarrow> callRun \<Rightarrow> string \<Rightarrow> string \<Rightarrow> int64 \<Rightarrow> int64 \<Rightarrow> world
    \<Rightarrow> world \<times> error option" where
  "clientGet pf c g cid output sizeLimit timeout w =
     Get pf c (run g (withTimeout timeout)) cid output sizeLimit w"

definition clientClose :: "clientState \<Rightarrow> nodeId option \<times> clientState" where
  "clientClose c = closeClient c"

definition getOnce :: "platform \<Rightarrow> ('m, 'd) newLib \<Rightarrow> callRun \<Rightarrow> string \<Rightarrow> string \<Rightarrow> onceConfig \<Rightarrow> world
    \<Rightarrow> world \<times> clientState option \<times> error option" where
  "getOnce pf lib g cid output cfg w =
     (case NewClient lib (clientConfig cfg) of
        Inl e \<Rightarrow> (w, None, Some e)
      | Inr inner \<Rightarrow>
          (case clientGet pf (retrievalConf inner) g cid output (ocSizeLimit cfg) (ocTimeout cfg) w of
             (w', err) \<Rightarrow> (w', Some (snd (clientClose (stateAfter g (clientState0 inner)))), err)))"

text \<open>\<open>client.Get\<close>: the same around the constructor itself, under the caller's own context.\<close>

definition clientGetOnce :: "platform \<Rightarrow> ('m, 'd) newLib \<Rightarrow> getRun \<Rightarrow> (clientState \<Rightarrow> clientState) \<Rightarrow> string \<Rightarrow> string
    \<Rightarrow> config \<Rightarrow> int64 \<Rightarrow> world \<Rightarrow> world \<times> clientState option \<times> error option" where
  "clientGetOnce pf lib g after cid output cfg sizeLimit w =
     (case New lib cfg of
        Inl e \<Rightarrow> (w, None, Some e)
      | Inr inner \<Rightarrow>
          (case Get pf (retrievalConf inner) g cid output sizeLimit w of
             (w', err) \<Rightarrow> (w', Some (snd (closeClient (after (clientState0 inner)))), err)))"

section \<open>Properties\<close>

lemma maxMilliseconds_value: "maxMilliseconds = 9223372036854"
  by (simp add: maxMilliseconds_def millisecond_def)

lemma millisecond_product: "0 < v \<Longrightarrow> v \<le> maxMilliseconds \<Longrightarrow> wrap64 (v * millisecond) = v * millisecond"
  by (rule wrap64_id) (simp_all add: is_int64_def maxMilliseconds_value millisecond_def)

text \<open>
  No duration of the bindings wraps around. Every number of milliseconds a caller can pass becomes
  a duration from zero to the largest there is, larger for a larger number, and exactly that many
  milliseconds whenever a duration can hold them; zero and below become zero, which selects the
  default. A call's timeout is that same duration or none at all: never negative, never zero, so no
  call expires on arrival.
\<close>

theorem milliseconds_bounded:
  "0 \<le> milliseconds v \<and> milliseconds v \<le> max_int64
   \<and> (u \<le> v \<longrightarrow> milliseconds u \<le> milliseconds v)
   \<and> (0 \<le> v \<and> v \<le> maxMilliseconds \<longrightarrow> milliseconds v = v * millisecond)
   \<and> (v \<le> 0 \<longrightarrow> milliseconds v = 0)
   \<and> (v \<le> 0 \<or> v > maxMilliseconds \<longleftrightarrow> withTimeout v = None)
   \<and> (\<forall>t. withTimeout v = Some t \<longrightarrow> 0 < t \<and> t = milliseconds v)"
  using millisecond_product [of u] millisecond_product [of v]
  by (auto simp: milliseconds_def withTimeout_def maxMilliseconds_value millisecond_def not_le)

theorem milliseconds_bounded_witness:
  "milliseconds 15000 = 15000000000 \<and> milliseconds max_int64 = max_int64 \<and> withTimeout max_int64 = None"
  using milliseconds_bounded [where v = 15000 and u = 0] milliseconds_bounded [where v = max_int64 and u = 0]
  by (simp add: maxMilliseconds_value millisecond_def milliseconds_def)

text \<open>How a caller encodes a configuration: lists joined with semicolons, the seed in hex, milliseconds.\<close>

definition encodeConfig :: "bool \<Rightarrow> config \<Rightarrow> int64 \<Rightarrow> int64 \<Rightarrow> int64 \<Rightarrow> ClientConfig" where
  "encodeConfig upper cfg idleMs primaryMs stepMs =
     \<lparr>ccBootstrapPeers = joinChar CHR '';'' (BootstrapPeers cfg), ccPort = Port cfg,
      ccGateways = joinChar CHR '';'' (Gateways cfg), ccDNSServers = joinChar CHR '';'' (DNSServers cfg),
      ccDisableDHT = DisableDHT cfg, ccIdentitySeed = EncodeToString upper (IdentitySeed cfg),
      ccPeerSnapshotPath = PeerSnapshotPath cfg, ccDelegatedRouting = DelegatedRoutingEndpoint cfg,
      ccIdleTimeout = idleMs, ccAllowUnverifiedGatewayFallback = AllowUnverifiedGatewayFallback cfg,
      ccPrimaryTimeout = primaryMs, ccFallbackStepTimeout = stepMs\<rparr>"

lemma identitySeed_encoded: "identitySeed (EncodeToString upper seed) = Inr seed"
  by (cases seed) (simp_all add: identitySeed_def DecodeString_EncodeToString, simp add: EncodeToString_def)

text \<open>
  C30. The bindings carry a configuration faithfully: a client made through them of the encoded lists,
  seed and milliseconds is the client the constructor makes of the configuration itself, errors
  included, and no list entry, byte of the seed or millisecond is lost or made up on the way.
\<close>

theorem NewClient_carries:
  assumes "list_all listEntry (BootstrapPeers cfg)" and "list_all listEntry (Gateways cfg)"
    and "list_all listEntry (DNSServers cfg)"
    and "IdleTimeout cfg = idleMs * millisecond" and "PrimaryTimeout cfg = primaryMs * millisecond"
    and "FallbackStepTimeout cfg = stepMs * millisecond"
    and "{idleMs, primaryMs, stepMs} \<subseteq> {0..maxMilliseconds}"
  shows "NewClient lib (encodeConfig upper cfg idleMs primaryMs stepMs) = New lib cfg"
proof -
  have d: "milliseconds v = v * millisecond" if "v \<in> {0..maxMilliseconds}" for v
    using that millisecond_product [of v] by (auto simp: milliseconds_def)
  have "innerConfig (encodeConfig upper cfg idleMs primaryMs stepMs) (IdentitySeed cfg) = cfg"
    using assms d by (simp add: innerConfig_def encodeConfig_def listEntry_slice)
  moreover have "identitySeed (ccIdentitySeed (encodeConfig upper cfg idleMs primaryMs stepMs)) = Inr (IdentitySeed cfg)"
    by (simp add: encodeConfig_def identitySeed_encoded)
  ultimately show ?thesis by (simp add: NewClient_def split: sum.split)
qed

theorem NewClient_carries_witness:
  "NewClient sampleLib (encodeConfig True (sampleConfig\<lparr>PrimaryTimeout := 5000000\<rparr>) 0 5 0)
     = New sampleLib (sampleConfig\<lparr>PrimaryTimeout := 5000000\<rparr>)"
  by (rule NewClient_carries)
     (simp_all add: sampleConfig_def millisecond_def maxMilliseconds_value listEntry_def trimmed_def startsWithAny_def
        spaceEncodings_def HasPrefix_def)

text \<open>
  A one-shot download leaves nothing running. When no client can be made the disk and the
  cooldowns are untouched and the error is the constructor's; otherwise the outcome is that of the
  client's own \<open>Get\<close>, and whatever it was, the client ends closed, without a node and without a
  running timer.
\<close>

theorem getOnce_closes:
  assumes "getOnce pf lib g cid output cfg w = (w', st, err)"
  shows "(\<forall>e. NewClient lib (clientConfig cfg) = Inl e \<longrightarrow> w' = w \<and> st = None \<and> err = Some e)
    \<and> (\<forall>c. NewClient lib (clientConfig cfg) = Inr c \<longrightarrow>
          clientGet pf (retrievalConf c) g cid output (ocSizeLimit cfg) (ocTimeout cfg) w = (w', err)
          \<and> (\<exists>s. st = Some s \<and> closed s
               \<and> (\<not> closed (stateAfter g (clientState0 c)) \<longrightarrow> node s = None \<and> timer s = None \<and> retired s)))"
  using assms
  by (cases "NewClient lib (clientConfig cfg)")
     (auto simp: getOnce_def clientClose_def closeClient_def stopTimer_def Let_def split: prod.splits option.split)

definition onceSample :: onceConfig where
  "onceSample =
     \<lparr>ocBootstrapPeers = [], ocPort = 0, ocSizeLimit = 5, ocTimeout = 0, ocDisableDHT = True,
      ocDelegatedRouting = ''https://cid.contact'', ocGateways = [], ocDNSServers = [],
      ocAllowUnverifiedGatewayFallback = False, ocPrimaryTimeout = 0, ocFallbackStepTimeout = 0\<rparr>"

theorem getOnce_closes_witness:
  "\<exists>w' s. getOnce plainPlatform sampleLib \<lparr>run = \<lambda>t. tooLargeRun, stateAfter = \<lambda>c. c\<rparr> ''bafy'' ''/d/out'' onceSample plainWorld
       = (w', Some s, Some (SizeLimitError 6 5))
     \<and> closed s"
proof -
  let ?g = "\<lparr>run = \<lambda>t :: int64 option. tooLargeRun, stateAfter = \<lambda>c :: clientState. c\<rparr>"
  obtain c where c: "NewClient sampleLib (clientConfig onceSample) = Inr c"
    by (simp add: NewClient_def clientConfig_def onceSample_def identitySeed_def New_eq innerConfig_def hasRoute_def
        sampleLib_def checkIdentitySeed_def newResolver_def optionalRouter_def newDelegatedRouter_def
        GetStringSlice_default TrimSpace_trimmed trimmed_nil)
  obtain w' st err where r: "getOnce plainPlatform sampleLib ?g ''bafy'' ''/d/out'' onceSample plainWorld = (w', st, err)"
    by (cases "getOnce plainPlatform sampleLib ?g ''bafy'' ''/d/out'' onceSample plainWorld") auto
  from getOnce_closes [OF r] c
  have "clientGet plainPlatform (retrievalConf c) ?g ''bafy'' ''/d/out'' (ocSizeLimit onceSample) (ocTimeout onceSample)
      plainWorld = (w', err)" and s: "\<exists>s. st = Some s \<and> closed s" by blast+
  then have "err = Some (SizeLimitError 6 5)"
    by (auto simp: clientGet_def Get_def tooLargeRun_def getPrimary_def)
  then show ?thesis using r s by auto
qed

end
