(* ===== verification/Dials.thy ===== *)
theory Dials
  imports Peers
begin

text \<open>
  The dials of \<open>node.go\<close>: \<open>dialAll\<close>'s goroutines, one per target and one that waits for them, as
  interleaving steps; the report of an unreachable target, made once per process; and what
  \<open>awaitConnection\<close> waits for.
\<close>

section \<open>reportOnce\<close>

text \<open>The process-wide \<open>sync.Map\<close>, and the subjects printed so far.\<close>

record reports =
  reported :: "string set"
  printed :: "string list"

definition reportOnce :: "string \<Rightarrow> reports \<Rightarrow> reports" where
  "reportOnce subject r =
     (if subject \<in> reported r then r
      else r\<lparr>reported := insert subject (reported r), printed := printed r @ [subject]\<rparr>)"

definition gatewayName :: "('m, 'x) addrLib_scheme \<Rightarrow> 'm addrInfo \<Rightarrow> string" where
  "gatewayName lib gateway =
     (if length (Addrs gateway) = 0 then ''gateway '' @ ID gateway
      else ''gateway '' @ addrString lib (Addrs gateway ! 0))"

definition peerName :: "'m addrInfo \<Rightarrow> string" where
  "peerName info = ''peer '' @ ID info"

section \<open>dialGroup and dialAll\<close>

text \<open>Which channels are closed, and the counter.\<close>

record dialGroup =
  firstClosed :: bool
  doneClosed :: bool
  connected :: int

definition group_count :: "dialGroup \<Rightarrow> int" where
  "group_count g = connected g"

definition group_finished :: "dialGroup \<Rightarrow> bool" where
  "group_finished g \<longleftrightarrow> doneClosed g"

text \<open>
  A target's goroutine: inside \<open>connect\<close>; back with an error, about to report it; back without one,
  about to count it; about to close \<open>first\<close>; about to leave; gone. The last two remember whether
  the target answered.
\<close>

datatype dialPc = Dialling | Failing | Adding | Opening | Leaving bool | Settled bool

text \<open>\<open>closer\<close> is whether the goroutine that closes \<open>done\<close> is still waiting.\<close>

record dialSystem =
  group :: dialGroup
  onceDone :: bool
  waitCount :: int
  dials :: "dialPc list"
  closer :: bool
  log :: reports

definition dialAll :: "nat \<Rightarrow> reports \<Rightarrow> dialSystem" where
  "dialAll targets r =
     (if targets = 0 then
        \<lparr>group = \<lparr>firstClosed = False, doneClosed = True, connected = 0\<rparr>, onceDone = False, waitCount = 0,
         dials = [], closer = False, log = r\<rparr>
      else
        \<lparr>group = \<lparr>firstClosed = False, doneClosed = False, connected = 0\<rparr>, onceDone = False,
         waitCount = int targets, dials = replicate targets Dialling, closer = True, log = r\<rparr>)"

definition at :: "nat \<Rightarrow> dialPc \<Rightarrow> dialSystem \<Rightarrow> bool" where
  "at i p s \<longleftrightarrow> i < length (dials s) \<and> dials s ! i = p"

definition goTo :: "nat \<Rightarrow> dialPc \<Rightarrow> dialSystem \<Rightarrow> dialSystem" where
  "goTo i p s = s\<lparr>dials := (dials s)[i := p]\<rparr>"

inductive dialStep :: "string list \<Rightarrow> dialSystem \<Rightarrow> dialSystem \<Rightarrow> bool" for names where
  dial_failed: "at i Dialling s \<Longrightarrow> dialStep names s (goTo i Failing s)"
| dial_answered: "at i Dialling s \<Longrightarrow> dialStep names s (goTo i Adding s)"
| dial_report:
    "at i Failing s \<Longrightarrow> dialStep names s (goTo i (Leaving False) (s\<lparr>log := reportOnce (names ! i) (log s)\<rparr>))"
| dial_count:
    "at i Adding s \<Longrightarrow> dialStep names s (goTo i Opening (s\<lparr>group := (group s)\<lparr>connected := connected (group s) + 1\<rparr>\<rparr>))"
| dial_open:
    "at i Opening s \<Longrightarrow> dialStep names s (goTo i (Leaving True)
       (if onceDone s then s else s\<lparr>onceDone := True, group := (group s)\<lparr>firstClosed := True\<rparr>\<rparr>))"
| dial_leave:
    "at i (Leaving b) s \<Longrightarrow> dialStep names s (goTo i (Settled b) (s\<lparr>waitCount := waitCount s - 1\<rparr>))"
| dial_close:
    "\<lbrakk>closer s; waitCount s = 0\<rbrakk>
      \<Longrightarrow> dialStep names s (s\<lparr>closer := False, group := (group s)\<lparr>doneClosed := True\<rparr>\<rparr>)"

inductive_cases dialStep_cases: "dialStep names s t"

section \<open>Invariant\<close>

fun counted :: "dialPc \<Rightarrow> bool" where
  "counted Opening \<longleftrightarrow> True"
| "counted (Leaving b) \<longleftrightarrow> b"
| "counted (Settled b) \<longleftrightarrow> b"
| "counted p \<longleftrightarrow> False"

fun opened :: "dialPc \<Rightarrow> bool" where
  "opened (Leaving b) \<longleftrightarrow> b"
| "opened (Settled b) \<longleftrightarrow> b"
| "opened p \<longleftrightarrow> False"

fun running :: "dialPc \<Rightarrow> bool" where
  "running (Settled b) \<longleftrightarrow> False"
| "running p \<longleftrightarrow> True"

definition reportsOk :: "string set \<Rightarrow> reports \<Rightarrow> bool" where
  "reportsOk before r \<longleftrightarrow>
     distinct (printed r) \<and> before \<inter> set (printed r) = {} \<and> reported r = before \<union> set (printed r)"

definition dialInv :: "nat \<Rightarrow> string set \<Rightarrow> dialSystem \<Rightarrow> bool" where
  "dialInv targets before s \<longleftrightarrow>
     length (dials s) = targets
     \<and> connected (group s) = int (length (filter counted (dials s)))
     \<and> (firstClosed (group s) \<longleftrightarrow> onceDone s) \<and> (onceDone s \<longleftrightarrow> list_ex opened (dials s))
     \<and> waitCount s = int (length (filter running (dials s)))
     \<and> (doneClosed (group s) \<longleftrightarrow> \<not> closer s) \<and> (doneClosed (group s) \<longrightarrow> waitCount s = 0)
     \<and> reportsOk before (log s)"

lemma reportsOk_reportOnce: "reportsOk before r \<Longrightarrow> reportsOk before (reportOnce x r)"
  by (auto simp: reportsOk_def reportOnce_def)

lemma dialInv_init:
  "reportsOk before r \<Longrightarrow> dialInv targets before (dialAll targets r)"
  by (auto simp: dialInv_def dialAll_def list_ex_iff)

lemma goTo_simps [simp]:
  "group (goTo i p s) = group s" "onceDone (goTo i p s) = onceDone s" "waitCount (goTo i p s) = waitCount s"
  "closer (goTo i p s) = closer s" "log (goTo i p s) = log s" "dials (goTo i p s) = (dials s)[i := p]"
  by (simp_all add: goTo_def)

lemma running_pos: "i < length ps \<Longrightarrow> running (ps ! i) \<Longrightarrow> 0 < length (filter running ps)"
  using length_pos_if_in_set [of "ps ! i" "filter running ps"] by simp

lemma dialInv_step:
  assumes "dialStep names s t" and "dialInv targets before s"
  shows "dialInv targets before t"
  using assms(1)
proof (cases rule: dialStep.cases)
  case dial_close
  then show ?thesis using assms(2) by (simp add: dialInv_def)
next
  case (dial_leave i b)
  then show ?thesis
    using assms(2) running_pos [of i "dials s"] list_ex_update_same [of i "dials s" opened "Settled b"]
    by (auto simp: dialInv_def at_def length_filter_update)
next
  case (dial_open i)
  then show ?thesis using assms(2)
    by (auto simp: dialInv_def at_def length_filter_update list_ex_update)
qed (use assms(2) reportsOk_reportOnce in
      \<open>auto simp: dialInv_def at_def length_filter_update list_ex_update\<close>)

interpretation dialling: invariant_system "dialAll targets \<lparr>reported = before, printed = []\<rparr>" "dialStep names" "dialInv targets before"
  for targets before names
  by unfold_locales (auto simp: reportsOk_def intro: dialInv_init dialInv_step)

section \<open>How much is left to do\<close>

fun stepsLeft :: "dialPc \<Rightarrow> nat" where
  "stepsLeft Dialling = 4"
| "stepsLeft Adding = 3"
| "stepsLeft Opening = 2"
| "stepsLeft Failing = 2"
| "stepsLeft (Leaving b) = 1"
| "stepsLeft (Settled b) = 0"

definition workLeft :: "dialSystem \<Rightarrow> nat" where
  "workLeft s = sum_list (map stepsLeft (dials s)) + (if closer s then 1 else 0)"

lemma sum_list_update_less:
  fixes f :: "'a \<Rightarrow> nat"
  shows "i < length xs \<Longrightarrow> f x < f (xs ! i) \<Longrightarrow> sum_list (map f (xs[i := x])) < sum_list (map f xs)"
proof (induction xs arbitrary: i)
  case (Cons y ys)
  then show ?case by (cases i) auto
qed simp

lemma workLeft_decreases: "dialStep names s t \<Longrightarrow> workLeft t < workLeft s"
  by (cases rule: dialStep.cases, assumption) (auto simp: workLeft_def at_def intro!: sum_list_update_less)

lemma enabled_unless_done:
  assumes inv: "dialInv targets before s" and going: "\<not> doneClosed (group s)"
  shows "\<exists>t. dialStep names s t"
proof (cases "filter running (dials s) = []")
  case True
  then have "closer s" "waitCount s = 0" using inv going by (auto simp: dialInv_def)
  then show ?thesis by (intro exI) (rule dial_close)
next
  case False
  then obtain p where "p \<in> set (dials s)" "running p" by (auto simp: filter_empty_conv)
  then obtain i where i: "at i p s" by (auto simp: at_def in_set_conv_nth)
  show ?thesis
    using i \<open>running p\<close> by (cases p) (auto intro: dial_failed dial_report dial_count dial_open dial_leave)
qed

lemma settled_when_done:
  assumes inv: "dialInv targets before s" and over: "doneClosed (group s)"
  shows "set (dials s) \<subseteq> {Settled True, Settled False}" and "connected (group s) = int (count_list (dials s) (Settled True))"
    and "firstClosed (group s) \<longleftrightarrow> 0 < connected (group s)"
proof -
  have "filter running (dials s) = []" using inv over by (auto simp: dialInv_def)
  then have st: "\<exists>b. p = Settled b" if "p \<in> set (dials s)" for p
    using that by (cases p) (auto simp: filter_empty_conv)
  then show "set (dials s) \<subseteq> {Settled True, Settled False}" by (metis (full_types) insertCI subsetI)
  have eq: "length (filter counted ps) = count_list ps (Settled True)" if "\<forall>p \<in> set ps. \<exists>b. p = Settled b" for ps
    using that by (induction ps) auto
  then show c: "connected (group s) = int (count_list (dials s) (Settled True))"
    using inv st by (simp add: dialInv_def)
  have "list_ex opened ps \<longleftrightarrow> 0 < count_list ps (Settled True)" if "\<forall>p \<in> set ps. \<exists>b. p = Settled b" for ps
    using that by (induction ps) auto
  then show "firstClosed (group s) \<longleftrightarrow> 0 < connected (group s)" using inv st c by (simp add: dialInv_def)
qed

lemma opened_counted: "list_ex opened ps \<Longrightarrow> 0 < length (filter counted ps)"
proof (induction ps)
  case (Cons p ps)
  then show ?case by (cases p) auto
qed simp

section \<open>awaitConnection\<close>

text \<open>
  Which cases of its \<open>select\<close> are ready: \<open>exhausted\<close> is closed once both groups are done, and the wait
  is over at the startup timeout or the caller's deadline.
\<close>

definition awaitReady :: "dialGroup \<Rightarrow> dialGroup \<Rightarrow> bool \<Rightarrow> bool" where
  "awaitReady gateways peers waitOver \<longleftrightarrow>
     firstClosed gateways \<or> firstClosed peers \<or> (doneClosed gateways \<and> doneClosed peers) \<or> waitOver"

section \<open>Properties\<close>

text \<open>
  C32. What a finished group of dials means: however the dials interleave, \<open>done\<close> is closed only once
  every target has answered or failed, the count is then the number of targets that answered, and
  \<open>first\<close> is closed if and only if that is not zero. At any time the count is at most the number of
  targets, \<open>first\<close> is closed only with at least one counted, and it is closed once at most.
\<close>

theorem dials_settle:
  assumes "reach (dialAll (length names) \<lparr>reported = before, printed = []\<rparr>) (dialStep names) s"
  shows "(group_finished (group s) \<longrightarrow>
        set (dials s) \<subseteq> {Settled True, Settled False}
        \<and> group_count (group s) = int (count_list (dials s) (Settled True))
        \<and> (firstClosed (group s) \<longleftrightarrow> 0 < group_count (group s)))
    \<and> (firstClosed (group s) \<longrightarrow> 0 < group_count (group s))
    \<and> 0 \<le> group_count (group s) \<and> group_count (group s) \<le> int (length names)
    \<and> (\<not> onceDone s \<longrightarrow> \<not> firstClosed (group s))"
  using dialling.reach_inv [OF assms] settled_when_done [OF dialling.reach_inv [OF assms]]
    opened_counted [of "dials s"] length_filter_le [of counted "dials s"]
  by (auto simp: group_finished_def group_count_def dialInv_def)

text \<open>One target that answers, and one that does not.\<close>

definition oneAnswered :: dialSystem where
  "oneAnswered =
     \<lparr>group = \<lparr>firstClosed = True, doneClosed = True, connected = 1\<rparr>, onceDone = True, waitCount = 0,
      dials = [Settled True, Settled False], closer = False, log = \<lparr>reported = {''peer b''}, printed = [''peer b'']\<rparr>\<rparr>"

lemma reach_next: "reach s0 step s \<Longrightarrow> step s t \<Longrightarrow> t = u \<Longrightarrow> reach s0 step u"
  by (auto intro: reach_step)

lemma oneAnswered_reach:
  "reach (dialAll 2 \<lparr>reported = {}, printed = []\<rparr>) (dialStep [''peer a'', ''peer b'']) oneAnswered"
proof -
  let ?st = "\<lambda>f d n o1 w ps c r. \<lparr>group = \<lparr>firstClosed = f, doneClosed = d, connected = n\<rparr>, onceDone = o1,
    waitCount = w, dials = ps, closer = c, log = r\<rparr> :: dialSystem"
  let ?r0 = "\<lparr>reported = {}, printed = []\<rparr> :: reports"
  let ?r1 = "\<lparr>reported = {''peer b''}, printed = [''peer b'']\<rparr> :: reports"
  let ?names = "[''peer a'', ''peer b'']"
  let ?R = "reach (dialAll 2 ?r0) (dialStep ?names)"
  have r1: "?R (?st False False 0 False 2 [Dialling, Dialling] True ?r0)"
    using reach_start [of "dialAll 2 ?r0"] by (simp add: dialAll_def numeral_2_eq_2)
  have r2: "?R (?st False False 0 False 2 [Adding, Dialling] True ?r0)"
    by (rule reach_next [OF r1], rule dial_answered [of 0]) (simp_all add: at_def goTo_def)
  have r3: "?R (?st False False 0 False 2 [Adding, Failing] True ?r0)"
    by (rule reach_next [OF r2], rule dial_failed [of 1]) (simp_all add: at_def goTo_def)
  have r4: "?R (?st False False 1 False 2 [Opening, Failing] True ?r0)"
    by (rule reach_next [OF r3], rule dial_count [of 0]) (simp_all add: at_def goTo_def)
  have r5: "?R (?st False False 1 False 2 [Opening, Leaving False] True ?r1)"
    by (rule reach_next [OF r4], rule dial_report [of 1]) (simp_all add: at_def goTo_def reportOnce_def)
  have r6: "?R (?st True False 1 True 2 [Leaving True, Leaving False] True ?r1)"
    by (rule reach_next [OF r5], rule dial_open [of 0]) (simp_all add: at_def goTo_def)
  have r7: "?R (?st True False 1 True 1 [Settled True, Leaving False] True ?r1)"
    by (rule reach_next [OF r6], rule dial_leave [where i = 0 and b = True]) (simp_all add: at_def goTo_def)
  have r8: "?R (?st True False 1 True 0 [Settled True, Settled False] True ?r1)"
    by (rule reach_next [OF r7], rule dial_leave [where i = 1 and b = False]) (simp_all add: at_def goTo_def)
  have r9: "?R (?st True True 1 True 0 [Settled True, Settled False] False ?r1)"
    by (rule reach_next [OF r8], rule dial_close) simp_all
  show ?thesis using r9 by (simp add: oneAnswered_def)
qed

theorem dials_settle_witness:
  "group_finished (group oneAnswered) \<and> group_count (group oneAnswered) = 1
   \<and> set (dials oneAnswered) \<subseteq> {Settled True, Settled False} \<and> firstClosed (group oneAnswered)"
proof -
  have "group_finished (group oneAnswered)" "group_count (group oneAnswered) = 1"
    by (simp_all add: oneAnswered_def group_finished_def group_count_def)
  with dials_settle [of "[''peer a'', ''peer b'']"] oneAnswered_reach show ?thesis by (simp add: numeral_2_eq_2)
qed

text \<open>
  C31. The dials of a node end. Whatever is dialled and however the goroutines interleave, no run is
  longer than four steps a target and one more, and until the group is finished some goroutine can
  move; so once every \<open>connect\<close> has returned, \<open>done\<close> is closed and nobody waits for it for ever.
\<close>

theorem dials_terminate:
  assumes "reach (dialAll (length names) \<lparr>reported = before, printed = []\<rparr>) (dialStep names) s"
  shows "(\<forall>t. dialStep names s t \<longrightarrow> workLeft t < workLeft s)
    \<and> workLeft (dialAll (length names) \<lparr>reported = before, printed = []\<rparr>) \<le> 4 * length names + 1
    \<and> (\<not> group_finished (group s) \<longrightarrow> (\<exists>t. dialStep names s t))
    \<and> (\<exists>t. reach s (dialStep names) t \<and> group_finished (group t))"
proof -
  have going: "\<exists>t. reach u (dialStep names) t \<and> doneClosed (group t)" if "dialInv (length names) before u" for u
    using that
  proof (induction "workLeft u" arbitrary: u rule: less_induct)
    case less
    show ?case
    proof (cases "doneClosed (group u)")
      case True
      then show ?thesis using reach_start by metis
    next
      case False
      then obtain v where v: "dialStep names u v" using enabled_unless_done [OF less.prems] by blast
      then obtain t where "reach v (dialStep names) t" "doneClosed (group t)"
        using less.hyps [OF workLeft_decreases [OF v] dialInv_step [OF v less.prems]] by blast
      then show ?thesis using reach_trans [OF _ reach_one [of "dialStep names", OF v]] by blast
    qed
  qed
  have "workLeft (dialAll (length names) \<lparr>reported = before, printed = []\<rparr>) \<le> 4 * length names + 1"
    by (simp add: workLeft_def dialAll_def sum_list_replicate)
  then show ?thesis
    using workLeft_decreases enabled_unless_done going dialling.reach_inv [OF assms] by (auto simp: group_finished_def)
qed

theorem dials_terminate_witness:
  "\<exists>t. reach (dialAll 2 \<lparr>reported = {}, printed = []\<rparr>) (dialStep [''a'', ''b'']) t \<and> group_finished (group t)"
  using dials_terminate [of "[''a'', ''b'']" "{}", OF reach_start] by (simp add: numeral_2_eq_2)

text \<open>
  A target that cannot be reached is reported once for the life of the process: however many dials
  of it fail, in this group and in those before it, no name is printed twice, and none is that was
  already reported.
\<close>

theorem reports_once:
  assumes "reach (dialAll (length names) \<lparr>reported = before, printed = []\<rparr>) (dialStep names) s"
  shows "distinct (printed (log s)) \<and> before \<inter> set (printed (log s)) = {}
    \<and> reported (log s) = before \<union> set (printed (log s))"
  using dialling.reach_inv [OF assms] by (simp add: dialInv_def reportsOk_def)

theorem reports_once_witness: "distinct (printed (log oneAnswered))"
  using reports_once [of "[''peer a'', ''peer b'']" "{}"] oneAnswered_reach by (simp add: numeral_2_eq_2)

end
