(* ===== verification/Snapshot.thy ===== *)
theory Snapshot
  imports Peers Go_Strings File_System
begin

text \<open>
  The snapshot file of \<open>snapshot.go\<close>: one line per address, written beside the path and renamed
  onto it, read back by the next node. A peer is named by its text form.
\<close>

section \<open>strings.Fields\<close>

text \<open>White space separates, whatever the number of its characters.\<close>

fun fieldsOf :: "string list \<Rightarrow> string \<Rightarrow> string list" where
  "fieldsOf [] cur = (if cur = [] then [] else [cur])"
| "fieldsOf (r # rs) cur =
     (if r \<in> set spaceEncodings then (if cur = [] then fieldsOf rs [] else cur # fieldsOf rs [])
      else fieldsOf rs (cur @ r))"

definition Fields :: "string \<Rightarrow> string list" where
  "Fields s = fieldsOf (explode s) []"

section \<open>Files\<close>

text \<open>
  \<open>os.CreateTemp\<close> with a pattern that is a prefix and an asterisk, and \<open>os.Remove\<close>, whose
  error is ignored.
\<close>

fun createTempFrom :: "string \<Rightarrow> string list \<Rightarrow> filesystem \<Rightarrow> error + (string \<times> filesystem)" where
  "createTempFrom pre [] fs = Inl (OsError ''createtemp'' (pre @ ''*'') EEXIST)"
| "createTempFrom pre (r # rs) fs =
     (case osCreateExcl (pre @ r) fs of
        Inr fs' \<Rightarrow> Inr (pre @ r, fs')
      | Inl (OsError op p EEXIST) \<Rightarrow> createTempFrom pre rs fs
      | Inl e \<Rightarrow> Inl e)"

definition osCreateTemp :: "string \<Rightarrow> string \<Rightarrow> string list \<Rightarrow> filesystem \<Rightarrow> error + (string \<times> filesystem)" where
  "osCreateTemp dir pre rands fs =
     (if CHR ''/'' \<in> set pre then Inl (Errorf ''createtemp %s: pattern contains path separator'' [pre @ ''*''])
      else createTempFrom (joinPath dir pre) rands fs)"

definition osRemove :: "string \<Rightarrow> filesystem \<Rightarrow> filesystem" where
  "osRemove p fs =
     (let k = fsKey fs p in
      case entryAt fs k of
        None \<Rightarrow> fs
      | Some e \<Rightarrow>
          if e = DirEntry \<and> childrenOf fs k \<noteq> [] then fs
          else touch (butlast k) (fs\<lparr>ents := AList.delete k (ents fs), mtimes := AList.delete k (mtimes fs)\<rparr>))"

section \<open>Writing\<close>

definition snapshotLines :: "('m, 'x) addrLib_scheme \<Rightarrow> 'm addrInfo list \<Rightarrow> string" where
  "snapshotLines lib peers =
     concat (map (\<lambda>info. concat (map (\<lambda>a. addrString lib a @ ''/p2p/'' @ ID info @ [CHR 0x0A]) (Addrs info))) peers)"

text \<open>
  What may go wrong: \<open>WriteString\<close> stops after some bytes, \<open>Close\<close> fails. The removal of the
  partial file is deferred, so it runs after the rename too, when there is nothing left to remove.
\<close>

record writeFaults =
  stopsAfter :: "(nat \<times> error) option"
  closeErr :: "error option"

definition writePeerSnapshot :: "('m, 'x) addrLib_scheme \<Rightarrow> writeFaults \<Rightarrow> string list \<Rightarrow> string
    \<Rightarrow> 'm addrInfo list \<Rightarrow> filesystem \<Rightarrow> filesystem \<times> error option" where
  "writePeerSnapshot lib faults rands path peers fs =
     (if path = [] \<or> peers = [] then (fs, None)
      else
        case osCreateTemp (Dir path) (Base path @ ''.'') rands fs of
          Inl e \<Rightarrow> (fs, Some e)
        | Inr (partial, fs1) \<Rightarrow>
            (case stopsAfter faults of
               Some (n, e) \<Rightarrow> (osRemove partial (osAppend partial (take n (snapshotLines lib peers)) fs1), Some e)
             | None \<Rightarrow>
                 (let fs2 = osAppend partial (snapshotLines lib peers) fs1 in
                  case closeErr faults of
                    Some e \<Rightarrow> (osRemove partial fs2, Some e)
                  | None \<Rightarrow>
                      (case osRename partial path fs2 of
                         Inl e \<Rightarrow> (osRemove partial fs2, Some e)
                       | Inr fs3 \<Rightarrow> (osRemove partial fs3, None)))))"

section \<open>Reading\<close>

definition snapshotLifetime :: int64 where "snapshotLifetime = 86400000000000"

text \<open>A directory at the path is an error of \<open>ReadFile\<close>, and so no peers.\<close>

definition readPeerSnapshot :: "('m, 'x) addrLib_scheme \<Rightarrow> string \<Rightarrow> filesystem \<Rightarrow> 'm addrInfo list" where
  "readPeerSnapshot lib path fs =
     (if path = [] then []
      else
        case entryAt fs (fsKey fs path) of
          None \<Rightarrow> []
        | Some e \<Rightarrow>
            if clock fs - osModTime fs (fsKey fs path) > snapshotLifetime then []
            else
              (case e of
                 DirEntry \<Rightarrow> []
               | FileEntry saved \<Rightarrow> parsePeers lib (Fields saved)))"

section \<open>Fields of lines\<close>

text \<open>Text whose fields are its lines: ASCII, without white space.\<close>

definition plainText :: "string \<Rightarrow> bool" where
  "plainText s \<longleftrightarrow> s \<noteq> [] \<and> list_all (\<lambda>c. (of_char c :: nat) < 128 \<and> [c] \<notin> set spaceEncodings) s"

lemma runeLen_ascii: "(of_char c :: nat) < 128 \<Longrightarrow> runeLen (c # s) = 1"
  by (cases "c # s" rule: runeLen.cases) (auto simp: byteIn_def)

lemma explode_ascii: "list_all (\<lambda>c. (of_char c :: nat) < 128) s \<Longrightarrow> explode (s @ t) = map (\<lambda>c. [c]) s @ explode t"
proof (induction s)
  case (Cons c s)
  then have "explode ((c # s) @ t) = [c] # explode (s @ t)"
    by (simp add: explode.simps [of "c # s @ t"] runeLen_ascii)
  with Cons show ?case by simp
qed simp

lemma fieldsOf_word: "list_all (\<lambda>c. [c] \<notin> set spaceEncodings) w \<Longrightarrow> fieldsOf (map (\<lambda>c. [c]) w @ rs) cur = fieldsOf rs (cur @ w)"
  by (induction w arbitrary: cur) auto

lemma Fields_lines:
  "list_all plainText ws \<Longrightarrow> Fields (concat (map (\<lambda>w. w @ [CHR 0x0A]) ws)) = ws"
proof (induction ws)
  case Nil
  then show ?case by (simp add: Fields_def explode.simps)
next
  case (Cons w ws)
  then have w: "w \<noteq> []" "list_all (\<lambda>c. (of_char c :: nat) < 128) w" "list_all (\<lambda>c. [c] \<notin> set spaceEncodings) w"
    by (auto simp: plainText_def list_all_iff)
  let ?rest = "concat (map (\<lambda>w. w @ [CHR 0x0A]) ws)"
  have nl: "[CHR 0x0A] \<in> set spaceEncodings" by (simp add: spaceEncodings_def)
  have "explode ((w @ [CHR 0x0A]) @ ?rest) = map (\<lambda>c. [c]) (w @ [CHR 0x0A]) @ explode ?rest"
    using w(2) by (intro explode_ascii) simp
  then have "Fields (concat (map (\<lambda>w. w @ [CHR 0x0A]) (w # ws))) = fieldsOf ([CHR 0x0A] # explode ?rest) w"
    using fieldsOf_word [OF w(3), of "[CHR 0x0A] # explode ?rest" "[]"] by (simp add: Fields_def)
  also have "\<dots> = w # Fields ?rest" using nl w(1) by (simp add: Fields_def)
  finally show ?case using Cons by simp
qed

end
