(* ===== verification/Snapshot_Props.thy ===== *)
theory Snapshot_Props
  imports Snapshot Scratch
begin

text \<open>
  What writing the snapshot does to the disk, exactly, and what reading it back gives.
\<close>

section \<open>The effect of the file operations\<close>

text \<open>A snapshot path spelled as a named directory and a name in it.\<close>

definition snapshotPlace :: "string \<Rightarrow> bool" where
  "snapshotPlace path \<longleftrightarrow>
     properDir (Dir path) \<and> plainElem (Base path) \<and> path = Dir path @ CHR ''/'' # Base path"

lemma createTempFrom_name:
  "createTempFrom pre rs fs = Inr (name, fs') \<Longrightarrow> \<exists>r \<in> set rs. name = pre @ r \<and> osCreateExcl name fs = Inr fs'"
  by (induction pre rs fs rule: createTempFrom.induct) (auto split: sum.splits error.splits io_error.splits)

lemma createTempFrom_ok:
  assumes "\<And>r. walkErr fs [] (fsKey fs (pre @ r)) = None" and "pre \<noteq> []"
    and "\<exists>r \<in> set rs. entryAt fs (fsKey fs (pre @ r)) = None"
  shows "isOk (createTempFrom pre rs fs)"
  using assms(3)
proof (induction rs)
  case (Cons r rs)
  show ?case using Cons assms(1) [of r] assms(2) by (auto simp: osCreateExcl_def Let_def)
qed simp

lemma snapshotPlace_keys:
  assumes "snapshotPlace path" and "CHR ''/'' \<notin> set r"
  shows "fsKey fs path = fsKey fs (Dir path) @ [Base path]"
    and "joinPath (Dir path) (Base path @ ''.'') @ r = Dir path @ CHR ''/'' # (Base path @ ''.'' @ r)"
    and "fsKey fs (joinPath (Dir path) (Base path @ ''.'') @ r) = fsKey fs (Dir path) @ [Base path @ ''.'' @ r]"
    and "path \<noteq> []" and "CHR ''/'' \<notin> set (Base path @ ''.'')"
proof -
  have d: "Dir path \<noteq> []" "plainElem (Base path)" using assms(1) by (simp_all add: snapshotPlace_def properDir_stack)
  have p: "plainElem (Base path @ ''.'' @ r)" using d(2) assms(2) by (auto simp: plainElem_def append_eq_Cons_conv)
  show path: "fsKey fs path = fsKey fs (Dir path) @ [Base path]"
    using assms(1) fsKey_elem [OF d, of fs] by (simp add: snapshotPlace_def)
  show j: "joinPath (Dir path) (Base path @ ''.'') @ r = Dir path @ CHR ''/'' # (Base path @ ''.'' @ r)"
    using assms(1) by (simp add: snapshotPlace_def joinPath_properDir)
  show "fsKey fs (joinPath (Dir path) (Base path @ ''.'') @ r) = fsKey fs (Dir path) @ [Base path @ ''.'' @ r]"
    unfolding j using d(1) p by (rule fsKey_elem)
  show "path \<noteq> []" using assms(1) d(1) by (auto simp: snapshotPlace_def)
  show "CHR ''/'' \<notin> set (Base path @ ''.'')" using d(2) by (simp add: plainElem_def)
qed

lemma osModTime_touch: "osModTime (touch k fs) q = (if q = k then clock fs else osModTime fs q)"
  by (simp add: osModTime_def touch_def update_conv')

text \<open>A new file, what is appended to it, and its removal change one entry each.\<close>

lemma osCreateExcl_exact:
  assumes "osCreateExcl p fs = Inr fs'"
  shows "entryAt fs' = (entryAt fs)(fsKey fs p \<mapsto> FileEntry [])" and "cwd fs' = cwd fs" and "clock fs' = clock fs"
    and "osModTime fs' (fsKey fs p) = clock fs" and "fsKey fs p \<noteq> []" and "entryAt fs (fsKey fs p) = None"
proof -
  show ne: "fsKey fs p \<noteq> []" and none: "entryAt fs (fsKey fs p) = None"
    using assms by (auto simp: osCreateExcl_def Let_def entryAt_def split: if_splits option.splits)
  have "fs' = touch (butlast (fsKey fs p)) (touch (fsKey fs p) (setEntry (fsKey fs p) (FileEntry []) fs))"
    using assms by (auto simp: osCreateExcl_def Let_def split: if_splits option.splits)
  moreover have "butlast (fsKey fs p) \<noteq> fsKey fs p" using ne by (metis append_butlast_last_id not_Cons_self2 append_self_conv)
  ultimately show "entryAt fs' = (entryAt fs)(fsKey fs p \<mapsto> FileEntry [])" "cwd fs' = cwd fs" "clock fs' = clock fs"
    "osModTime fs' (fsKey fs p) = clock fs"
    using ne by (auto simp: fun_eq_iff osModTime_touch)
qed

lemma osAppend_exact:
  assumes "entryAt fs (fsKey fs p) = Some (FileEntry c)" and "fsKey fs p \<noteq> []"
  shows "entryAt (osAppend p bytes fs) = (entryAt fs)(fsKey fs p \<mapsto> FileEntry (c @ bytes))"
    and "cwd (osAppend p bytes fs) = cwd fs" and "clock (osAppend p bytes fs) = clock fs"
    and "osModTime (osAppend p bytes fs) (fsKey fs p) = clock fs"
  using assms by (auto simp: osAppend_def fun_eq_iff osModTime_touch)

lemma osRemove_exact:
  assumes "entryAt fs (fsKey fs p) \<noteq> Some DirEntry"
  shows "entryAt (osRemove p fs) = (entryAt fs)(fsKey fs p := None)"
proof -
  have "fsKey fs p \<noteq> []" using assms by (auto simp: entryAt_def)
  then show ?thesis
    using assms by (auto simp: osRemove_def Let_def entryAt_def delete_conv' touch_def split: option.split)
qed

text \<open>Renaming a file onto a file or nothing.\<close>

lemma wfTree_leaf: "wfTree fs \<Longrightarrow> entryAt fs k \<noteq> Some DirEntry \<Longrightarrow> z \<noteq> [] \<Longrightarrow> entryAt fs (k @ z) = None"
  using wfTree_ancestors by blast

lemma osRename_file:
  assumes wf: "wfTree fs" and r: "osRename old new fs = Inr fs'" and ne: "fsKey fs old \<noteq> fsKey fs new"
    and old: "entryAt fs (fsKey fs old) = Some (FileEntry c)"
  shows "entryAt fs' = (entryAt fs)(fsKey fs old := None, fsKey fs new \<mapsto> FileEntry c)"
    and "osModTime fs' (fsKey fs new) = osModTime fs (fsKey fs old)" and "cwd fs' = cwd fs"
proof -
  let ?a = "fsKey fs old" and ?b = "fsKey fs new"
  note eff = osRename_effect [OF r ne] and dist = osRename_distinct [OF r ne]
  show "cwd fs' = cwd fs" by (rule eff(4))
  have new: "entryAt fs ?b \<noteq> Some DirEntry"
    using r by (auto simp: osRename_def Let_def split: option.splits if_splits)
  have "entryAt fs' k = ((entryAt fs)(?a := None, ?b \<mapsto> FileEntry c)) k" for k
  proof (cases "underKey ?b k")
    case True
    then obtain z where k: "k = ?b @ z" by (auto simp: underKey_iff)
    then show ?thesis
      using eff(1) [of z] wfTree_leaf [OF wf new, of z] wfTree_leaf [OF wf, of ?a z] old ne dist(1)
      by (cases "z = []") (auto simp: underKey_iff)
  next
    case False
    then have kb: "k \<noteq> ?b" by auto
    show ?thesis
    proof (cases "underKey ?a k")
      case True
      then obtain z where k: "k = ?a @ z" by (auto simp: underKey_iff)
      then show ?thesis
        using eff(2) [OF True] kb wfTree_leaf [OF wf, of ?a z] old by (cases "z = []") auto
    qed (use eff(3) [OF _ False] kb in auto)
  qed
  then show "entryAt fs' = (entryAt fs)(?a := None, ?b \<mapsto> FileEntry c)" by (rule ext)
  have "fs' = touch (butlast ?b) (touch (butlast ?a)
      (fs\<lparr>ents := moveKeys ?a ?b (ents fs), mtimes := moveKeys ?a ?b (mtimes fs)\<rparr>))"
    using r ne old by (auto simp: osRename_def Let_def split: option.splits if_splits)
  moreover have "butlast ?b \<noteq> ?b" using new by (auto simp: entryAt_def) (metis append_butlast_last_id append_self_conv list.distinct(1))
  moreover have "butlast ?a \<noteq> ?b" using dist(1) by (metis append_butlast_last_id butlast.simps(1) underKey_append underKey_refl)
  ultimately show "osModTime fs' ?b = osModTime fs ?a"
    using moveKeys_new [OF dist, of "mtimes fs" "[]"] by (simp add: osModTime_touch) (simp add: osModTime_def)
qed

section \<open>The whole write\<close>

text \<open>What a write leaves behind: everything as it was, or the lines at the path and nothing else changed.\<close>

definition snapshotWritten :: "string \<Rightarrow> string \<Rightarrow> filesystem \<Rightarrow> filesystem \<Rightarrow> bool" where
  "snapshotWritten path content fs fs' \<longleftrightarrow>
     entryAt fs' = (entryAt fs)(fsKey fs path \<mapsto> FileEntry content)
     \<and> osModTime fs' (fsKey fs path) = clock fs \<and> cwd fs' = cwd fs"

text \<open>The file the lines are written to first: beside the snapshot, and as empty as a new one is.\<close>

lemma osCreateTemp_beside:
  assumes place: "snapshotPlace path" and rands: "list_all (\<lambda>r. CHR ''/'' \<notin> set r) rands"
    and tmp: "osCreateTemp (Dir path) (Base path @ ''.'') rands fs = Inr (partial, fs1)"
  shows "osCreateExcl partial fs = Inr fs1" and "fsKey fs partial \<noteq> fsKey fs path"
proof -
  obtain r where r: "r \<in> set rands" "partial = joinPath (Dir path) (Base path @ ''.'') @ r"
    and cr: "osCreateExcl partial fs = Inr fs1"
    using tmp createTempFrom_name by (fastforce simp: osCreateTemp_def split: if_splits)
  show "osCreateExcl partial fs = Inr fs1" by (rule cr)
  have "CHR ''/'' \<notin> set r" using r(1) rands by (simp add: list_all_iff)
  then show "fsKey fs partial \<noteq> fsKey fs path" using snapshotPlace_keys(1,3) [OF place, of r fs] r(2) by simp
qed

lemma partial_appended:
  assumes "osCreateExcl partial fs = Inr fs1"
  shows "entryAt (osAppend partial x fs1) = (entryAt fs)(fsKey fs partial \<mapsto> FileEntry x)"
    and "cwd (osAppend partial x fs1) = cwd fs" and "osModTime (osAppend partial x fs1) (fsKey fs partial) = clock fs"
  using osAppend_exact [of fs1 partial "[]" x] osCreateExcl_exact [OF assms] fsKey_cwd [of fs1 fs partial] by auto

lemma partial_removed:
  assumes "osCreateExcl partial fs = Inr fs1"
  shows "entryAt (osRemove partial (osAppend partial x fs1)) = entryAt fs"
  using osRemove_exact [of "osAppend partial x fs1" partial] partial_appended [OF assms, of x]
    osCreateExcl_exact(6) [OF assms] fsKey_cwd [OF partial_appended(2) [OF assms, of x], of partial]
  by (auto simp: fun_eq_iff)

lemma partial_renamed:
  assumes wf: "wfTree fs" and cr: "osCreateExcl partial fs = Inr fs1" and ab: "fsKey fs partial \<noteq> fsKey fs path"
    and rn: "osRename partial path (osAppend partial x fs1) = Inr fs3"
  shows "osRemove partial fs3 = fs3" and "snapshotWritten path x fs fs3"
proof -
  note ap = partial_appended [OF cr, of x]
  note c = osCreateExcl_exact [OF cr]
  have wf2: "wfTree (osAppend partial x fs1)" by (rule wfTree_osAppend [OF wfTree_osCreateExcl [OF wf cr]])
  have at: "entryAt (osAppend partial x fs1) (fsKey fs partial) = Some (FileEntry x)" by (simp add: ap(1))
  note rn = osRename_file [OF wf2 rn, unfolded fsKey_cwd [OF ap(2)], OF ab at]
  have e3: "entryAt fs3 = (entryAt fs)(fsKey fs path \<mapsto> FileEntry x)"
    unfolding rn(1) ap(1) using c(6) by (auto simp: fun_eq_iff)
  have "cwd fs3 = cwd fs" by (simp add: rn(3) ap(2))
  then have "fsKey fs3 partial = fsKey fs partial" by (rule fsKey_cwd)
  moreover have "entryAt fs3 (fsKey fs partial) = None" using e3 ab c(6) by simp
  ultimately show "osRemove partial fs3 = fs3" by (simp add: osRemove_def Let_def)
  show "snapshotWritten path x fs fs3" using e3 rn(2,3) ap(2,3) by (simp add: snapshotWritten_def)
qed

lemma writePeerSnapshot_effect:
  assumes wf: "wfTree fs" and place: "snapshotPlace path" and rands: "list_all (\<lambda>r. CHR ''/'' \<notin> set r) rands"
    and run: "writePeerSnapshot lib faults rands path peers fs = (fs', err)" and some: "peers \<noteq> []"
  shows "err \<noteq> None \<and> entryAt fs' = entryAt fs
    \<or> err = None \<and> snapshotWritten path (snapshotLines lib peers) fs fs'"
proof -
  have ne: "path \<noteq> []" using snapshotPlace_keys(4) [OF place, of "[]"] by simp
  let ?tmp = "osCreateTemp (Dir path) (Base path @ ''.'') rands fs" and ?x = "snapshotLines lib peers"
  consider (untouched) e where "?tmp = Inl e" "fs' = fs" "err \<noteq> None"
    | (abandoned) partial fs1 x where "?tmp = Inr (partial, fs1)" "fs' = osRemove partial (osAppend partial x fs1)" "err \<noteq> None"
    | (renamed) partial fs1 fs3 where "?tmp = Inr (partial, fs1)" "osRename partial path (osAppend partial ?x fs1) = Inr fs3"
        "fs' = osRemove partial fs3" "err = None"
    using run some ne
    by (auto simp: writePeerSnapshot_def Let_def dest!: sym [of "Some _" "closeErr faults"]
        split: sum.splits prod.splits option.splits)
  then show ?thesis
  proof cases
    case abandoned
    then show ?thesis using partial_removed osCreateTemp_beside(1) [OF place rands] by simp
  next
    case renamed
    note beside = osCreateTemp_beside [OF place rands renamed(1)]
    show ?thesis using partial_renamed [OF wf beside renamed(2)] renamed(3,4) by simp
  qed simp
qed

text \<open>Nothing is in its way: the directory exists, no directory is at the path, a suffix is free, and no fault.\<close>

definition snapshotPossible :: "writeFaults \<Rightarrow> string list \<Rightarrow> string \<Rightarrow> filesystem \<Rightarrow> bool" where
  "snapshotPossible faults rands path fs \<longleftrightarrow>
     stopsAfter faults = None \<and> closeErr faults = None
     \<and> entryAt fs (fsKey fs (Dir path)) = Some DirEntry
     \<and> entryAt fs (fsKey fs path) \<noteq> Some DirEntry
     \<and> list_ex (\<lambda>r. entryAt fs (fsKey fs (Dir path) @ [Base path @ ''.'' @ r]) = None) rands"

lemma createTempFrom_possible:
  assumes wf: "wfTree fs" and place: "snapshotPlace path" and sep: "list_all (\<lambda>r. CHR ''/'' \<notin> set r) rands"
    and dir: "entryAt fs (fsKey fs (Dir path)) = Some DirEntry"
    and free: "list_ex (\<lambda>r. entryAt fs (fsKey fs (Dir path) @ [Base path @ ''.'' @ r]) = None) rands"
  shows "isOk (createTempFrom (joinPath (Dir path) (Base path @ ''.'')) rands fs)"
  using sep free
proof (induction rands)
  case (Cons r rs)
  let ?p = "joinPath (Dir path) (Base path @ ''.'') @ r"
  have r: "CHR ''/'' \<notin> set r" using Cons by simp
  note k = snapshotPlace_keys [OF place r]
  have "walkErr fs [] (fsKey fs (Dir path)) = None" using wfTree_walk [OF wf] dir by simp
  then have w: "walkErr fs [] (fsKey fs ?p) = None" using walkErr_snoc [of fs "[]"] dir unfolding k(3) by simp
  have "?p \<noteq> []" unfolding k(2) by simp
  then show ?case using Cons w k(3) by (auto simp: osCreateExcl_def Let_def)
qed simp

lemma writePeerSnapshot_possible:
  assumes wf: "wfTree fs" and place: "snapshotPlace path" and sep: "list_all (\<lambda>r. CHR ''/'' \<notin> set r) rands"
    and ok: "snapshotPossible faults rands path fs"
    and run: "writePeerSnapshot lib faults rands path peers fs = (fs', err)"
  shows "err = None"
proof -
  note k0 = snapshotPlace_keys [OF place, of "[]"]
  have "isOk (osCreateTemp (Dir path) (Base path @ ''.'') rands fs)"
    using createTempFrom_possible [OF wf place sep] ok k0(5) by (simp add: osCreateTemp_def snapshotPossible_def)
  then obtain partial fs1 where tmp: "osCreateTemp (Dir path) (Base path @ ''.'') rands fs = Inr (partial, fs1)"
    by (cases "osCreateTemp (Dir path) (Base path @ ''.'') rands fs") auto
  then obtain r where r: "r \<in> set rands" "partial = joinPath (Dir path) (Base path @ ''.'') @ r"
    and cr: "osCreateExcl partial fs = Inr fs1"
    using createTempFrom_name by (fastforce simp: osCreateTemp_def split: if_splits)
  have "CHR ''/'' \<notin> set r" using r(1) sep by (simp add: list_all_iff)
  note k = snapshotPlace_keys [OF place this]
  note c = osCreateExcl_exact [OF cr]
  have k1: "fsKey fs1 p = fsKey fs p" for p by (rule fsKey_cwd) (rule c(2))
  let ?fs2 = "osAppend partial (snapshotLines lib peers) fs1"
  have ap: "entryAt ?fs2 = (entryAt fs)(fsKey fs partial \<mapsto> FileEntry (snapshotLines lib peers))" "cwd ?fs2 = cwd fs"
    using osAppend_exact [of fs1 partial "[]"] c k1 by auto
  have k2: "fsKey ?fs2 p = fsKey fs p" for p by (rule fsKey_cwd) (rule ap(2))
  have wf2: "wfTree ?fs2" by (rule wfTree_osAppend [OF wfTree_osCreateExcl [OF wf cr]])
  have ne: "fsKey fs partial \<noteq> fsKey fs path" "fsKey fs partial \<noteq> fsKey fs (Dir path)"
    using k(1,3) r(2) by simp_all
  have d2: "entryAt ?fs2 (fsKey fs (Dir path)) = Some DirEntry" using ok ne by (simp add: ap(1) snapshotPossible_def)
  have "isOk (osRename partial path ?fs2)"
  proof (rule osRename_succeeds)
    show "partial \<noteq> []" using k(2) r(2) by simp
    show "path \<noteq> []" by (rule k(4))
    show "entryAt ?fs2 (fsKey ?fs2 partial) = Some (FileEntry (snapshotLines lib peers))" by (simp add: k2 ap(1))
    then show "walkErr ?fs2 [] (fsKey ?fs2 partial) = None" by (intro wfTree_walk [OF wf2]) simp
    have "walkErr ?fs2 [] (fsKey fs (Dir path)) = None" using d2 by (intro wfTree_walk [OF wf2]) simp
    then show "walkErr ?fs2 [] (fsKey ?fs2 path) = None"
      using d2 walkErr_snoc [of ?fs2 "[]"] by (simp add: k2 k(1))
    show "entryAt ?fs2 (fsKey ?fs2 path) \<noteq> Some DirEntry" using ok ne by (simp add: k2 ap(1) snapshotPossible_def)
  qed simp
  then show ?thesis using run tmp ok
    by (cases "osRename partial path ?fs2") (auto simp: writePeerSnapshot_def Let_def snapshotPossible_def split: if_splits)
qed

section \<open>Reading back what was written\<close>

text \<open>What the round trip needs of the address library: the text of an address reads back as that address.\<close>

definition printsBack :: "('m, 'x) addrLib_scheme \<Rightarrow> 'm addrInfo \<Rightarrow> bool" where
  "printsBack lib info \<longleftrightarrow>
     Addrs info \<noteq> []
     \<and> (\<forall>a \<in> set (Addrs info).
          p2pAddr lib (addrString lib a @ ''/p2p/'' @ ID info) = Inr (ID info, [a])
          \<and> plainText (addrString lib a @ ''/p2p/'' @ ID info))"

definition snapshotWords :: "('m, 'x) addrLib_scheme \<Rightarrow> 'm addrInfo list \<Rightarrow> string list" where
  "snapshotWords lib peers =
     concat (map (\<lambda>info. map (\<lambda>a. addrString lib a @ ''/p2p/'' @ ID info) (Addrs info)) peers)"

definition spread :: "'m addrInfo list \<Rightarrow> (string \<times> 'm list) list" where
  "spread peers = concat (map (\<lambda>info. map (\<lambda>a. (ID info, [a])) (Addrs info)) peers)"

lemma snapshotLines_words: "snapshotLines lib peers = concat (map (\<lambda>w. w @ [CHR 0x0A]) (snapshotWords lib peers))"
  by (induction peers) (simp_all add: snapshotLines_def snapshotWords_def comp_def)

lemma Fields_snapshot: "list_all (printsBack lib) peers \<Longrightarrow> Fields (snapshotLines lib peers) = snapshotWords lib peers"
  unfolding snapshotLines_words
  by (rule Fields_lines) (auto simp: snapshotWords_def printsBack_def list_all_iff)

lemma validEntries_append [simp]: "validEntries lib (xs @ ys) = validEntries lib xs @ validEntries lib ys"
  by (induction xs) (auto split: sum.split)

lemma validEntries_words: "list_all (printsBack lib) peers \<Longrightarrow> validEntries lib (snapshotWords lib peers) = spread peers"
proof (induction peers)
  case (Cons info peers)
  have "validEntries lib (map (\<lambda>a. addrString lib a @ ''/p2p/'' @ ID info) as) = map (\<lambda>a. (ID info, [a])) as"
    if "set as \<subseteq> set (Addrs info)" for as
    using that Cons.prems by (induction as) (simp_all add: printsBack_def)
  then show ?case using Cons by (simp add: snapshotWords_def spread_def)
qed (simp add: snapshotWords_def spread_def)

lemma firsts_known: "set xs \<subseteq> set known \<Longrightarrow> firsts known (xs @ ys) = firsts known ys"
  by (induction xs) auto

lemma firsts_spread:
  "list_all (\<lambda>info. Addrs info \<noteq> []) peers \<Longrightarrow> distinct (known @ map ID peers)
    \<Longrightarrow> firsts known (map fst (spread peers)) = map ID peers"
proof (induction peers arbitrary: known)
  case (Cons info peers)
  obtain a as where as: "Addrs info = a # as" using Cons.prems(1) by (cases "Addrs info") auto
  have "firsts (known @ [ID info]) (map (\<lambda>a. ID info) as @ map fst (spread peers)) = map ID peers"
    using Cons by (subst firsts_known) auto
  then show ?case using as Cons.prems(2) by (simp add: spread_def comp_def)
qed (simp add: spread_def)

lemma addrsOf_append [simp]: "addrsOf p (xs @ ys) = addrsOf p xs @ addrsOf p ys"
  by (simp add: addrsOf_def)

lemma addrsOf_same: "addrsOf p (map (\<lambda>a. (q, [a])) as) = (if q = p then as else [])"
  by (induction as) (simp_all add: addrsOf_def comp_def)

lemma addrsOf_spread:
  "distinct (map ID peers) \<Longrightarrow> info \<in> set peers \<Longrightarrow> addrsOf (ID info) (spread peers) = Addrs info"
proof (induction peers)
  case (Cons x peers)
  have none: "addrsOf p (spread ys) = []" if "p \<notin> ID ` set ys" for p and ys :: "'a addrInfo list"
    using that by (induction ys) (auto simp: spread_def addrsOf_same, simp add: addrsOf_def)
  show ?case
  proof (cases "info = x")
    case True
    then show ?thesis using none [of "ID x" peers] Cons.prems by (simp add: spread_def addrsOf_same)
  next
    case False
    then have "ID x \<noteq> ID info" using Cons.prems by (auto simp: image_iff)
    then show ?thesis using Cons False by (simp add: spread_def addrsOf_same)
  qed
qed simp

lemma parsePeers_words:
  assumes "list_all (printsBack lib) peers" and "distinct (map ID peers)"
  shows "parsePeers lib (snapshotWords lib peers) = peers"
proof -
  let ?xs = "parsePeers lib (snapshotWords lib peers)"
  note sp = parsePeers_spec [of lib "snapshotWords lib peers", unfolded validEntries_words [OF assms(1)]]
  have "list_all (\<lambda>info. Addrs info \<noteq> []) peers" using assms(1) by (simp add: list_all_iff printsBack_def)
  then have ids: "map ID ?xs = map ID peers" using sp firsts_spread [of peers "[]"] assms(2) by simp
  show ?thesis
  proof (rule nth_equalityI)
    show len: "length ?xs = length peers" using ids by (metis length_map)
    fix i assume i: "i < length ?xs"
    then have id: "ID (?xs ! i) = ID (peers ! i)" using ids len by (metis nth_map)
    have "Addrs (?xs ! i) = addrsOf (ID (?xs ! i)) (spread peers)" using sp i by simp
    also have "\<dots> = Addrs (peers ! i)" unfolding id using i len assms(2) by (simp add: addrsOf_spread)
    finally show "?xs ! i = peers ! i" using id by simp
  qed
qed

lemma readPeerSnapshot_written:
  assumes place: "snapshotPlace path" and "snapshotWritten path (snapshotLines lib peers) fs fs'"
    and ok: "list_all (printsBack lib) peers" "distinct (map ID peers)"
  shows "readPeerSnapshot lib path (fs'\<lparr>clock := now\<rparr>)
    = (if now - clock fs > snapshotLifetime then [] else peers)"
proof -
  have w: "entryAt fs' (fsKey fs path) = Some (FileEntry (snapshotLines lib peers))"
    "osModTime fs' (fsKey fs path) = clock fs" "cwd fs' = cwd fs" using assms(2) by (simp_all add: snapshotWritten_def)
  have k: "fsKey (fs'\<lparr>clock := now\<rparr>) path = fsKey fs path" by (rule fsKey_cwd) (simp add: w(3))
  have e: "entryAt (fs'\<lparr>clock := now\<rparr>) q = entryAt fs' q" "osModTime (fs'\<lparr>clock := now\<rparr>) q = osModTime fs' q" for q
    by (simp_all add: entryAt_def osModTime_def)
  show ?thesis
    using w snapshotPlace_keys(4) [OF place, of "[]"]
    by (simp add: readPeerSnapshot_def k e Fields_snapshot [OF ok(1)] parsePeers_words [OF ok])
qed

section \<open>Properties\<close>

text \<open>
  C28. The snapshot is replaced whole or not at all. Whatever goes wrong - no file can be created, the
  write stops halfway, closing or renaming fails - an error leaves every entry of the disk as it was,
  the previous snapshot and the absence of partial files included; without an error the path holds
  exactly the lines, written now, and nothing else changed. It fails only when something is in its
  way, and writes nothing for no peers.
\<close>

theorem writePeerSnapshot_atomic:
  assumes "wfTree fs" and "snapshotPlace path" and "list_all (\<lambda>r. CHR ''/'' \<notin> set r) rands"
    and "writePeerSnapshot lib faults rands path peers fs = (fs', err)"
  shows "(peers \<noteq> [] \<longrightarrow> (err \<noteq> None \<and> entryAt fs' = entryAt fs
        \<or> err = None \<and> snapshotWritten path (snapshotLines lib peers) fs fs'))
    \<and> (snapshotPossible faults rands path fs \<longrightarrow> err = None)
    \<and> (peers = [] \<longrightarrow> fs' = fs \<and> err = None)"
  using writePeerSnapshot_effect [OF assms] writePeerSnapshot_possible [OF assms(1-3) _ assms(4)] assms(4)
  by (auto simp: writePeerSnapshot_def)

definition snapshotDisk :: filesystem where
  "snapshotDisk =
     \<lparr>cwd = [], clock = 7, ents = [([''d''], DirEntry), ([''d'', ''peers''], FileEntry ''old'')], mtimes = []\<rparr>"

definition textLib :: "string addrLib" where
  "textLib =
     \<lparr>p2pAddr = (\<lambda>s. if s = ''/ip4/1/p2p/a'' then Inr (''a'', [''/ip4/1'']) else Inl ErrClosed),
      isPrivateAddr = \<lambda>_. False, isIPLoopback = \<lambda>_. False, namesIP = \<lambda>_. True, addrString = \<lambda>s. s\<rparr>"

lemma snapshotDisk_ready:
  "wfTree snapshotDisk" "snapshotPlace ''/d/peers''" "fsKey snapshotDisk ''/d/peers'' = [''d'', ''peers'']"
  "snapshotPossible \<lparr>stopsAfter = None, closeErr = None\<rparr> [''1''] ''/d/peers'' snapshotDisk"
proof -
  have d: "Dir ''/d/peers'' = ''/d''" "Base ''/d/peers'' = ''peers''" "properDir ''/d''"
    by (simp_all add: Dir_def Base_def stripSlashes_def properDir_def Clean_def cleanStack_def renderPath_def
        isRooted_def pushElem.simps)
  have k: "fsKey snapshotDisk ''/d'' = [''d'']" "fsKey snapshotDisk ''/d/peers'' = [''d'', ''peers'']"
    by (simp_all add: fsKey_def isRooted_def pushElem.simps)
  show "wfTree snapshotDisk" by (rule wfTree_list) (simp add: snapshotDisk_def entryAt_def)
  show "snapshotPlace ''/d/peers''" using d by (simp add: snapshotPlace_def plainElem_def)
  show "fsKey snapshotDisk ''/d/peers'' = [''d'', ''peers'']" by (rule k(2))
  show "snapshotPossible \<lparr>stopsAfter = None, closeErr = None\<rparr> [''1''] ''/d/peers'' snapshotDisk"
    by (simp add: snapshotPossible_def d k) (simp add: snapshotDisk_def entryAt_def)
qed

theorem writePeerSnapshot_atomic_witness:
  "\<exists>fs'. writePeerSnapshot textLib \<lparr>stopsAfter = None, closeErr = None\<rparr> [''1''] ''/d/peers''
        [\<lparr>ID = ''a'', Addrs = [''/ip4/1'']\<rparr>] snapshotDisk = (fs', None)
     \<and> entryAt fs' [''d'', ''peers''] = Some (FileEntry (''/ip4/1/p2p/a'' @ [CHR 0x0A]))"
proof -
  let ?peers = "[\<lparr>ID = ''a'', Addrs = [''/ip4/1'']\<rparr>]"
  obtain fs' err where run: "writePeerSnapshot textLib \<lparr>stopsAfter = None, closeErr = None\<rparr> [''1''] ''/d/peers'' ?peers
      snapshotDisk = (fs', err)" by fastforce
  from writePeerSnapshot_atomic [OF snapshotDisk_ready(1,2) _ run] snapshotDisk_ready(3,4)
  have "err = None" "snapshotWritten ''/d/peers'' (snapshotLines textLib ?peers) snapshotDisk fs'" by auto
  then show ?thesis using run
    by (intro exI [of _ fs']) (simp add: snapshotWritten_def snapshotDisk_ready(3) snapshotLines_def textLib_def)
qed

text \<open>
  The next node starts from the peers this one met: reading a snapshot back within a day of its
  writing gives exactly the peers and addresses written, in order, and later gives none. All this
  asks of the address library is that an address reads back from its own text.
\<close>

theorem snapshot_roundtrip:
  assumes "wfTree fs" and "snapshotPlace path" and "list_all (\<lambda>r. CHR ''/'' \<notin> set r) rands"
    and "writePeerSnapshot lib faults rands path peers fs = (fs', None)"
    and "peers \<noteq> []" and "list_all (printsBack lib) peers" and "distinct (map ID peers)"
  shows "readPeerSnapshot lib path (fs'\<lparr>clock := now\<rparr>)
    = (if now - clock fs > snapshotLifetime then [] else peers)"
  by (rule readPeerSnapshot_written [OF assms(2) _ assms(6,7)]) (use writePeerSnapshot_effect [OF assms(1-5)] in simp)

theorem snapshot_roundtrip_witness:
  "\<exists>fs'. writePeerSnapshot textLib \<lparr>stopsAfter = None, closeErr = None\<rparr> [''1''] ''/d/peers''
        [\<lparr>ID = ''a'', Addrs = [''/ip4/1'']\<rparr>] snapshotDisk = (fs', None)
     \<and> readPeerSnapshot textLib ''/d/peers'' (fs'\<lparr>clock := 8\<rparr>) = [\<lparr>ID = ''a'', Addrs = [''/ip4/1'']\<rparr>]
     \<and> readPeerSnapshot textLib ''/d/peers'' (fs'\<lparr>clock := 86400000000008\<rparr>) = []"
proof -
  let ?peers = "[\<lparr>ID = ''a'', Addrs = [''/ip4/1'']\<rparr>]"
  obtain fs' err where r: "writePeerSnapshot textLib \<lparr>stopsAfter = None, closeErr = None\<rparr> [''1''] ''/d/peers'' ?peers
      snapshotDisk = (fs', err)" by fastforce
  have "err = None" by (rule writePeerSnapshot_possible [OF snapshotDisk_ready(1,2) _ snapshotDisk_ready(4) r]) simp
  with r have run: "writePeerSnapshot textLib \<lparr>stopsAfter = None, closeErr = None\<rparr> [''1''] ''/d/peers'' ?peers
      snapshotDisk = (fs', None)" by simp
  have "list_all (printsBack textLib) ?peers"
    by (simp add: printsBack_def textLib_def plainText_def spaceEncodings_def)
  note again = snapshot_roundtrip [OF snapshotDisk_ready(1,2) _ run _ this]
  have "clock snapshotDisk = 7" by (simp add: snapshotDisk_def)
  then show ?thesis using run again [of 8] again [of 86400000000008]
    by (intro exI [of _ fs']) (simp add: snapshotLifetime_def)
qed

end
