(* ===== verification/Routing.thy ===== *)
theory Routing
  imports Prelude
begin

text \<open>
  \<open>routing.go\<close>: how the content routers are composed, and \<open>parallelDiscovery\<close>, which asks all of
  them at once and merges what they find. Each router is its stream of providers, whatever it is;
  the goroutine that drains it moves one atomic action at a time, and so do the consumer of the
  merged channel (a send is taken when the consumer receives) and the caller's context.
\<close>

section \<open>newProviderFinder\<close>

datatype 'r finder = NoRouting | OneRouter 'r | Parallel "'r list"

definition newProviderFinder :: "'r option list \<Rightarrow> 'r finder" where
  "newProviderFinder routers =
     (let configured = List.map_filter (\<lambda>r. r) routers in
      case configured of
        [] \<Rightarrow> NoRouting
      | [r] \<Rightarrow> OneRouter r
      | rs \<Rightarrow> Parallel rs)"

section \<open>parallelDiscovery\<close>

type_synonym peerId = nat

text \<open>
  A router's goroutine: at the head of its loop with the rest of the stream; past the mutex section
  with a provider that is not a duplicate, about to send it; about to call \<open>cancel\<close>; done.
\<close>

datatype routerPc =
    Ranging "peerId list"
  | Sending peerId bool "peerId list"
  | Cancelling
  | Stopped

record discovery =
  seen :: "peerId set"
  merged :: "peerId list"
  cancelled :: bool
  routers :: "nat \<Rightarrow> routerPc"

definition startDiscovery :: "peerId list list \<Rightarrow> discovery" where
  "startDiscovery streams =
     \<lparr>seen = {}, merged = [], cancelled = False,
      routers = \<lambda>r. if r < length streams then Ranging (streams ! r) else Stopped\<rparr>"

text \<open>The section under the mutex, and where it leaves the goroutine.\<close>

definition considerProvider :: "int \<Rightarrow> peerId \<Rightarrow> peerId list \<Rightarrow> peerId set \<Rightarrow> peerId set \<times> routerPc" where
  "considerProvider limit p rest sn =
     (let duplicate = p \<in> sn; sn' = insert p sn; satisfied = limit > 0 \<and> int (card sn') \<ge> limit in
      (sn', if duplicate then Ranging rest else Sending p satisfied rest))"

inductive discoveryStep :: "int \<Rightarrow> discovery \<Rightarrow> discovery \<Rightarrow> bool" for limit where
  found:
    "\<lbrakk>routers s r = Ranging (p # rest); considerProvider limit p rest (seen s) = (sn, pc)\<rbrakk>
      \<Longrightarrow> discoveryStep limit s (s\<lparr>seen := sn, routers := (routers s)(r := pc)\<rparr>)"
| exhausted:
    "\<lbrakk>routers s r = Ranging rest; rest = [] \<or> cancelled s\<rbrakk>
      \<Longrightarrow> discoveryStep limit s (s\<lparr>routers := (routers s)(r := Stopped)\<rparr>)"
| delivered:
    "routers s r = Sending p satisfied rest
      \<Longrightarrow> discoveryStep limit s (s\<lparr>merged := merged s @ [p],
            routers := (routers s)(r := (if satisfied then Cancelling else Ranging rest))\<rparr>)"
| dropped:
    "\<lbrakk>routers s r = Sending p satisfied rest; cancelled s\<rbrakk>
      \<Longrightarrow> discoveryStep limit s (s\<lparr>routers := (routers s)(r := Stopped)\<rparr>)"
| stopSiblings:
    "routers s r = Cancelling
      \<Longrightarrow> discoveryStep limit s (s\<lparr>cancelled := True, routers := (routers s)(r := Stopped)\<rparr>)"
| callerDone:
    "discoveryStep limit s (s\<lparr>cancelled := True\<rparr>)"

inductive_cases discoveryStep_cases: "discoveryStep limit s t"

text \<open>\<open>merged\<close> is closed once every goroutine is done.\<close>

definition mergedClosed :: "discovery \<Rightarrow> bool" where
  "mergedClosed s \<longleftrightarrow> (\<forall>r. routers s r = Stopped)"

section \<open>Invariants\<close>

text \<open>What is delivered is distinct, was seen, and is not about to be delivered again.\<close>

definition distinctInv :: "discovery \<Rightarrow> bool" where
  "distinctInv s \<longleftrightarrow>
     distinct (merged s) \<and> finite (seen s) \<and> set (merged s) \<subseteq> seen s
     \<and> (\<forall>r p b rest. routers s r = Sending p b rest \<longrightarrow> p \<in> seen s \<and> p \<notin> set (merged s))
     \<and> (\<forall>r q p b b' rest rest'. routers s r = Sending p b rest \<longrightarrow> routers s q = Sending p b' rest' \<longrightarrow> r = q)"

text \<open>
  Providers that came before the limit was met are fewer than the limit; each other one delivered
  is the last of its router.
\<close>

definition finished :: "nat \<Rightarrow> discovery \<Rightarrow> nat set" where
  "finished n s = {r. r < n \<and> (routers s r = Cancelling \<or> routers s r = Stopped)}"

definition boundInv :: "int \<Rightarrow> nat \<Rightarrow> discovery \<Rightarrow> bool" where
  "boundInv limit n s \<longleftrightarrow>
     (\<forall>r \<ge> n. routers s r = Stopped)
     \<and> (\<exists>early (lastOf :: nat \<Rightarrow> peerId).
          early \<subseteq> seen s \<and> int (card early) < limit
          \<and> (\<forall>r p rest. routers s r = Sending p False rest \<longrightarrow> p \<in> early)
          \<and> set (merged s) \<subseteq> early \<union> lastOf ` finished n s)"

text \<open>Until somebody cancels, every provider is delivered, about to be, or still to come.\<close>

definition pending :: "routerPc \<Rightarrow> peerId set" where
  "pending pc = (case pc of Ranging rest \<Rightarrow> set rest | Sending p b rest \<Rightarrow> insert p (set rest) | _ \<Rightarrow> {})"

definition completeInv :: "peerId list list \<Rightarrow> discovery \<Rightarrow> bool" where
  "completeInv streams s \<longleftrightarrow>
     (cancelled s \<or> (\<exists>r. routers s r = Cancelling)
      \<or> (\<forall>xs\<in>set streams. \<forall>p\<in>set xs. p \<in> set (merged s) \<or> (\<exists>r. p \<in> pending (routers s r)))
        \<and> (\<forall>p\<in>seen s. p \<in> set (merged s) \<or> (\<exists>r b rest. routers s r = Sending p b rest)))"

text \<open>Nothing is seen, sent or delivered that some router's stream did not hold.\<close>

definition sourceInv :: "peerId list list \<Rightarrow> discovery \<Rightarrow> bool" where
  "sourceInv streams s \<longleftrightarrow>
     seen s \<union> set (merged s) \<subseteq> (\<Union>xs\<in>set streams. set xs)
     \<and> (\<forall>r. pending (routers s r) \<subseteq> (\<Union>xs\<in>set streams. set xs))"

lemma considerProvider_cases:
  assumes "considerProvider limit p rest sn = (sn', pc)"
  obtains "p \<in> sn" "sn' = sn" "pc = Ranging rest"
  | "p \<notin> sn" "sn' = insert p sn" "pc = Sending p (limit > 0 \<and> int (card (insert p sn)) \<ge> limit) rest"
  using assms by (cases "p \<in> sn") (auto simp: considerProvider_def Let_def insert_absorb)

lemma distinctInv_step: "discoveryStep limit s t \<Longrightarrow> distinctInv s \<Longrightarrow> distinctInv t"
proof (induction rule: discoveryStep.induct)
  case (found s r p rest sn pc)
  from found(2) show ?case
  proof (cases rule: considerProvider_cases)
    case 1
    then show ?thesis using found by (auto simp: distinctInv_def)
  next
    case 2
    have "routers s q \<noteq> Sending p b rest'" for q b rest'
      using found(3) 2(1) unfolding distinctInv_def by blast
    then show ?thesis using found(3) 2 by (auto simp: distinctInv_def)
  qed
next
  case (delivered s r p b rest)
  then have p: "p \<in> seen s" "p \<notin> set (merged s)" unfolding distinctInv_def by blast+
  have others: "q \<noteq> p" if "routers s r' = Sending q b' rest'" "r' \<noteq> r" for q r' b' rest'
    using that delivered unfolding distinctInv_def by blast
  show ?case using delivered p others by (auto simp: distinctInv_def)
qed (auto simp: distinctInv_def)

lemma boundInvI:
  assumes "\<And>r. n \<le> r \<Longrightarrow> routers t r = Stopped" and "A \<subseteq> seen t" and "int (card A) < limit"
    and "\<And>r p rest. routers t r = Sending p False rest \<Longrightarrow> p \<in> A"
    and "set (merged t) \<subseteq> A \<union> f ` finished n t"
  shows "boundInv limit n t"
  unfolding boundInv_def using assms by blast

lemma boundInv_router: "boundInv limit n s \<Longrightarrow> routers s r \<noteq> Stopped \<Longrightarrow> r < n"
  unfolding boundInv_def by (meson not_less)

text \<open>A step that lets nothing new through but what an early sender had.\<close>

lemma boundInv_mono:
  assumes "boundInv limit n s" and fin: "finished n s \<subseteq> finished n t" and "seen t = seen s"
    and off: "\<And>r. n \<le> r \<Longrightarrow> routers s r = Stopped \<Longrightarrow> routers t r = Stopped"
    and early: "\<And>r p rest. routers t r = Sending p False rest \<Longrightarrow> \<exists>rest'. routers s r = Sending p False rest'"
    and new: "\<And>p. p \<in> set (merged t) \<Longrightarrow> p \<in> set (merged s) \<or> (\<exists>r rest. routers s r = Sending p False rest)"
  shows "boundInv limit n t"
proof -
  obtain A f where A: "\<And>r. n \<le> r \<Longrightarrow> routers s r = Stopped" "A \<subseteq> seen s" "int (card A) < limit"
    "\<And>r p rest. routers s r = Sending p False rest \<Longrightarrow> p \<in> A" "set (merged s) \<subseteq> A \<union> f ` finished n s"
    using assms(1) unfolding boundInv_def by blast
  have "set (merged t) \<subseteq> A \<union> f ` finished n t" using A(4,5) new fin by blast
  moreover have "p \<in> A" if "routers t r = Sending p False rest" for r p rest using early [OF that] A(4) by blast
  ultimately show ?thesis using A(1-3) off assms(3) by (intro boundInvI [of n t A limit f]) auto
qed

text \<open>A provider not seen before joins the early ones, unless it reaches the limit.\<close>

lemma boundInv_found:
  assumes "boundInv limit n s" and fin: "finite (seen s)" and lim: "0 < limit" and rn: "r < n"
    and "finished n s \<subseteq> finished n t" and "merged t = merged s" and "seen t = insert p (seen s)"
    and sat: "sat \<longleftrightarrow> limit > 0 \<and> int (card (insert p (seen s))) \<ge> limit"
    and rt: "routers t = (routers s)(r := Sending p sat rest)"
  shows "boundInv limit n t"
proof -
  obtain A f where A: "\<And>r. n \<le> r \<Longrightarrow> routers s r = Stopped" "A \<subseteq> seen s" "int (card A) < limit"
    "\<And>r p rest. routers s r = Sending p False rest \<Longrightarrow> p \<in> A" "set (merged s) \<subseteq> A \<union> f ` finished n s"
    using assms(1) unfolding boundInv_def by blast
  let ?A = "if sat then A else insert p A"
  have "card (insert p A) \<le> card (insert p (seen s))" using A(2) fin by (intro card_mono) auto
  then have "int (card ?A) < limit" using A(3) sat lim by auto
  moreover have "set (merged t) \<subseteq> ?A \<union> f ` finished n t" using A(5) assms(5,6) by auto
  moreover have "q \<in> ?A" if "routers t r' = Sending q False rest'" for r' q rest'
    using that A(4) [of r'] by (auto simp: rt split: if_splits)
  ultimately show ?thesis
    using A(1,2) assms(7) rn by (intro boundInvI [of n t ?A limit f]) (auto simp: rt)
qed

text \<open>The provider that reached the limit is charged to the router that delivered it.\<close>

lemma boundInv_last:
  assumes "boundInv limit n s" and rn: "r < n" and "r \<notin> finished n s" and fin: "finished n t = insert r (finished n s)"
    and "merged t = merged s @ [p]" and "seen t = seen s" and rt: "routers t = (routers s)(r := Cancelling)"
  shows "boundInv limit n t"
proof -
  obtain A f where A: "\<And>r. n \<le> r \<Longrightarrow> routers s r = Stopped" "A \<subseteq> seen s" "int (card A) < limit"
    "\<And>r p rest. routers s r = Sending p False rest \<Longrightarrow> p \<in> A" "set (merged s) \<subseteq> A \<union> f ` finished n s"
    using assms(1) unfolding boundInv_def by blast
  have "(f(r := p)) ` finished n t = insert p (f ` finished n s)" using assms(3) by (auto simp: fin)
  then have "set (merged t) \<subseteq> A \<union> (f(r := p)) ` finished n t" using A(5) assms(5) by auto
  moreover have "q \<in> A" if "routers t r' = Sending q False rest'" for r' q rest'
    using that A(4) [of r'] by (simp add: rt split: if_splits)
  ultimately show ?thesis
    using A(1-3) assms(6) rn by (intro boundInvI [of n t A limit "f(r := p)"]) (simp_all add: rt)
qed

lemma boundInv_step:
  assumes step: "discoveryStep limit s t" and inv: "boundInv limit n s" "distinctInv s" and lim: "0 < limit"
  shows "boundInv limit n t"
  using step
proof (cases rule: discoveryStep.cases)
  case (found r p rest sn pc)
  have rn: "r < n" using boundInv_router [OF inv(1)] found(2) by simp
  have fsub: "finished n s \<subseteq> finished n t" using found(1,2) by (auto simp: finished_def)
  from found(3) show ?thesis
  proof (cases rule: considerProvider_cases)
    case 1
    then show ?thesis using found(1,2) fsub by (intro boundInv_mono [OF inv(1)]) (auto split: if_splits)
  next
    case 2
    have "finite (seen s)" using inv(2) by (simp add: distinctInv_def)
    from boundInv_found [OF inv(1) this lim rn fsub] found(1) 2 show ?thesis by simp
  qed
next
  case (delivered r p b rest)
  show ?thesis
  proof (cases b)
    case True
    have rn: "r < n" using boundInv_router [OF inv(1)] delivered(2) by simp
    then have "r \<notin> finished n s" "finished n t = insert r (finished n s)"
      using delivered(1,2) True by (auto simp: finished_def)
    from boundInv_last [OF inv(1) rn this] delivered(1) True show ?thesis by simp
  next
    case False
    then show ?thesis using delivered
      by (intro boundInv_mono [OF inv(1)]) (auto simp: finished_def split: if_splits)
  qed
next
  case (exhausted r rest)
  then show ?thesis by (intro boundInv_mono [OF inv(1)]) (auto simp: finished_def split: if_splits)
next
  case (dropped r p b rest)
  then show ?thesis by (intro boundInv_mono [OF inv(1)]) (auto simp: finished_def split: if_splits)
next
  case (stopSiblings r)
  then show ?thesis by (intro boundInv_mono [OF inv(1)]) (auto simp: finished_def split: if_splits)
next
  case callerDone
  then show ?thesis by (intro boundInv_mono [OF inv(1)]) (auto simp: finished_def)
qed

definition stopping :: "discovery \<Rightarrow> bool" where
  "stopping s \<longleftrightarrow> cancelled s \<or> (\<exists>r. routers s r = Cancelling)"

lemma stopping_other:
  assumes "stopping s" and "routers s r \<noteq> Cancelling"
    and "routers t = (routers s)(r := pc)" and "cancelled s \<Longrightarrow> cancelled t"
  shows "stopping t"
proof (cases "cancelled s")
  case False
  then obtain q where q: "routers s q = Cancelling" using assms(1) by (auto simp: stopping_def)
  then have "q \<noteq> r" using assms(2) by auto
  then have "routers t q = Cancelling" using q assms(3) by simp
  then show ?thesis by (auto simp: stopping_def)
qed (use assms(4) in \<open>simp add: stopping_def\<close>)

lemma stopping_step: "discoveryStep limit s t \<Longrightarrow> stopping s \<Longrightarrow> stopping t"
proof (induction rule: discoveryStep.induct)
  case (found s r p rest sn pc)
  show ?case by (rule stopping_other [of s r _ pc]) (use found in auto)
next
  case (exhausted s r rest)
  show ?case by (rule stopping_other [of s r _ Stopped]) (use exhausted in auto)
next
  case (delivered s r p b rest)
  show ?case
    by (rule stopping_other [of s r _ "if b then Cancelling else Ranging rest"]) (use delivered in auto)
qed (auto simp: stopping_def)

lemma completeInvI:
  assumes "\<not> stopping s \<Longrightarrow> (\<forall>xs\<in>set streams. \<forall>p\<in>set xs. p \<in> set (merged s) \<or> (\<exists>r. p \<in> pending (routers s r)))
      \<and> (\<forall>p\<in>seen s. p \<in> set (merged s) \<or> (\<exists>r b rest. routers s r = Sending p b rest))"
  shows "completeInv streams s"
  using assms by (auto simp: completeInv_def stopping_def)

lemma completeInvD:
  assumes "completeInv streams s" and "\<not> stopping s"
  shows "xs \<in> set streams \<Longrightarrow> p \<in> set xs \<Longrightarrow> p \<in> set (merged s) \<or> (\<exists>r. p \<in> pending (routers s r))"
    and "p \<in> seen s \<Longrightarrow> p \<in> set (merged s) \<or> (\<exists>r b rest. routers s r = Sending p b rest)"
  using assms by (auto simp: completeInv_def stopping_def)

lemma pending_simps [simp]:
  "pending (Ranging rest) = set rest" "pending (Sending p b rest) = insert p (set rest)"
  "pending Cancelling = {}" "pending Stopped = {}"
  by (simp_all add: pending_def)

text \<open>A goroutine that moves on without losing a provider.\<close>

lemma completeInv_move:
  assumes inv: "completeInv streams s" and st: "stopping s \<Longrightarrow> stopping t"
    and t: "routers t = (routers s)(r := pc)" and "set (merged s) \<subseteq> set (merged t)"
    and lost: "pending (routers s r) \<subseteq> pending pc \<union> set (merged t) \<union> seen t"
    and sn: "seen t \<subseteq> seen s \<union> {p. \<exists>b rest. pc = Sending p b rest}"
    and sending: "\<And>p b rest. routers s r = Sending p b rest \<Longrightarrow> p \<in> set (merged t)"
  shows "completeInv streams t"
proof (rule completeInvI)
  assume "\<not> stopping t"
  then have ns: "\<not> stopping s" using st by blast
  note d = completeInvD [OF inv ns]
  have known: "p \<in> set (merged t) \<or> (\<exists>q b rest. routers t q = Sending p b rest)" if "p \<in> seen t" for p
  proof (cases "p \<in> seen s")
    case True
    then consider "p \<in> set (merged s)" | q b rest where "routers s q = Sending p b rest" using d(2) by blast
    then show ?thesis
    proof cases
      case 2
      then show ?thesis using sending t by (cases "q = r") auto
    qed (use assms(4) in auto)
  next
    case False
    then show ?thesis using that sn t by auto
  qed
  have "p \<in> set (merged t) \<or> (\<exists>q. p \<in> pending (routers t q))" if "xs \<in> set streams" "p \<in> set xs" for xs p
  proof -
    have fallback: ?thesis if "p \<in> seen t" using known [OF that] by (metis insertI1 pending_simps(2))
    consider "p \<in> set (merged s)" | q where "p \<in> pending (routers s q)" using d(1) \<open>xs \<in> set streams\<close> \<open>p \<in> set xs\<close> by blast
    then show ?thesis
    proof cases
      case (2 q)
      show ?thesis
      proof (cases "q = r")
        case True
        then have "p \<in> pending pc \<union> set (merged t) \<union> seen t" using lost 2 by auto
        then show ?thesis using fallback t by (metis UnE fun_upd_same)
      next
        case False
        then show ?thesis using 2 t by (metis fun_upd_other)
      qed
    qed (use assms(4) in auto)
  qed
  then show "(\<forall>xs\<in>set streams. \<forall>p\<in>set xs. p \<in> set (merged t) \<or> (\<exists>r. p \<in> pending (routers t r)))
      \<and> (\<forall>p\<in>seen t. p \<in> set (merged t) \<or> (\<exists>r b rest. routers t r = Sending p b rest))"
    using known by blast
qed

lemma completeInv_stopping: "stopping t \<Longrightarrow> completeInv streams t"
  by (rule completeInvI) simp

lemma completeInv_step:
  assumes step: "discoveryStep limit s t" and inv: "completeInv streams s"
  shows "completeInv streams t"
proof -
  have st: "stopping s \<Longrightarrow> stopping t" using stopping_step [OF step] .
  show ?thesis
    using step
  proof (cases rule: discoveryStep.cases)
    case (found r p rest sn pc)
    from found(3) show ?thesis
    proof (cases rule: considerProvider_cases)
      case 1
      then show ?thesis using found(1,2) by (intro completeInv_move [OF inv st, of r pc]) auto
    next
      case 2
      then show ?thesis using found(1,2) by (intro completeInv_move [OF inv st, of r pc]) auto
    qed
  next
    case (exhausted r rest)
    show ?thesis
    proof (cases "rest = []")
      case True
      then show ?thesis using exhausted by (intro completeInv_move [OF inv st, of r Stopped]) auto
    next
      case False
      then show ?thesis using exhausted by (intro completeInv_stopping) (simp add: stopping_def)
    qed
  next
    case (delivered r p b rest)
    show ?thesis
    proof (cases b)
      case True
      then show ?thesis using delivered by (intro completeInv_stopping) (auto simp: stopping_def)
    next
      case False
      then show ?thesis using delivered by (intro completeInv_move [OF inv st, of r "Ranging rest"]) auto
    qed
  qed (simp_all add: completeInv_stopping stopping_def)
qed

lemma sourceInv_move:
  assumes inv: "sourceInv streams s" and t: "routers t = (routers s)(r := pc)"
    and "pending pc \<subseteq> pending (routers s r)" and "seen t \<subseteq> seen s \<union> pending (routers s r)"
    and "set (merged t) \<subseteq> set (merged s) \<union> pending (routers s r)"
  shows "sourceInv streams t"
proof -
  have "pending (routers t q) \<subseteq> (\<Union>xs\<in>set streams. set xs)" for q
    using inv assms(3) by (cases "q = r") (auto simp: sourceInv_def t simp del: UN_simps, blast)
  moreover have "seen t \<union> set (merged t) \<subseteq> (\<Union>xs\<in>set streams. set xs)"
    using inv assms(4,5) unfolding sourceInv_def by (meson Un_least le_supE subset_trans)
  ultimately show ?thesis by (simp add: sourceInv_def)
qed

lemma sourceInv_step:
  assumes "discoveryStep limit s t" and inv: "sourceInv streams s"
  shows "sourceInv streams t"
  using assms(1)
proof (cases rule: discoveryStep.cases)
  case (found r p rest sn pc)
  from found(3) show ?thesis
    by (cases rule: considerProvider_cases) (use found in \<open>auto intro!: sourceInv_move [OF inv, of _ r pc]\<close>)
next
  case (exhausted r rest)
  then show ?thesis by (intro sourceInv_move [OF inv, of _ r Stopped]) auto
next
  case (delivered r p b rest)
  then show ?thesis by (intro sourceInv_move [OF inv, of _ r "if b then Cancelling else Ranging rest"]) auto
next
  case (dropped r p b rest)
  then show ?thesis by (intro sourceInv_move [OF inv, of _ r Stopped]) auto
next
  case (stopSiblings r)
  then show ?thesis by (intro sourceInv_move [OF inv, of _ r Stopped]) auto
next
  case callerDone
  then show ?thesis using inv by (simp add: sourceInv_def)
qed

lemma sourceInv_start: "sourceInv streams (startDiscovery streams)"
  by (auto simp: sourceInv_def startDiscovery_def pending_def split: if_splits intro: bexI [OF _ nth_mem])

section \<open>The discovery as an invariant system\<close>

definition discoveryInv :: "int \<Rightarrow> peerId list list \<Rightarrow> discovery \<Rightarrow> bool" where
  "discoveryInv limit streams s \<longleftrightarrow>
     distinctInv s \<and> completeInv streams s \<and> sourceInv streams s \<and> (0 < limit \<longrightarrow> boundInv limit (length streams) s)"

lemma discoveryInv_start: "discoveryInv limit streams (startDiscovery streams)"
proof -
  have "completeInv streams (startDiscovery streams)"
  proof (rule completeInvI)
    have "\<exists>r. p \<in> pending (routers (startDiscovery streams) r)" if xs: "xs \<in> set streams" and p: "p \<in> set xs" for xs p
    proof -
      obtain r where r: "r < length streams" "streams ! r = xs" using xs by (meson in_set_conv_nth)
      then have "routers (startDiscovery streams) r = Ranging xs" by (simp add: startDiscovery_def)
      then have "p \<in> pending (routers (startDiscovery streams) r)" using p by simp
      then show ?thesis by (rule exI)
    qed
    then show "(\<forall>xs\<in>set streams. \<forall>p\<in>set xs. p \<in> set (merged (startDiscovery streams))
          \<or> (\<exists>r. p \<in> pending (routers (startDiscovery streams) r)))
        \<and> (\<forall>p\<in>seen (startDiscovery streams). p \<in> set (merged (startDiscovery streams))
          \<or> (\<exists>r b rest. routers (startDiscovery streams) r = Sending p b rest))"
      by (auto simp: startDiscovery_def)
  qed
  moreover have "distinctInv (startDiscovery streams)"
    by (auto simp: distinctInv_def startDiscovery_def split: if_splits)
  moreover have "boundInv limit (length streams) (startDiscovery streams)" if "0 < limit"
    by (rule boundInvI [of _ _ "{}" _ "\<lambda>_. 0"]) (use that in \<open>auto simp: startDiscovery_def split: if_splits\<close>)
  ultimately show ?thesis using sourceInv_start by (simp add: discoveryInv_def)
qed

interpretation discovery: invariant_system "startDiscovery streams" "discoveryStep limit" "discoveryInv limit streams"
  for streams limit
proof unfold_locales
  show "discoveryInv limit streams (startDiscovery streams)" by (rule discoveryInv_start)
  show "discoveryInv limit streams t" if "discoveryStep limit s t" "discoveryInv limit streams s" for s t
    using that distinctInv_step completeInv_step sourceInv_step boundInv_step unfolding discoveryInv_def by blast
qed

section \<open>Properties\<close>

text \<open>
  C23. Merging the routers invents nothing, repeats nothing and loses nothing. Whatever the routers
  find and however their goroutines interleave, every provider delivered is one that some router's
  stream held, and no provider is delivered twice; and when the merged channel closes without the
  caller having given up or the limit having been met, exactly the providers the routers found have
  been delivered.
\<close>

theorem parallelDiscovery_exact:
  assumes "reach (startDiscovery streams) (discoveryStep limit) s"
  shows "distinct (merged s)
    \<and> set (merged s) \<subseteq> (\<Union>xs\<in>set streams. set xs)
    \<and> (mergedClosed s \<and> \<not> cancelled s \<longrightarrow> set (merged s) = (\<Union>xs\<in>set streams. set xs))"
proof -
  have inv: "distinctInv s" "completeInv streams s" "sourceInv streams s"
    using discovery.reach_inv [OF assms] by (simp_all add: discoveryInv_def)
  have "p \<in> set (merged s)" if "mergedClosed s" "\<not> cancelled s" "xs \<in> set streams" "p \<in> set xs" for xs p
  proof -
    have "\<not> stopping s" using that(1,2) by (simp add: stopping_def mergedClosed_def)
    from completeInvD(1) [OF inv(2) this that(3,4)] that(1) show ?thesis by (auto simp: mergedClosed_def)
  qed
  moreover have "set (merged s) \<subseteq> (\<Union>xs\<in>set streams. set xs)" using inv(3) by (simp add: sourceInv_def)
  ultimately show ?thesis using inv(1) unfolding distinctInv_def by blast
qed

text \<open>Two routers that each find one provider, the first of which has been drained.\<close>

definition twoRouters :: "peerId list list" where
  "twoRouters = [[7], [9]]"

definition bothSent :: "int \<Rightarrow> bool \<Rightarrow> discovery" where
  "bothSent limit sat =
     \<lparr>seen = {7, 9}, merged = [7, 9], cancelled = False,
      routers = (\<lambda>_. Stopped)(0 := if sat then Cancelling else Ranging [], 1 := if sat then Cancelling else Ranging [])\<rparr>"

lemma twoRouters_start:
  "startDiscovery twoRouters =
     \<lparr>seen = {}, merged = [], cancelled = False, routers = (\<lambda>_. Stopped)(0 := Ranging [7], 1 := Ranging [9])\<rparr>"
  by (auto simp: startDiscovery_def twoRouters_def less_Suc_eq fun_eq_iff)

lemma both_reach:
  assumes "limit \<in> {0, 1}"
  shows "reach (startDiscovery twoRouters) (discoveryStep limit) (bothSent limit (limit = 1))"
proof -
  let ?sat = "limit = 1"
  let ?pc = "if ?sat then Cancelling else Ranging []"
  let ?s1 = "\<lparr>seen = {7}, merged = [], cancelled = False,
      routers = (\<lambda>_. Stopped)(0 := Sending 7 ?sat [], 1 := Ranging [9])\<rparr>"
  let ?s2 = "\<lparr>seen = {7, 9}, merged = [], cancelled = False,
      routers = (\<lambda>_. Stopped)(0 := Sending 7 ?sat [], 1 := Sending 9 ?sat [])\<rparr>"
  let ?s3 = "\<lparr>seen = {7, 9}, merged = [7], cancelled = False,
      routers = (\<lambda>_. Stopped)(0 := ?pc, 1 := Sending 9 ?sat [])\<rparr>"
  let ?s0 = "startDiscovery twoRouters"
  have "discoveryStep limit ?s0 (?s0\<lparr>seen := {7}, routers := (routers ?s0)(0 := Sending 7 ?sat [])\<rparr>)"
    using assms by (intro found [of _ _ 7 "[]"]) (auto simp: twoRouters_start considerProvider_def)
  then have 1: "discoveryStep limit ?s0 ?s1" by (simp add: twoRouters_start fun_upd_twist)
  have "discoveryStep limit ?s1 (?s1\<lparr>seen := {7, 9}, routers := (routers ?s1)(1 := Sending 9 ?sat [])\<rparr>)"
    using assms by (intro found [of _ _ 9 "[]"]) (auto simp: considerProvider_def insert_commute)
  then have 2: "discoveryStep limit ?s1 ?s2" by simp
  have "discoveryStep limit ?s2 (?s2\<lparr>merged := merged ?s2 @ [7], routers := (routers ?s2)(0 := ?pc)\<rparr>)"
    by (rule delivered) simp
  then have 3: "discoveryStep limit ?s2 ?s3" by (simp add: fun_upd_twist)
  have "discoveryStep limit ?s3 (?s3\<lparr>merged := merged ?s3 @ [9], routers := (routers ?s3)(1 := ?pc)\<rparr>)"
    by (rule delivered) simp
  then have 4: "discoveryStep limit ?s3 (bothSent limit ?sat)" by (simp add: bothSent_def)
  have "reach ?s0 (discoveryStep limit) ?s1" by (rule reach_one) (rule 1)
  then have "reach ?s0 (discoveryStep limit) ?s2" using 2 by (rule reach_step)
  then have "reach ?s0 (discoveryStep limit) ?s3" using 3 by (rule reach_step)
  then show ?thesis using 4 by (rule reach_step)
qed

theorem parallelDiscovery_exact_witness:
  "\<exists>s. reach (startDiscovery twoRouters) (discoveryStep 0) s \<and> mergedClosed s \<and> \<not> cancelled s
     \<and> set (merged s) = {7, 9}"
proof -
  let ?s = "bothSent 0 False"
  let ?t = "?s\<lparr>routers := (routers ?s)(0 := Stopped)\<rparr>"
  let ?u = "?t\<lparr>routers := (routers ?t)(1 := Stopped)\<rparr>"
  have "reach (startDiscovery twoRouters) (discoveryStep 0) ?s" using both_reach [of 0] by simp
  moreover have "discoveryStep 0 ?s ?t" by (rule exhausted [of _ _ "[]"]) (simp_all add: bothSent_def)
  moreover have "discoveryStep 0 ?t ?u" by (rule exhausted [of _ _ "[]"]) (simp_all add: bothSent_def)
  ultimately have r: "reach (startDiscovery twoRouters) (discoveryStep 0) ?u" by (meson reach_step)
  have "mergedClosed ?u" "\<not> cancelled ?u" by (simp_all add: mergedClosed_def bothSent_def)
  then show ?thesis using parallelDiscovery_exact [OF r] r by (intro exI [of _ ?u]) (simp add: twoRouters_def insert_commute)
qed

text \<open>
  With a limit of two, the router whose provider was counted second is told that the limit is met, sends
  it and cancels the other before that has sent its own.
\<close>

lemma limit_falls_short:
  "\<exists>s. reach (startDiscovery twoRouters) (discoveryStep 2) s \<and> mergedClosed s \<and> merged s = [9]"
proof -
  let ?s0 = "startDiscovery twoRouters"
  let ?st = "\<lambda>sn mg ca a b. \<lparr>seen = sn, merged = mg, cancelled = ca, routers = (\<lambda>_. Stopped)(0 := a, 1 := b)\<rparr>"
  let ?s1 = "?st {7} [] False (Sending 7 False []) (Ranging [9])"
  let ?s2 = "?st {7, 9} [] False (Sending 7 False []) (Sending 9 True [])"
  let ?s3 = "?st {7, 9} [9] False (Sending 7 False []) Cancelling"
  let ?s4 = "?st {7, 9} [9] True (Sending 7 False []) Stopped"
  let ?s5 = "?st {7, 9} [9] True Stopped Stopped"
  have "discoveryStep 2 ?s0 (?s0\<lparr>seen := {7}, routers := (routers ?s0)(0 := Sending 7 False [])\<rparr>)"
    by (intro found [of _ _ 7 "[]"]) (auto simp: twoRouters_start considerProvider_def)
  then have 1: "discoveryStep 2 ?s0 ?s1" by (simp add: twoRouters_start fun_upd_twist)
  have "discoveryStep 2 ?s1 (?s1\<lparr>seen := {7, 9}, routers := (routers ?s1)(1 := Sending 9 True [])\<rparr>)"
    by (intro found [of _ _ 9 "[]"]) (auto simp: considerProvider_def insert_commute)
  then have 2: "discoveryStep 2 ?s1 ?s2" by simp
  have "discoveryStep 2 ?s2 (?s2\<lparr>merged := merged ?s2 @ [9], routers := (routers ?s2)(1 := if True then Cancelling else Ranging [])\<rparr>)"
    by (rule delivered) simp
  then have 3: "discoveryStep 2 ?s2 ?s3" by simp
  have "discoveryStep 2 ?s3 (?s3\<lparr>cancelled := True, routers := (routers ?s3)(1 := Stopped)\<rparr>)"
    by (rule stopSiblings) simp
  then have 4: "discoveryStep 2 ?s3 ?s4" by simp
  have "discoveryStep 2 ?s4 (?s4\<lparr>routers := (routers ?s4)(0 := Stopped)\<rparr>)" 
    by (rule dropped [of _ _ 7 False "[]"]) simp_all
  then have 5: "discoveryStep 2 ?s4 ?s5" by (simp add: fun_upd_twist)
  have "reach ?s0 (discoveryStep 2) ?s1" by (rule reach_one) (rule 1)
  then have "reach ?s0 (discoveryStep 2) ?s2" using 2 by (rule reach_step)
  then have "reach ?s0 (discoveryStep 2) ?s3" using 3 by (rule reach_step)
  then have "reach ?s0 (discoveryStep 2) ?s4" using 4 by (rule reach_step)
  then have "reach ?s0 (discoveryStep 2) ?s5" using 5 by (rule reach_step)
  moreover have "mergedClosed ?s5" by (simp add: mergedClosed_def)
  ultimately show ?thesis by force
qed



end
