(* ===== verification/Node.thy ===== *)
theory Node
  imports Dials Client_New Snapshot_Props Routing
begin

text \<open>
  A node of \<open>node.go\<close> from start to close: the host it is built on, what \<open>startNode\<close> puts together
  and when it gives up, \<open>redial\<close>, and \<open>close\<close> with the snapshot it leaves.
\<close>

section \<open>makeHost\<close>

definition startupTimeout :: int64 where "startupTimeout = 2000000000"
definition lowWaterConnections :: nat where "lowWaterConnections = 8"
definition highWaterConnections :: nat where "highWaterConnections = 16"
definition connectionGracePeriod :: int64 where "connectionGracePeriod = 2000000000"
definition connectionTrimInterval :: int64 where "connectionTrimInterval = 3000000000"
definition configuredPeerTag :: string where "configuredPeerTag = ''configured''"
definition dhtQueryConcurrency :: nat where "dhtQueryConcurrency = 3"

record connOptions =
  lowWater :: nat
  highWater :: nat
  gracePeriod :: int64
  silencePeriod :: int64

text \<open>The options \<open>libp2p.New\<close> is given; \<open>None\<close> for the listener is \<open>NoListenAddrs\<close>.\<close>

record 'k hostOptions =
  listenAddr :: "string option"
  identityKey :: 'k
  connections :: connOptions
  gater :: "string set"
  security :: "string list"
  transports :: "string list"
  multiaddrResolver :: "string list option"

definition listenOn :: "int \<Rightarrow> string option" where
  "listenOn port = (if port \<le> 0 then None else Some (''/ip4/127.0.0.1/tcp/'' @ showInt port))"

text \<open>
  What is not under \<open>src/\<close> and what a start meets: the libraries' constructors, the two dial groups
  when they are counted once \<open>awaitConnection\<close> has returned and when they are asked whether they are
  finished, which is later, the caller's context then, and what the host and the DHT hold when the node
  is closed.
\<close>

record ('m, 'k, 'h) startEnv =
  keys :: "'k keyLib"
  connmgrNew :: "connOptions \<Rightarrow> error option"
  libp2pNew :: "'k hostOptions \<Rightarrow> error + 'h"
  dhtNew :: "'h \<Rightarrow> 'm addrInfo list \<Rightarrow> nat \<Rightarrow> error option"
  countedGateways :: dialGroup
  countedPeers :: dialGroup
  gatewaysAt :: dialGroup
  peersAt :: dialGroup
  ctxAt :: ctxState
  peerstore :: "string \<Rightarrow> 'm list"
  routingTable :: "string list"
  faults :: writeFaults
  tempNames :: "string list"

definition makeHost :: "('m, 'k, 'h) startEnv \<Rightarrow> ('m, 'd) nodeConfig \<Rightarrow> error + 'h" where
  "makeHost env cfg =
     (case nodeIdentity (keys env) (nodeSeed cfg) of
        Inl e \<Rightarrow> Inl e
      | Inr priv \<Rightarrow>
          (let conns = \<lparr>lowWater = lowWaterConnections, highWater = highWaterConnections,
                 gracePeriod = connectionGracePeriod, silencePeriod = connectionTrimInterval\<rparr> in
           case connmgrNew env conns of
             Some e \<Rightarrow> Inl (Wrapped ''building the connection manager'' e)
           | None \<Rightarrow>
               libp2pNew env
                 \<lparr>listenAddr = listenOn (nodePort cfg), identityKey = priv, connections = conns,
                  gater = newDiscoveredAddrGater (nodePeers cfg), security = [''noise'', ''tls''],
                  transports = [''tcp'', ''quic'', ''websocket''], multiaddrResolver = resolver cfg\<rparr>))"

section \<open>The node\<close>

datatype 'd router = Kad | Delegated 'd

record ('m, 'd, 'h) node =
  host :: 'h
  withDht :: bool
  seeds :: "'m addrInfo list"
  http :: "string list option"
  withExchange :: bool
  withBitswap :: bool
  providers :: "'d router finder"
  protected :: "(string \<times> string) list"
  peerDials :: "dialGroup option"
  gatewayDials :: "dialGroup option"
  nodeSnapshot :: string
  configured :: "'m addrInfo list"

text \<open>What \<open>close\<close> shuts down, in its order; the node may be partially built.\<close>

datatype teardown = CancelLifetime | CloseBitswap | StopExchange | CloseDht | CloseHost

text \<open>The order in which the parts may go: what uses another part goes before it.\<close>

fun teardownRank :: "teardown \<Rightarrow> nat" where
  "teardownRank CancelLifetime = 0"
| "teardownRank CloseBitswap = 1"
| "teardownRank StopExchange = 2"
| "teardownRank CloseDht = 3"
| "teardownRank CloseHost = 4"

lemma teardownRank_inj: "teardownRank a = teardownRank b \<longleftrightarrow> a = b"
  by (cases a; cases b) simp_all

instantiation teardown :: linorder
begin

definition less_eq_teardown :: "teardown \<Rightarrow> teardown \<Rightarrow> bool" where
  "less_eq_teardown a b \<longleftrightarrow> teardownRank a \<le> teardownRank b"

definition less_teardown :: "teardown \<Rightarrow> teardown \<Rightarrow> bool" where
  "less_teardown a b \<longleftrightarrow> teardownRank a < teardownRank b"

instance
  by standard (auto simp: less_eq_teardown_def less_teardown_def teardownRank_inj [symmetric])

end

definition nodeClose :: "('m, 'x) addrLib_scheme \<Rightarrow> ('m, 'k, 'h) startEnv \<Rightarrow> ('m, 'd, 'h) node \<Rightarrow> filesystem
    \<Rightarrow> filesystem \<times> teardown list" where
  "nodeClose lib env n fs =
     (let worth = snapshotWorth lib (peerstore env) (if withDht n then Some (routingTable env) else None) (configured n);
          (fs', err) = writePeerSnapshot lib (faults env) (tempNames env) (nodeSnapshot n) worth fs
      in (fs',
          [CancelLifetime]
          @ (if withBitswap n then [CloseBitswap] else [])
          @ (if withExchange n then [StopExchange] else [])
          @ (if withDht n then [CloseDht] else [])
          @ [CloseHost]))"

section \<open>startNode\<close>

text \<open>The host and the fields set with it.\<close>

definition bareNode :: "('m, 'd) nodeConfig \<Rightarrow> 'h \<Rightarrow> ('m, 'd, 'h) node" where
  "bareNode cfg h =
     \<lparr>host = h, withDht = False, seeds = [], http = None, withExchange = False, withBitswap = False,
      providers = NoRouting, protected = [], peerDials = None, gatewayDials = None,
      nodeSnapshot = snapshotPath cfg, configured = nodePeers cfg\<rparr>"

definition builtNode :: "('m, 'k, 'h) startEnv \<Rightarrow> ('m, 'd) nodeConfig \<Rightarrow> 'm addrInfo list \<Rightarrow> 'h \<Rightarrow> ('m, 'd, 'h) node" where
  "builtNode env cfg sds h =
     (bareNode cfg h)
       \<lparr>withDht := \<not> disableDHT cfg, seeds := sds,
        http := (if length (gatewayHosts cfg) > 0 then Some (gatewayHosts cfg) else None),
        withExchange := True, withBitswap := True,
        providers := newProviderFinder
          [if disableDHT cfg then None else Some Kad, map_option Delegated (delegated cfg)],
        protected := map (\<lambda>info. (ID info, configuredPeerTag)) (nodePeers cfg),
        peerDials := Some (peersAt env), gatewayDials := Some (gatewaysAt env)\<rparr>"

definition noneReached :: "('m, 'd) nodeConfig \<Rightarrow> ctxState \<Rightarrow> error" where
  "noneReached cfg ctx =
     (case contextError ctx of
        Some e \<Rightarrow> e
      | None \<Rightarrow> Errorf ''none of the %d bootstrap peers and %d gateways could be reached''
          [showInt (int (length (nodePeers cfg))), showInt (int (length (nodeGateways cfg)))])"

definition startNode :: "('m, 'x) addrLib_scheme \<Rightarrow> ('m, 'k, 'h) startEnv \<Rightarrow> ('m, 'd) nodeConfig \<Rightarrow> filesystem
    \<Rightarrow> filesystem \<times> teardown list \<times> (error + ('m, 'd, 'h) node)" where
  "startNode lib env cfg fs =
     (case makeHost env cfg of
        Inl e \<Rightarrow> (fs, [], Inl e)
      | Inr h \<Rightarrow>
          (let sds = (if disableDHT cfg then [] else nodePeers cfg @ readPeerSnapshot lib (snapshotPath cfg) fs) in
           case (if disableDHT cfg then None else dhtNew env h sds dhtQueryConcurrency) of
             Some e \<Rightarrow>
               (case nodeClose lib env (bareNode cfg h) fs of
                  (fs', td) \<Rightarrow> (fs', td, Inl (Wrapped ''starting the dht'' e)))
           | None \<Rightarrow>
               (let n = builtNode env cfg sds h in
                if group_count (countedGateways env) = 0 \<and> group_count (countedPeers env) = 0 \<and> delegated cfg = None
                   \<and> group_finished (gatewaysAt env) \<and> group_finished (peersAt env) then
                  (case nodeClose lib env n fs of
                     (fs', td) \<Rightarrow> (fs', td, Inl (noneReached cfg (ctxAt env))))
                else (fs, [], Inr n))))"

text \<open>
  The goroutine a start leaves behind when there is a DHT: it is given what \<open>Bootstrap\<close> returned, and
  all it does with an error is to print it.
\<close>

definition bootstrapDHT :: "(string \<Rightarrow> string list \<Rightarrow> string) \<Rightarrow> error option \<Rightarrow> string list" where
  "bootstrapDHT fmt err =
     (case err of
        Some e \<Rightarrow> [''failed to bootstrap the dht: '' @ errorMessage fmt e]
      | None \<Rightarrow> [])"

section \<open>redial\<close>

text \<open>\<open>hostPeers\<close> is the number of peers the host is connected to.\<close>

definition freshDials :: "nat \<Rightarrow> dialGroup" where
  "freshDials targets = group (dialAll targets \<lparr>reported = {}, printed = []\<rparr>)"

definition redial :: "nat \<Rightarrow> ('m, 'd) nodeConfig \<Rightarrow> ('m, 'd, 'h) node \<Rightarrow> ('m, 'd, 'h) node" where
  "redial hostPeers cfg n =
     (if hostPeers > 0 then n
      else if (case peerDials n of Some g \<Rightarrow> \<not> group_finished g | None \<Rightarrow> False) then n
      else
        let n1 = n\<lparr>peerDials := Some (freshDials (length (nodePeers cfg)))\<rparr> in
        if http n1 \<noteq> None then n1\<lparr>gatewayDials := Some (freshDials (length (nodeGateways cfg)))\<rparr> else n1)"

end
