(* ===== verification/Node_Props.thy ===== *)
theory Node_Props
  imports Node
begin

text \<open>
  What starting, redialling and closing a node come to, and how they fit the constructor and the
  snapshot.
\<close>

section \<open>Starting\<close>

definition dhtStarts :: "('m, 'x) addrLib_scheme \<Rightarrow> ('m, 'k, 'h) startEnv \<Rightarrow> ('m, 'd) nodeConfig \<Rightarrow> 'h \<Rightarrow> filesystem \<Rightarrow> bool" where
  "dhtStarts lib env cfg h fs \<longleftrightarrow>
     disableDHT cfg \<or> dhtNew env h (nodePeers cfg @ readPeerSnapshot lib (snapshotPath cfg) fs) dhtQueryConcurrency = None"

definition somewhereToFetch :: "('m, 'k, 'h) startEnv \<Rightarrow> ('m, 'd) nodeConfig \<Rightarrow> bool" where
  "somewhereToFetch env cfg \<longleftrightarrow>
     group_count (countedGateways env) \<noteq> 0 \<or> group_count (countedPeers env) \<noteq> 0 \<or> delegated cfg \<noteq> None
     \<or> \<not> group_finished (gatewaysAt env) \<or> \<not> group_finished (peersAt env)"

definition startedParts :: "bool \<Rightarrow> bool \<Rightarrow> teardown set" where
  "startedParts dhtUp dht =
     (if dhtUp then {CloseBitswap, StopExchange} \<union> (if dht then {CloseDht} else {}) else {})"

lemma nodeClose_bare: "nodeClose lib env (bareNode cfg h) fs = (fs, [CancelLifetime, CloseHost])"
  by (simp add: nodeClose_def bareNode_def snapshotWorth_def writePeerSnapshot_def)

lemma nodeClose_built:
  "snd (nodeClose lib env (builtNode env cfg sds h) fs) =
     [CancelLifetime, CloseBitswap, StopExchange] @ (if disableDHT cfg then [] else [CloseDht]) @ [CloseHost]"
  by (simp add: nodeClose_def builtNode_def bareNode_def split: prod.split)

text \<open>
  C20. How a start ends, and what it leaves behind. A start fails in three ways only: the host cannot be
  built, and the error is the host's; the DHT cannot be started, and the error says so; or, as far as the
  dials tell when they are asked, there is nowhere to fetch from - no delegated router is configured, no
  peer and no gateway was counted as answered, and every dial was over when that was asked, which is later
  - and the error is the context's, or that none could be reached. In every other case it succeeds with the
  node built from the configuration, having closed nothing and not touched the disk. A start that fails
  after the host was built has cancelled the node's lifetime first, closed the host last, and closed in
  between exactly the parts it had started, each once and before the parts it uses. (Since the dials are
  counted before they are asked whether they are over, a peer that answers in between is missed:
  \<open>Startup.late_answer_is_lost\<close>.)
\<close>

theorem startNode_outcome:
  assumes "startNode lib env cfg fs = (fs', td, r)"
  shows "(\<forall>e. makeHost env cfg = Inl e \<longrightarrow> r = Inl e \<and> td = [] \<and> fs' = fs)
    \<and> (\<forall>h. makeHost env cfg = Inr h \<longrightarrow>
          (isOk r \<longleftrightarrow> dhtStarts lib env cfg h fs \<and> somewhereToFetch env cfg)
          \<and> (isOk r \<longrightarrow> td = [] \<and> fs' = fs
                \<and> r = Inr (builtNode env cfg (if disableDHT cfg then [] else nodePeers cfg @ readPeerSnapshot lib (snapshotPath cfg) fs) h))
          \<and> (\<not> dhtStarts lib env cfg h fs \<longrightarrow> (\<exists>e. r = Inl (Wrapped ''starting the dht'' e)
                \<and> dhtNew env h (nodePeers cfg @ readPeerSnapshot lib (snapshotPath cfg) fs) dhtQueryConcurrency = Some e))
          \<and> (dhtStarts lib env cfg h fs \<and> \<not> somewhereToFetch env cfg \<longrightarrow> r = Inl (noneReached cfg (ctxAt env)))
          \<and> (\<not> isOk r \<longrightarrow>
               sorted_wrt (<) td \<and> hd td = CancelLifetime \<and> last td = CloseHost
               \<and> set td = {CancelLifetime, CloseHost} \<union> startedParts (dhtStarts lib env cfg h fs) (\<not> disableDHT cfg)))"
proof (cases "makeHost env cfg")
  case (Inl e)
  then show ?thesis using assms by (simp add: startNode_def)
next
  case (Inr h)
  let ?sds = "if disableDHT cfg then [] else nodePeers cfg @ readPeerSnapshot lib (snapshotPath cfg) fs"
  let ?n = "builtNode env cfg ?sds h"
  show ?thesis
  proof (cases "dhtStarts lib env cfg h fs")
    case False
    then show ?thesis
      using assms Inr by (auto simp: startNode_def Let_def dhtStarts_def nodeClose_bare startedParts_def less_teardown_def)
  next
    case True
    have run: "(fs', td, r) =
      (if somewhereToFetch env cfg then (fs, [], Inr ?n)
       else (fst (nodeClose lib env ?n fs), snd (nodeClose lib env ?n fs), Inl (noneReached cfg (ctxAt env))))"
      using assms Inr True
      by (auto simp: startNode_def Let_def dhtStarts_def somewhereToFetch_def split: prod.splits)
    then show ?thesis using Inr True
      by (cases "somewhereToFetch env cfg") (auto simp: nodeClose_built startedParts_def less_teardown_def)
  qed
qed

text \<open>A start whose dials all failed, without a DHT.\<close>

definition deadEnv :: "(string, unit, unit) startEnv" where
  "deadEnv =
     \<lparr>keys = \<lparr>generateKey = Inr (), keyFromSeed = \<lambda>s. Inr ()\<rparr>, connmgrNew = \<lambda>_. None, libp2pNew = \<lambda>_. Inr (),
      dhtNew = \<lambda>_ _ _. None, countedGateways = freshDials 0,
      countedPeers = \<lparr>firstClosed = False, doneClosed = True, connected = 0\<rparr>, gatewaysAt = freshDials 0,
      peersAt = \<lparr>firstClosed = False, doneClosed = True, connected = 0\<rparr>,
      ctxAt = CtxLive, peerstore = \<lambda>_. [], routingTable = [], faults = \<lparr>stopsAfter = None, closeErr = None\<rparr>, tempNames = []\<rparr>"

definition onePeer :: "(string, unit) nodeConfig" where
  "onePeer =
     \<lparr>nodePort = 0, nodePeers = [\<lparr>ID = ''a'', Addrs = [''/ip4/1'']\<rparr>], disableDHT = True, nodeSeed = [], snapshotPath = [],
      nodeGateways = [], gatewayHosts = [], delegated = None, resolver = None\<rparr>"

lemma onePeer_host: "makeHost deadEnv onePeer = Inr ()"
  by (simp add: makeHost_def deadEnv_def onePeer_def nodeIdentity_def checkIdentitySeed_def)

theorem startNode_outcome_witness:
  "\<not> isOk (snd (snd (startNode textLib deadEnv onePeer snapshotDisk)))
   \<and> set (fst (snd (startNode textLib deadEnv onePeer snapshotDisk)))
       = {CancelLifetime, CloseBitswap, StopExchange, CloseHost}"
proof -
  obtain fs' td r where run: "startNode textLib deadEnv onePeer snapshotDisk = (fs', td, r)"
    by (cases "startNode textLib deadEnv onePeer snapshotDisk") auto
  have "\<not> somewhereToFetch deadEnv onePeer"
    by (simp add: somewhereToFetch_def deadEnv_def onePeer_def freshDials_def dialAll_def group_count_def group_finished_def)
  moreover have "dhtStarts textLib deadEnv onePeer () snapshotDisk" "disableDHT onePeer"
    by (simp_all add: dhtStarts_def onePeer_def)
  ultimately show ?thesis
    using startNode_outcome [OF run] onePeer_host run by (auto simp: startedParts_def)
qed

section \<open>Gateways of a node\<close>

lemma startNode_OkD:
  assumes "startNode lib env cfg fs = (fs', td, Inr n)"
  obtains h sds where "n = builtNode env cfg sds h" and "makeHost env cfg = Inr h"
  using assms by (auto simp: startNode_def Let_def split: sum.splits option.splits prod.splits if_splits)

text \<open>
  C29. No gateway is dialled over an exchange that is not there, or asked at a host the exchange is not
  held to. For a client the constructor made, a started node has an HTTP exchange exactly if a gateway
  is configured; its allowlist names the host of every gateway it dials; without a DHT and a delegated
  endpoint it asks nobody for providers; and every address of a configured peer is one its gater lets
  through.
\<close>

theorem started_gateways_allowed:
  assumes "New lib cfg = Inr c" and "startNode (addrs lib) env (nodeConf c) fs = (fs', td, Inr n)"
  shows "(http n \<noteq> None \<longleftrightarrow> nodeGateways (nodeConf c) \<noteq> [])
    \<and> (\<forall>hosts. http n = Some hosts \<longrightarrow>
          hosts = map (gatewayHost) (gateways (retrievalConf c))
          \<and> length hosts = length (nodeGateways (nodeConf c)) \<and> [] \<notin> set hosts)
    \<and> (DisableDHT cfg \<and> DelegatedRoutingEndpoint cfg = [] \<longrightarrow> providers n = NoRouting)
    \<and> (\<forall>info \<in> set (configured n). \<forall>a \<in> set (Addrs info).
          InterceptAddrDial (addrs lib) (newDiscoveredAddrGater (nodePeers (nodeConf c))) (ID info) a)"
proof -
  obtain h sds where n: "n = builtNode env (nodeConf c) sds h" using startNode_OkD [OF assms(2)] by blast
  let ?urls = "gateways (retrievalConf c)"
  have c: "nodeGateways (nodeConf c) = map (gatewayPeer (gatewayUrls lib)) ?urls"
    "gatewayHosts (nodeConf c) = map (gatewayHost) ?urls"
    "?urls = filter (usableGateway (gatewayUrls lib)) (Gateways cfg)"
    using New_parts [OF assms(1)] by simp_all
  have "[] \<notin> set (map (gatewayHost) ?urls)"
    unfolding c(3) using gatewayHost_nonempty by force
  moreover have "disableDHT (nodeConf c) = DisableDHT cfg" "delegated (nodeConf c) = None \<longleftrightarrow> DelegatedRoutingEndpoint cfg = []"
    using New_parts [OF assms(1)] by simp_all
  ultimately show ?thesis
    unfolding n using c
    by (auto simp: builtNode_def bareNode_def newProviderFinder_def map_filter_simps InterceptAddrDial_def
        newDiscoveredAddrGater_def)
qed

theorem started_gateways_allowed_witness:
  "\<exists>c fs' td n. New sampleLib (sampleConfig\<lparr>Gateways := [''http://[::1]:8080'']\<rparr>) = Inr c
     \<and> startNode (addrs sampleLib) (deadEnv\<lparr>ctxAt := CtxCanceled\<rparr>) (nodeConf c) snapshotDisk = (fs', td, Inr n)
     \<and> http n = Some [''::1'']"
proof -
  let ?cfg = "sampleConfig\<lparr>Gateways := [''http://[::1]:8080'']\<rparr>"
  let ?env = "deadEnv\<lparr>ctxAt := CtxCanceled\<rparr>"
  have "isOk (New sampleLib ?cfg)"
    using New_accepted [of sampleLib ?cfg]
    by (simp add: hasRoute_def dnsUsable_def routerUsable_def checkIdentitySeed_def sampleConfig_def sampleLib_def)
  then obtain c where c: "New sampleLib ?cfg = Inr c" by (cases "New sampleLib ?cfg") auto
  note parts = New_parts [OF c]
  have seed: "nodeSeed (nodeConf c) = []" and nodht: "disableDHT (nodeConf c)" and del: "delegated (nodeConf c) \<noteq> None"
    using parts by (simp_all add: sampleConfig_def)
  have "makeHost ?env (nodeConf c) = Inr ()"
    by (simp add: makeHost_def deadEnv_def seed nodeIdentity_def checkIdentitySeed_def)
  then obtain n where run: "startNode (addrs sampleLib) ?env (nodeConf c) snapshotDisk = (snapshotDisk, [], Inr n)"
    using nodht del by (simp add: startNode_def Let_def)
  have kept: "usableGateway textGateways ''http://[::1]:8080''" "gatewayHost ''http://[::1]:8080'' = ''::1''"
    by code_simp+
  then have urls: "gateways (retrievalConf c) = [''http://[::1]:8080'']"
    using parts by (simp add: sampleLib_def)
  have "nodeGateways (nodeConf c) \<noteq> []" using parts urls by simp
  then have "http n = Some [''::1'']"
    using started_gateways_allowed [OF c run] urls kept by (auto simp: sampleLib_def)
  then show ?thesis using c run by blast
qed

section \<open>What the next node starts from\<close>

lemma worthLoop_distinct:
  "distinct (map ID worth @ pids) \<Longrightarrow> distinct (map ID (worthLoop lib store skip pids worth))"
proof (induction lib store skip pids worth rule: worthLoop.induct)
  case (2 lib store skip pid pids worth)
  then show ?case by (auto simp: Let_def)
qed simp

text \<open>
  C22. The peers a node met are the ones the next node starts from. Closing a node leaves a snapshot,
  provided nothing is in its way, and a node of the same configuration started within a day hands its
  DHT the configured peers followed by exactly the peers the closed one had in its routing table and
  may dial, with the addresses it may dial them at; after a day, the configured peers alone.
\<close>

theorem close_then_start:
  assumes "wfTree fs" and "snapshotPlace (nodeSnapshot n)" and "list_all (\<lambda>r. CHR ''/'' \<notin> set r) (tempNames env)"
    and "snapshotPossible (faults env) (tempNames env) (nodeSnapshot n) fs"
    and "withDht n" and "distinct (routingTable env)"
    and "worth = snapshotWorth lib (peerstore env) (Some (routingTable env)) (configured n)"
    and "worth \<noteq> []" and "list_all (printsBack lib) worth"
    and "nodeClose lib env n fs = (fs', td)"
    and "snapshotPath cfg = nodeSnapshot n" and "\<not> disableDHT cfg"
    and "startNode lib env2 cfg (fs'\<lparr>clock := now\<rparr>) = (fs2, td2, Inr n2)"
  shows "seeds n2 = nodePeers cfg @ (if now - clock fs > snapshotLifetime then [] else worth)"
proof -
  obtain err where run: "writePeerSnapshot lib (faults env) (tempNames env) (nodeSnapshot n) worth fs = (fs', err)"
    using assms(5,7,10) by (auto simp: nodeClose_def Let_def split: prod.splits)
  have "err = None" by (rule writePeerSnapshot_possible [OF assms(1-4) run])
  then have "snapshotWritten (nodeSnapshot n) (snapshotLines lib worth) fs fs'"
    using writePeerSnapshot_effect [OF assms(1-3) run assms(8)] by simp
  moreover have "distinct (map ID worth)"
    using worthLoop_distinct [of "[]" "routingTable env"] assms(6,7) by (simp add: snapshotWorth_def)
  ultimately have "readPeerSnapshot lib (nodeSnapshot n) (fs'\<lparr>clock := now\<rparr>)
      = (if now - clock fs > snapshotLifetime then [] else worth)"
    using assms(2,9) by (intro readPeerSnapshot_written)
  moreover have "seeds n2 = nodePeers cfg @ readPeerSnapshot lib (snapshotPath cfg) (fs'\<lparr>clock := now\<rparr>)"
    using assms(12,13)
    by (auto simp: startNode_def Let_def builtNode_def bareNode_def split: sum.splits option.splits prod.splits if_splits)
  ultimately show ?thesis using assms(11) by simp
qed

text \<open>A node that met peer \<open>a\<close>, and the next one, which has no peer configured but an indexer.\<close>

definition metEnv :: "(string, unit, unit) startEnv" where
  "metEnv = deadEnv\<lparr>peerstore := \<lambda>_. [''/ip4/1''], routingTable := [''a''], tempNames := [''1'']\<rparr>"

definition nextConf :: "(string, unit) nodeConfig" where
  "nextConf = onePeer\<lparr>nodePeers := [], disableDHT := False, snapshotPath := ''/d/peers'', delegated := Some ()\<rparr>"

definition metNode :: "(string, unit, unit) node" where
  "metNode = (bareNode nextConf ())\<lparr>withDht := True\<rparr>"

theorem close_then_start_witness:
  "\<exists>fs' td fs2 td2 n2. nodeClose textLib metEnv metNode snapshotDisk = (fs', td)
     \<and> startNode textLib deadEnv nextConf (fs'\<lparr>clock := 9\<rparr>) = (fs2, td2, Inr n2)
     \<and> seeds n2 = [\<lparr>ID = ''a'', Addrs = [''/ip4/1'']\<rparr>]"
proof -
  let ?worth = "[\<lparr>ID = ''a'', Addrs = [''/ip4/1'']\<rparr>]"
  have worth: "?worth = snapshotWorth textLib (peerstore metEnv) (Some (routingTable metEnv)) (configured metNode)"
    by (simp add: snapshotWorth_def metEnv_def metNode_def bareNode_def nextConf_def snapshotAddrs_def textLib_def
        dialableAddr_def snapshotPeers_def)
  have prints: "list_all (printsBack textLib) ?worth"
    by (simp add: printsBack_def textLib_def plainText_def spaceEncodings_def)
  obtain fs' td where close: "nodeClose textLib metEnv metNode snapshotDisk = (fs', td)"
    by (cases "nodeClose textLib metEnv metNode snapshotDisk") auto
  have "makeHost deadEnv nextConf = Inr ()"
    by (simp add: makeHost_def deadEnv_def nextConf_def onePeer_def nodeIdentity_def checkIdentitySeed_def)
  then obtain fs2 td2 n2 where start: "startNode textLib deadEnv nextConf (fs'\<lparr>clock := 9\<rparr>) = (fs2, td2, Inr n2)"
    by (simp add: startNode_def nextConf_def deadEnv_def Let_def)
  have path: "nodeSnapshot metNode = ''/d/peers''" "snapshotPath nextConf = ''/d/peers''"
    by (simp_all add: metNode_def bareNode_def nextConf_def)
  have "seeds n2 = nodePeers nextConf @ (if 9 - clock snapshotDisk > snapshotLifetime then [] else ?worth)"
    by (rule close_then_start [OF snapshotDisk_ready(1) _ _ _ _ _ worth _ prints close _ _ start])
       (use snapshotDisk_ready in \<open>simp_all add: path, simp_all add: metEnv_def deadEnv_def metNode_def nextConf_def\<close>)
  then have "seeds n2 = ?worth" by (simp add: nextConf_def snapshotDisk_def snapshotLifetime_def)
  then show ?thesis using close start by blast
qed

section \<open>Redialling\<close>

text \<open>
  \<open>redial\<close> is for a node with nothing left: it does nothing while the host is connected to anyone,
  and never starts the peers' dials while those started before still run. The gateways' dials have no
  such guard: whenever the peers' are finished - as they are at once when no peer is configured - a
  call starts another group beside one that is still dialling, each time a download finds the node
  without connections.
\<close>

theorem redial_guards:
  "(hostPeers > 0 \<longrightarrow> redial hostPeers cfg n = n)
   \<and> (\<forall>g. peerDials n = Some g \<and> \<not> group_finished g \<longrightarrow> redial hostPeers cfg n = n)
   \<and> (\<forall>g. hostPeers = 0 \<and> (\<forall>p. peerDials n = Some p \<longrightarrow> group_finished p) \<and> gatewayDials n = Some g
        \<and> \<not> group_finished g \<and> http n \<noteq> None \<longrightarrow>
          peerDials (redial hostPeers cfg n) = Some (freshDials (length (nodePeers cfg)))
          \<and> gatewayDials (redial hostPeers cfg n) = Some (freshDials (length (nodeGateways cfg))))
   \<and> group_finished (freshDials 0)"
  by (auto simp: redial_def freshDials_def dialAll_def group_finished_def Let_def split: option.splits)

theorem redial_guards_witness:
  "gatewayDials (redial 0 (onePeer\<lparr>nodePeers := [], nodeGateways := nodePeers onePeer\<rparr>)
      (metNode\<lparr>peerDials := Some (freshDials 0), gatewayDials := Some (freshDials 2), http := Some [''h'']\<rparr>))
     = Some (freshDials 1)
   \<and> \<not> group_finished (freshDials 2)"
proof -
  have f: "group_finished (freshDials 0)" "\<not> group_finished (freshDials 2)"
    by (simp_all add: freshDials_def dialAll_def group_finished_def)
  have c: "length (nodeGateways (onePeer\<lparr>nodePeers := [], nodeGateways := nodePeers onePeer\<rparr>)) = 1"
    by (simp add: onePeer_def)
  show ?thesis
    using f redial_guards [of 0 "onePeer\<lparr>nodePeers := [], nodeGateways := nodePeers onePeer\<rparr>"
        "metNode\<lparr>peerDials := Some (freshDials 0), gatewayDials := Some (freshDials 2), http := Some [''h'']\<rparr>"]
    by (auto simp: c onePeer_def)
qed

end
