(* ===== verification/Startup.thy ===== *)
theory Startup
  imports Node_Props
begin

text \<open>
  A start together with the dials it waits for: what \<open>startNode\<close> giving up, or not, means for the
  goroutines of \<open>dialAll\<close>, whichever way they interleave with it.
\<close>

section \<open>Dials that are looked at twice\<close>

text \<open>
  A group of dials when \<open>startNode\<close> counts it and when, later, it asks whether it is finished.
\<close>

definition dialsSeen :: "string list \<Rightarrow> string set \<Rightarrow> dialSystem \<Rightarrow> dialSystem \<Rightarrow> bool" where
  "dialsSeen names before s t \<longleftrightarrow>
     reach (dialAll (length names) \<lparr>reported = before, printed = []\<rparr>) (dialStep names) s
     \<and> reach s (dialStep names) t"

lemma dialsSeen_inv:
  assumes "dialsSeen names before s t"
  shows "dialInv (length names) before s" "dialInv (length names) before t"
proof -
  show s: "dialInv (length names) before s" using assms dialling.reach_inv by (auto simp: dialsSeen_def)
  show "dialInv (length names) before t"
    using assms dialling.reach_from_inv [OF _ s] by (auto simp: dialsSeen_def)
qed

text \<open>A finished group does not move.\<close>

lemma finished_stays:
  assumes "reach s (dialStep names) t" and "dialInv targets before s" and "doneClosed (group s)"
  shows "t = s"
  using assms
proof (induction rule: reach.induct)
  case (reach_step t u)
  then have t: "t = s" by blast
  have "set (dials s) \<subseteq> {Settled True, Settled False}" "\<not> closer s"
    using settled_when_done(1) [OF reach_step.prems] reach_step.prems by (simp_all add: dialInv_def)
  then have "workLeft s = 0" by (auto simp: workLeft_def sum_list_eq_0_iff)
  then show ?case using workLeft_decreases [OF reach_step.hyps(2)] by (simp add: t)
qed simp

lemma none_counted:
  assumes "dialInv targets before s" and "group_count (group s) = 0"
  shows "\<forall>p \<in> set (dials s). \<not> counted p"
  using assms by (simp add: dialInv_def group_count_def filter_empty_conv)

lemma settled_uncounted:
  "set ps \<subseteq> {Settled True, Settled False} \<Longrightarrow> \<forall>p \<in> set ps. \<not> counted p \<Longrightarrow> set ps \<subseteq> {Settled False}"
  by fastforce

section \<open>Giving up\<close>

text \<open>
  C21. When a start fails although its host and its DHT came up, no delegated router is configured, every
  dial of every gateway and peer has ended, and none had been counted as answered when the groups were
  counted: a target that answered did so after that. If the groups were finished by then, every single
  dial failed. When a start succeeds without a delegated router, a target had answered or a dial was
  still open.
\<close>

theorem startNode_gives_up:
  assumes gw: "dialsSeen gnames b1 gc gf" and pr: "dialsSeen pnames b2 pc pf"
    and env: "countedGateways env = group gc" "gatewaysAt env = group gf" "countedPeers env = group pc" "peersAt env = group pf"
    and run: "startNode lib env cfg fs = (fs', td, r)"
    and up: "makeHost env cfg = Inr h" "dhtStarts lib env cfg h fs"
  shows "(\<not> isOk r \<longrightarrow>
        delegated cfg = None
        \<and> set (dials gf) \<union> set (dials pf) \<subseteq> {Settled True, Settled False}
        \<and> (\<forall>p \<in> set (dials gc) \<union> set (dials pc). \<not> counted p)
        \<and> (group_finished (group gc) \<and> group_finished (group pc) \<longrightarrow>
             set (dials gf) \<union> set (dials pf) \<subseteq> {Settled False}))
    \<and> (isOk r \<and> delegated cfg = None \<longrightarrow>
        0 < group_count (group gc) \<or> 0 < group_count (group pc)
        \<or> \<not> group_finished (group gf) \<or> \<not> group_finished (group pf))"
proof -
  note inv = dialsSeen_inv [OF gw] dialsSeen_inv [OF pr]
  have reaches: "reach gc (dialStep gnames) gf" "reach pc (dialStep pnames) pf"
    using gw pr by (simp_all add: dialsSeen_def)
  have ok: "isOk r \<longleftrightarrow> somewhereToFetch env cfg"
    using up run
    by (auto simp: startNode_def Let_def dhtStarts_def somewhereToFetch_def split: prod.splits if_splits)
  have nat: "group_count (group gc) \<noteq> 0 \<longleftrightarrow> 0 < group_count (group gc)"
    "group_count (group pc) \<noteq> 0 \<longleftrightarrow> 0 < group_count (group pc)"
    using inv by (simp_all add: dialInv_def group_count_def)
  have fails: "delegated cfg = None
      \<and> set (dials gf) \<union> set (dials pf) \<subseteq> {Settled True, Settled False}
      \<and> (\<forall>p \<in> set (dials gc) \<union> set (dials pc). \<not> counted p)
      \<and> (group_finished (group gc) \<and> group_finished (group pc) \<longrightarrow>
           set (dials gf) \<union> set (dials pf) \<subseteq> {Settled False})" if "\<not> isOk r"
  proof -
    have seen: "delegated cfg = None" "group_count (group gc) = 0" "group_count (group pc) = 0"
      "doneClosed (group gf)" "doneClosed (group pf)"
      using that ok env by (simp_all add: somewhereToFetch_def group_finished_def)
    note none = none_counted [OF inv(1) seen(2)] none_counted [OF inv(3) seen(3)]
    note settled = settled_when_done(1) [OF inv(2) seen(4)] settled_when_done(1) [OF inv(4) seen(5)]
    have "gf = gc" "pf = pc" if "group_finished (group gc)" "group_finished (group pc)"
      using finished_stays [OF reaches(1) inv(1)] finished_stays [OF reaches(2) inv(3)] that
      by (simp_all add: group_finished_def)
    then show ?thesis
      using seen(1) none settled settled_uncounted [of "dials gc"] settled_uncounted [of "dials pc"] by auto
  qed
  then show ?thesis using ok env nat by (auto simp: somewhereToFetch_def)
qed

text \<open>
  The case in between: a peer that answers after it was counted, and settles before it is asked about.
\<close>

definition dialled :: dialSystem where
  "dialled = dialAll 1 \<lparr>reported = {}, printed = []\<rparr>"

definition lateAnswer :: dialSystem where
  "lateAnswer =
     \<lparr>group = \<lparr>firstClosed = True, doneClosed = True, connected = 1\<rparr>, onceDone = True, waitCount = 0,
      dials = [Settled True], closer = False, log = \<lparr>reported = {}, printed = []\<rparr>\<rparr>"

lemma lateAnswer_reach: "reach dialled (dialStep [''peer a'']) lateAnswer"
proof -
  let ?st = "\<lambda>f d n o1 w ps c. \<lparr>group = \<lparr>firstClosed = f, doneClosed = d, connected = n\<rparr>, onceDone = o1,
    waitCount = w, dials = ps, closer = c, log = \<lparr>reported = {}, printed = []\<rparr>\<rparr> :: dialSystem"
  let ?R = "reach dialled (dialStep [''peer a''])"
  have r1: "?R (?st False False 0 False 1 [Dialling] True)"
    using reach_start [of dialled] by (simp add: dialled_def dialAll_def)
  have r2: "?R (?st False False 0 False 1 [Adding] True)"
    by (rule reach_next [OF r1], rule dial_answered [of 0]) (simp_all add: at_def goTo_def)
  have r3: "?R (?st False False 1 False 1 [Opening] True)"
    by (rule reach_next [OF r2], rule dial_count [of 0]) (simp_all add: at_def goTo_def)
  have r4: "?R (?st True False 1 True 1 [Leaving True] True)"
    by (rule reach_next [OF r3], rule dial_open [of 0]) (simp_all add: at_def goTo_def)
  have r5: "?R (?st True False 1 True 0 [Settled True] True)"
    by (rule reach_next [OF r4], rule dial_leave [where i = 0 and b = True]) (simp_all add: at_def goTo_def)
  have "?R (?st True True 1 True 0 [Settled True] False)"
    by (rule reach_next [OF r5], rule dial_close) simp_all
  then show ?thesis by (simp add: lateAnswer_def)
qed

definition lateEnv :: "(string, unit, unit) startEnv" where
  "lateEnv = deadEnv\<lparr>countedPeers := group dialled, peersAt := group lateAnswer\<rparr>"

lemma lateEnv_up: "makeHost lateEnv onePeer = Inr ()" "dhtStarts textLib lateEnv onePeer () snapshotDisk"
  by (simp_all add: lateEnv_def makeHost_def deadEnv_def onePeer_def nodeIdentity_def checkIdentitySeed_def dhtStarts_def)

text \<open>
  That start fails, saying that no peer could be reached, although the peer has answered: nothing is
  running any more, one dial has been counted, and the host is connected when it is closed.
\<close>

lemma late_answer_is_lost:
  "snd (snd (startNode textLib lateEnv onePeer snapshotDisk)) = Inl (noneReached onePeer CtxLive)
   \<and> group_count (peersAt lateEnv) = 1"
  using lateEnv_up(1)
  by (simp add: startNode_def onePeer_def lateEnv_def deadEnv_def Let_def dialled_def lateAnswer_def dialAll_def
      freshDials_def group_count_def group_finished_def split: prod.split)

theorem startNode_gives_up_witness:
  "\<not> isOk (snd (snd (startNode textLib lateEnv onePeer snapshotDisk))) \<and> set (dials lateAnswer) = {Settled True}
   \<and> \<not> counted (hd (dials dialled))"
proof -
  let ?g = "dialAll 0 \<lparr>reported = {}, printed = []\<rparr>"
  obtain fs' td r where run: "startNode textLib lateEnv onePeer snapshotDisk = (fs', td, r)"
    by (cases "startNode textLib lateEnv onePeer snapshotDisk") auto
  have gw: "dialsSeen [] {} ?g ?g" by (simp add: dialsSeen_def reach_start)
  have pr: "dialsSeen [''peer a''] {} dialled lateAnswer"
    using lateAnswer_reach reach_start by (simp add: dialsSeen_def dialled_def)
  have env: "countedGateways lateEnv = group ?g" "gatewaysAt lateEnv = group ?g"
    "countedPeers lateEnv = group dialled" "peersAt lateEnv = group lateAnswer"
    by (simp_all add: lateEnv_def deadEnv_def freshDials_def)
  have "\<not> isOk r" using late_answer_is_lost run by simp
  then show ?thesis
    using startNode_gives_up [OF gw pr env run lateEnv_up] run
    by (simp add: lateAnswer_def dialled_def dialAll_def)
qed

end
