(* ===== verification/Delivery.thy ===== *)
theory Delivery
  imports Get
begin

text \<open>
  When a download goes through. The other theories say what a success means and that a failure does no
  harm; here the conditions are those under which \<open>claimScratch\<close>, the staging, \<open>replace\<close> and the
  loop over the gateways do succeed, one after the other, up to \<open>Get\<close>.
\<close>

section \<open>Claiming the staging directory\<close>

text \<open>
  A \<open>downloadable\<close> output can also be published: the directory it goes to is there, and the first
  name drawn for the staging directory is not taken.
\<close>

definition publishable :: "string \<Rightarrow> string \<Rightarrow> string list \<Rightarrow> filesystem \<Rightarrow> bool" where
  "publishable pre output rnds fs \<longleftrightarrow>
     downloadable pre output rnds fs \<and> entryAt fs (fsKey fs (Dir output)) = Some DirEntry
     \<and> rnds \<noteq> [] \<and> entryAt fs (fsKey fs (Dir output) @ [pre @ hd rnds]) = None"

lemma osMkdir_new:
  assumes "wfTree fs" and "p \<noteq> []" and "fsKey fs p = k @ [e]"
    and "entryAt fs k = Some DirEntry" and "entryAt fs (k @ [e]) = None"
  obtains fs' where "osMkdir p fs = Inr fs'" and "\<And>q. entryAt fs' q = (if q = k @ [e] then Some DirEntry else entryAt fs q)"
  using assms that [of "touch k (touch (k @ [e]) (setEntry (k @ [e]) DirEntry fs))"] walkErr_child [OF assms(1,4)]
  by (simp add: osMkdir_def Let_def)

lemma claim_succeeds:
  assumes "publishable pre output rnds (disk s)"
  obtains scratch s2 where "claimScratch (Dir output) pre rnds (sweepScratchPrefix (Dir output) pre s) = Inr (scratch, s2)"
    and "\<And>e. entryAt (disk s2) (fsKey (disk s2) scratch @ [e]) = None"
    and "entryAt (disk s2) (fsKey (disk s2) (Dir output)) = Some DirEntry"
proof -
  let ?d = "Dir output" and ?s1 = "sweepScratchPrefix (Dir output) pre s"
  let ?dk = "fsKey (disk s) ?d"
  have ok: "downloadable pre output rnds (disk s)" and dir: "entryAt (disk s) ?dk = Some DirEntry"
    and rs: "rnds \<noteq> []" and free: "entryAt (disk s) (?dk @ [pre @ hd rnds]) = None"
    using assms by (simp_all add: publishable_def)
  obtain r rest where r: "rnds = r # rest" using rs by (cases rnds) auto
  have o: "wfTree (disk s)" "plainTree (disk s)" "properDir ?d" "pre \<in> {scratchPrefix, gatewayScratchPrefix}" "CHR ''/'' \<notin> set r"
    using ok by (simp_all add: downloadable_def r)
  note d = properDir_stack(1) [OF o(3)]
  have pl: "plainElem (pre @ r)" using o(4,5) by (intro plainElem_scratch)
  let ?sc = "joinPath ?d pre @ r"
  have sc: "?sc = ?d @ CHR ''/'' # (pre @ r)" using o(3) by (simp add: joinPath_properDir)
  have keys: "fsKey fs ?sc = fsKey fs ?d @ [pre @ r]" for fs unfolding sc by (rule fsKey_elem [OF d pl])
  have c1: "fsKey (disk ?s1) p = fsKey (disk s) p" for p by (rule fsKey_cwd [OF cwd_sweep])
  have same: "entryAt (disk ?s1) ?dk = Some DirEntry" "entryAt (disk ?s1) (?dk @ [pre @ r]) = None"
    using dir free unfolding sweep_effect [OF o(1,2) d] by (auto simp: underKey_iff r)
  have wf1: "wfTree (disk ?s1)" by (rule wfTree_sweep [OF o(1,2) d])
  obtain fs2 where mk: "osMkdir ?sc (disk ?s1) = Inr fs2"
    and at: "\<And>q. entryAt fs2 q = (if q = ?dk @ [pre @ r] then Some DirEntry else entryAt (disk ?s1) q)"
    using osMkdir_new [OF wf1 _ _ same, of ?sc] keys c1 sc by auto
  have c2: "fsKey fs2 p = fsKey (disk s) p" for p using osMkdir_frame [OF mk] c1 sameOutside_fsKey by metis
  let ?s2 = "?s1\<lparr>staging := insert ?sc (staging ?s1), disk := fs2\<rparr>"
  have "entryAt (disk ?s1) ((?dk @ [pre @ r]) @ [e]) = None" for e
    using wf1 same(2) unfolding wfTree_def by (metis option.distinct(1))
  then have "entryAt fs2 (fsKey fs2 ?sc @ [e]) = None" for e by (simp add: at c2 keys)
  moreover have "claimScratch ?d pre rnds ?s1 = Inr (?sc, ?s2)" by (simp add: claimScratch_def r Let_def mk)
  ultimately show ?thesis using that [of ?sc ?s2] same(1) by (simp add: at c2)
qed

section \<open>One file in an archive\<close>

lemma tarElems_plainElem: "plainElem e \<Longrightarrow> tarElems e = [e]"
  using cleanStack_append [of "[]" e]
  by (simp add: tarElems_def cleanStack_def isRooted_def splitChar_plain plainElem_def pushElem.simps)

text \<open>A reader that reads to its end: the file is stored if it fits, and cut one byte past the limit if not.\<close>

lemma writeLimited_outcome:
  assumes "wfTree fs" and "p \<noteq> []" and "fsKey fs p = k @ [e]" and "entryAt fs k = Some DirEntry"
    and "entryAt fs (k @ [e]) = None" and "readErr b = None" and "r < max_int64"
  shows "\<exists>fs' n. writeLimited p b r fs = (fs', n,
      if r < 0 \<or> int (length (avail b)) \<le> r then None else Some (SizeLimitError (r + 1) r))
    \<and> (0 \<le> r \<and> r < int (length (avail b)) \<longrightarrow> n = r + 1)"
proof -
  have "walkErr fs [] (k @ [e]) = None" using walkErr_child [OF assms(1,4)] .
  then obtain fs1 where cr: "osCreateExcl p fs = Inr fs1" using assms(2,3,5) by (simp add: osCreateExcl_def Let_def)
  show ?thesis
  proof (cases "r < 0")
    case True
    then show ?thesis using cr assms(6) by (simp add: writeLimited_def)
  next
    case False
    then have "wrap64 (r + 1) = r + 1" using assms(7) by (intro wrap64_id) (simp add: is_int64_def)
    then show ?thesis using False cr assms(6) by (auto simp: writeLimited_def copyLimited_def Let_def)
  qed
qed

definition oneFile :: "string \<Rightarrow> string \<Rightarrow> tarArchive" where
  "oneFile name bytes = \<lparr>headers = [\<lparr>Name = name, Typeflag = TypeReg, content = \<lparr>avail = bytes, readErr = None\<rparr>\<rparr>],
     nextErr = None\<rparr>"

lemma stageTar_oneFile:
  assumes wf: "wfTree fs" and dir: "properDir dir" "entryAt fs (fsKey fs dir) = Some DirEntry"
    and free: "entryAt fs (fsKey fs dir @ [e]) = None" and e: "plainElem e"
    and lim: "limit < max_int64" and fits: "0 < limit \<longrightarrow> int (length bytes) \<le> limit"
  shows "\<exists>fs'. stageTar (oneFile e bytes) limit dir fs = (fs', Inr (dir @ CHR ''/'' # e))"
proof -
  let ?p = "dir @ CHR ''/'' # e" and ?b = "\<lparr>avail = bytes, readErr = None\<rparr>"
  note d = properDir_stack(1) [OF dir(1)]
  have el: "tarElems e = [e]" by (rule tarElems_plainElem [OF e])
  have "e \<noteq> []" using e by (simp add: plainElem_def)
  then have res: "resolveTarPath dir e = Inr (?p, ?p)" by (simp add: resolveTarPath_eq [OF dir(1)] el)
  note k = tarPath_keys [OF dir(1) el, of ?p, simplified]
  have "mkdirAllFrom fs [] (fsKey fs dir @ []) = mkdirAllFrom fs ([] @ fsKey fs dir) []"
    using dir(2) walkErr_None_ancestor [OF wfTree_walk [OF wf], of "fsKey fs dir"]
    by (intro mkdirAllFrom_skip) (metis append_Nil option.distinct(1))
  then have mk: "osMkdirAll (Dir ?p) fs = (fs, None)" using k by (simp add: osMkdirAll_def)
  have "remaining limit 0 < 0 \<or> int (length bytes) \<le> remaining limit 0" "remaining limit 0 < max_int64"
    using lim fits by (simp_all add: remaining_def)
  then obtain fs' n where "writeLimited ?p ?b (remaining limit 0) fs = (fs', n, None)"
    using writeLimited_outcome [OF wf _ _ dir(2) free, of ?p ?b "remaining limit 0"] fsKey_elem [OF d e] by auto
  then show ?thesis
    by (simp add: stageTar_def extractTar_def oneFile_def extractEntry_def res mk TypeReg_def TypeDir_def sizeLimitWithTotals_def)
qed

section \<open>The whole sequence\<close>

context staged_content
begin

lemma publishVia_succeeds:
  assumes ok: "publishable pre output rnds (disk s)" and lim: "limit < max_int64"
    and stg: "\<And>dir fs. \<lbrakk>properDir dir; wfTree fs; entryAt fs (fsKey fs dir) = Some DirEntry;
        \<And>e. entryAt fs (fsKey fs dir @ [e]) = None\<rbrakk> \<Longrightarrow> \<exists>fs' staged. stage x limit dir fs = (fs', Inr staged)"
  shows "\<exists>s'. publishVia pre CtxLive Inr rnds (stage x limit) output s = (s', None)"
proof -
  have dl: "downloadable pre output rnds (disk s)" using ok by (simp add: publishable_def)
  obtain scratch s2 where claim: "claimScratch (Dir output) pre rnds (sweepScratchPrefix (Dir output) pre s) = Inr (scratch, s2)"
    and empty: "\<And>e. entryAt (disk s2) (fsKey (disk s2) scratch @ [e]) = None"
    by (rule claim_succeeds [OF ok]) blast
  note c = claim_effect [OF dl refl claim]
  obtain fs3 staged where run: "stage x limit scratch (disk s2) = (fs3, Inr staged)"
    using stg [OF c(1,3,5) empty] by blast
  note st = stage_settles [OF dl lim claim run]
  have pl: "placed staged output fs3" using st(4) by simp
  then have "snd (osRemoveAll output fs3) = None"
    using downloadable_no_dot [OF dl] dl fsKey_cwd [OF st(2)]
    by (auto simp: osRemoveAll_def Let_def placed_def downloadable_def)
  then obtain fs4 where "replace CtxLive Inr staged output fs3 = (fs4, None)"
    using replace_succeeds [OF st(1) pl] by blast
  then show ?thesis using claim run by (simp add: publishVia_def Let_def)
qed

lemma publishVia_refused:
  assumes ok: "publishable pre output rnds (disk s)" and lim: "limit < max_int64"
    and stg: "\<And>dir fs. \<lbrakk>properDir dir; wfTree fs; entryAt fs (fsKey fs dir) = Some DirEntry;
        \<And>e. entryAt fs (fsKey fs dir @ [e]) = None\<rbrakk> \<Longrightarrow> \<exists>fs'. stage x limit dir fs = (fs', Inl err)"
  shows "\<exists>s'. publishVia pre ctx lock rnds (stage x limit) output s = (s', Some err)
    \<and> (\<forall>z. entryAt (disk s') (fsKey (disk s) output @ z) = entryAt (disk s) (fsKey (disk s) output @ z))"
proof -
  have dl: "downloadable pre output rnds (disk s)" using ok by (simp add: publishable_def)
  obtain scratch s2 where claim: "claimScratch (Dir output) pre rnds (sweepScratchPrefix (Dir output) pre s) = Inr (scratch, s2)"
    and empty: "\<And>e. entryAt (disk s2) (fsKey (disk s2) scratch @ [e]) = None"
    by (rule claim_succeeds [OF ok]) blast
  note c = claim_effect [OF dl refl claim]
  obtain fs3 where run: "stage x limit scratch (disk s2) = (fs3, Inl err)" using stg [OF c(1,3,5) empty] by blast
  have "entryAt (disk (releaseScratch scratch (s2\<lparr>disk := fs3\<rparr>))) (fsKey (disk s) output @ z)
      = entryAt (disk s) (fsKey (disk s) output @ z)" for z
    by (rule swept_output [OF dl]) (rule stage_error [OF dl lim claim run])
  then show ?thesis using claim run by (simp add: publishVia_def Let_def)
qed

end

section \<open>One gateway\<close>

text \<open>An attempt nothing interferes with, and the answer that carries one file.\<close>

definition calm :: "attempt \<Rightarrow> bool" where
  "calm a \<longleftrightarrow> \<not> closedBefore a \<and> \<not> closedAfter a \<and> callerCtx a = CtxLive \<and> stepCtx a = CtxLive \<and> lockWait a = Inr"

definition sendsFile :: "string \<Rightarrow> string \<Rightarrow> attempt \<Rightarrow> bool" where
  "sendsFile name bytes a \<longleftrightarrow> (\<exists>resp. response a = Inr resp \<and> StatusCode resp = 200
     \<and> (ContentType resp = [] \<or> HasPrefix (ContentType resp) ''application/x-tar'') \<and> Archive resp = oneFile name bytes)"

lemma fetchFromGateway_file:
  assumes "isOk (gatewayRequest gateway target)" and "calm a" and "sendsFile name bytes a" and name: "plainElem name"
    and ok: "publishable gatewayScratchPrefix output (rands a) (disk (scratch w))"
    and lim: "limit < max_int64" and fits: "0 < limit \<longrightarrow> int (length bytes) \<le> limit"
  shows "\<exists>w'. fetchFromGateway pf a gateway target output limit w = (w', None)
    \<and> entryAt (disk (scratch w')) (fsKey (disk (scratch w)) output) = Some (FileEntry bytes)
    \<and> gatewayCooldowns w' = gatewayCooldowns w"
proof -
  obtain url where url: "gatewayRequest gateway target = Inr url" using assms(1) by (cases "gatewayRequest gateway target") auto
  obtain resp where resp: "response a = Inr resp" "StatusCode resp = 200"
      "ContentType resp = [] \<or> HasPrefix (ContentType resp) ''application/x-tar''" "Archive resp = oneFile name bytes"
    using assms(3) by (auto simp: sendsFile_def)
  have "\<exists>s'. publishVia gatewayScratchPrefix CtxLive Inr (rands a) (stageTar (oneFile name bytes) limit) output (scratch w) = (s', None)"
  proof (rule tar_content.publishVia_succeeds [OF ok lim])
    fix dir fs
    assume d: "properDir dir" "wfTree fs" "entryAt fs (fsKey fs dir) = Some DirEntry"
      and free: "\<And>e. entryAt fs (fsKey fs dir @ [e]) = None"
    obtain fs' where staged: "stageTar (oneFile name bytes) limit dir fs = (fs', Inr (dir @ CHR ''/'' # name))"
      using stageTar_oneFile [OF d(2,1,3) free name lim fits] by blast
    then show "\<exists>fs' staged. stageTar (oneFile name bytes) limit dir fs = (fs', Inr staged)" by blast
  qed
  then obtain s' where s': "publishVia gatewayScratchPrefix CtxLive Inr (rands a) (stageTar (oneFile name bytes) limit) output (scratch w) = (s', None)"
    by blast
  have "downloadable gatewayScratchPrefix output (rands a) (disk (scratch w))" using ok by (simp add: publishable_def)
  from tar_content.publishVia_effect [OF this lim quietLock_Inr s']
  have "list_all (delivered (fsKey (disk (scratch w)) output) (disk s')) (headers (oneFile name bytes))"
    using staged_delivered [OF _ lim] by blast
  then have "entryAt (disk s') (fsKey (disk (scratch w)) output) = Some (FileEntry bytes)"
    by (simp add: oneFile_def delivered_def tarElems_plainElem [OF name] TypeReg_def TypeDir_def)
  then show ?thesis
    using assms(2) resp s' url by (auto simp: fetchFromGateway_def calm_def)
qed

section \<open>The gateways before it\<close>

text \<open>
  An archive the extraction refuses wherever it is unpacked, for a reason other than its size: it breaks
  off, is empty, or holds something that is not allowed.
\<close>

definition refusedArchive :: "int64 \<Rightarrow> tarArchive \<Rightarrow> bool" where
  "refusedArchive limit archive \<longleftrightarrow>
     (\<forall>dir fs. \<exists>fs' e. stageTar archive limit dir fs = (fs', Inl e) \<and> \<not> isSizeLimit e)"

text \<open>
  An attempt that fails without ending the run, at a gateway that is not the host \<open>h\<close> when it asks
  to be left alone: it cannot be reached, it does not have the content, it sends something that is not an
  archive, or an archive that is refused.
\<close>

definition passedOver :: "int64 \<Rightarrow> string \<Rightarrow> string \<Rightarrow> string \<times> attempt \<Rightarrow> bool" where
  "passedOver limit h target ga \<longleftrightarrow>
     \<not> closedBefore (snd ga) \<and> \<not> closedAfter (snd ga) \<and> callerCtx (snd ga) = CtxLive
     \<and> list_all (\<lambda>r. CHR ''/'' \<notin> set r) (rands (snd ga))
     \<and> (case gatewayRequest (fst ga) target of
          Inl e \<Rightarrow> False
        | Inr url \<Rightarrow>
            (case response (snd ga) of
               Inl e \<Rightarrow> \<not> isSizeLimit e
             | Inr resp \<Rightarrow>
                 if StatusCode resp \<noteq> 200 then StatusCode resp \<in> throttled \<longrightarrow> Host url \<noteq> h
                 else ContentType resp \<noteq> [] \<and> \<not> HasPrefix (ContentType resp) ''application/x-tar''
                   \<or> refusedArchive limit (Archive resp)))"

text \<open>What such an attempt leaves of the disk is as good for the next one.\<close>

lemma publishable_swept:
  assumes ok: "publishable pre output rnds (disk s)" and cwd: "cwd fs = cwd (disk s)"
    and at: "\<And>k. entryAt fs k = entryAt (disk (sweepScratchPrefix (Dir output) pre s)) k"
  shows "publishable pre output rnds fs"
proof -
  have dl: "downloadable pre output rnds (disk s)" using ok by (simp add: publishable_def)
  then have o: "wfTree (disk s)" "plainTree (disk s)" "Dir output \<noteq> []"
    by (simp_all add: downloadable_def properDir_stack)
  have keys: "fsKey fs p = fsKey (disk s) p" for p by (rule fsKey_cwd [OF cwd])
  have some: "entryAt fs k = None \<or> entryAt fs k = entryAt (disk s) k" for k
    using swept_disk(2) [OF dl, of k] at by simp
  have "wfTree fs"
    using wfTree_sweep [OF o, of pre] by (simp add: wfTree_def at)
  moreover have "plainTree fs" using o(2) some cwd unfolding plainTree_iff by metis
  moreover have "entryAt fs (fsKey (disk s) (Dir output)) = entryAt (disk s) (fsKey (disk s) (Dir output))"
    using sweep_effect [OF o, of pre "fsKey (disk s) (Dir output)"] at by (simp add: underKey_iff)
  ultimately show ?thesis
    using ok some [of "fsKey (disk s) (Dir output) @ [pre @ hd rnds]"]
    by (auto simp: publishable_def downloadable_def keys)
qed

lemma claimScratch_error: "claimScratch dir pre rnds s = Inl e \<Longrightarrow> asSizeLimit e = None"
proof -
  have mk: "osMkdir p fs = Inl x \<Longrightarrow> asSizeLimit x = None" for p fs x
    by (auto simp: osMkdir_def Let_def split: if_splits option.splits)
  have "osMkdirTemp dir pre rs fs = Inl x \<Longrightarrow> asSizeLimit x = None" for rs fs x
    by (induction dir pre rs fs rule: osMkdirTemp.induct) (auto simp: Let_def dest: mk split: sum.splits error.splits io_error.splits)
  then show "claimScratch dir pre rnds s = Inl e \<Longrightarrow> asSizeLimit e = None"
    by (auto simp: claimScratch_def split: sum.splits)
qed

lemma refused_attempt:
  assumes ok: "publishable gatewayScratchPrefix output rnds (disk s)" and lim: "limit < max_int64"
    and rs: "list_all (\<lambda>r. CHR ''/'' \<notin> set r) rs" and bad: "refusedArchive limit archive"
  shows "\<exists>s' err. publishVia gatewayScratchPrefix ctx lock rs (stageTar archive limit) output s = (s', Some err)
    \<and> \<not> isSizeLimit err \<and> publishable gatewayScratchPrefix output rnds (disk s') \<and> cwd (disk s') = cwd (disk s)"
proof -
  let ?s1 = "sweepScratchPrefix (Dir output) gatewayScratchPrefix s"
  have dl: "downloadable gatewayScratchPrefix output rs (disk s)"
    using ok rs by (simp add: publishable_def downloadable_def)
  show ?thesis
  proof (cases "claimScratch (Dir output) gatewayScratchPrefix rs ?s1")
    case (Inl e)
    have "publishable gatewayScratchPrefix output rnds (disk ?s1)"
      by (rule publishable_swept [OF ok cwd_sweep]) (rule refl)
    moreover have "\<not> isSizeLimit e" using claimScratch_error [OF Inl] by (cases e) auto
    ultimately show ?thesis using Inl cwd_sweep by (simp add: publishVia_def Let_def)
  next
    case (Inr cl)
    then obtain sc s2 where claim: "claimScratch (Dir output) gatewayScratchPrefix rs ?s1 = Inr (sc, s2)" by (cases cl) auto
    obtain fs3 e where stg: "stageTar archive limit sc (disk s2) = (fs3, Inl e)" and e: "\<not> isSizeLimit e"
      using bad by (meson refusedArchive_def)
    let ?s' = "releaseScratch sc (s2\<lparr>disk := fs3\<rparr>)"
    have cwd: "cwd (disk ?s') = cwd (disk s)"
      using tar_content.stage_settles(2) [OF dl lim claim stg] by (simp add: releaseScratch_def)
    have "publishable gatewayScratchPrefix output rnds (disk ?s')"
      by (rule publishable_swept [OF ok cwd]) (rule tar_content.stage_error [OF dl lim claim stg])
    then show ?thesis using claim stg e cwd by (simp add: publishVia_def Let_def)
  qed
qed

lemma passedOver_attempt:
  assumes "passedOver limit h target (gateway, a)" and lim: "limit < max_int64"
    and ok: "publishable gatewayScratchPrefix output rnds (disk (scratch w))"
  shows "\<exists>w1 err. fetchFromGateway pf a gateway target output limit w = (w1, Some err) \<and> \<not> isSizeLimit err
    \<and> publishable gatewayScratchPrefix output rnds (disk (scratch w1)) \<and> cwd (disk (scratch w1)) = cwd (disk (scratch w))
    \<and> (\<forall>t. hostCoolingDown h t (gatewayCooldowns w1) = hostCoolingDown h t (gatewayCooldowns w))"
proof -
  obtain url where url: "gatewayRequest gateway target = Inr url" using assms(1) by (auto simp: passedOver_def split: sum.splits)
  show ?thesis
  proof (cases "\<exists>resp. response a = Inr resp \<and> StatusCode resp = 200
      \<and> (ContentType resp = [] \<or> HasPrefix (ContentType resp) ''application/x-tar'')")
    case True
    then obtain resp where resp: "response a = Inr resp" "StatusCode resp = 200"
      "ContentType resp = [] \<or> HasPrefix (ContentType resp) ''application/x-tar''" by blast
    have bad: "refusedArchive limit (Archive resp)" and rs: "list_all (\<lambda>r. CHR ''/'' \<notin> set r) (rands a)"
      using assms(1) url resp by (auto simp: passedOver_def)
    from refused_attempt [OF ok lim rs bad, of "stepCtx a" "lockWait a"]
    show ?thesis using url resp by (auto simp: fetchFromGateway_def)
  next
    case False
    then show ?thesis using assms(1) ok url
      by (auto simp: passedOver_def fetchFromGateway_def hostCoolingDown_def startGatewayCooldown_def split: sum.splits if_splits)
  qed
qed

lemma gatewayLoop_passes:
  assumes "list_all (passedOver limit h target) before" and "limit < max_int64"
    and "publishable gatewayScratchPrefix output rnds (disk (scratch w))"
  shows "\<exists>w1 failures1. gatewayLoop pf (before @ rest) target output limit failures w
      = gatewayLoop pf rest target output limit failures1 w1
    \<and> publishable gatewayScratchPrefix output rnds (disk (scratch w1)) \<and> cwd (disk (scratch w1)) = cwd (disk (scratch w))
    \<and> (\<forall>t. hostCoolingDown h t (gatewayCooldowns w1) = hostCoolingDown h t (gatewayCooldowns w))"
  using assms(1,3)
proof (induction before arbitrary: failures w)
  case (Cons ga before)
  obtain gateway a where ga: "ga = (gateway, a)" by (cases ga)
  have calm: "\<not> closedBefore a" "\<not> closedAfter a" "callerCtx a = CtxLive"
    using Cons.prems by (simp_all add: ga passedOver_def)
  have before: "list_all (passedOver limit h target) before" using Cons.prems(1) by simp
  show ?case
  proof (cases "gatewayCoolingDown gateway (checkedAt a) (gatewayCooldowns w)")
    case (Some dl)
    then show ?thesis using Cons.IH [OF before Cons.prems(2)] calm by (simp add: ga)
  next
    case None
    have "passedOver limit h target (gateway, a)" using Cons.prems by (simp add: ga)
    from passedOver_attempt [OF this assms(2) Cons.prems(2)] obtain w1 err
      where at: "fetchFromGateway pf a gateway target output limit w = (w1, Some err)" "\<not> isSizeLimit err"
        and w1: "publishable gatewayScratchPrefix output rnds (disk (scratch w1))" "cwd (disk (scratch w1)) = cwd (disk (scratch w))"
          "\<forall>t. hostCoolingDown h t (gatewayCooldowns w1) = hostCoolingDown h t (gatewayCooldowns w)"
      by blast
    have "gatewayLoop pf (ga # before @ rest) target output limit failures w
        = gatewayLoop pf (before @ rest) target output limit
            (failures @ [gateway @ '': '' @ errorMessage (sprintf pf) err]) w1"
      using None calm at by (simp add: ga)
    then show ?thesis
      using Cons.IH [OF before w1(1), of "failures @ [gateway @ '': '' @ errorMessage (sprintf pf) err]"] w1(2,3) by simp
  qed
qed auto

text \<open>The run over the gateways ends at the first that serves the file, whatever the later ones would do.\<close>

lemma fetchFromGateways_file:
  assumes gw: "gatewayParts scheme h port es" "urlElem target" "queryText query"
    and before: "list_all (passedOver limit (authority h port) target) before"
    and awake: "hostCoolingDown (authority h port) (checkedAt a) (gatewayCooldowns w) = None"
    and a: "calm a" "sendsFile name bytes a" "plainElem name"
    and ok: "publishable gatewayScratchPrefix output (rands a) (disk (scratch w))"
    and lim: "limit < max_int64" and fits: "0 < limit \<longrightarrow> int (length bytes) \<le> limit"
  shows "\<exists>w'. fetchFromGateways pf (before @ (plainGateway scheme h port es slash query, a) # rest) target output limit w = (w', None)
    \<and> entryAt (disk (scratch w')) (fsKey (disk (scratch w)) output) = Some (FileEntry bytes)"
proof -
  let ?g = "plainGateway scheme h port es slash query"
  obtain w1 failures1 where loop: "gatewayLoop pf (before @ (?g, a) # rest) target output limit [] w
      = gatewayLoop pf ((?g, a) # rest) target output limit failures1 w1"
    and w1: "publishable gatewayScratchPrefix output (rands a) (disk (scratch w1))" "cwd (disk (scratch w1)) = cwd (disk (scratch w))"
      "\<And>t. hostCoolingDown (authority h port) t (gatewayCooldowns w1) = hostCoolingDown (authority h port) t (gatewayCooldowns w)"
    using gatewayLoop_passes [OF before lim ok] by blast
  have "gatewayCoolingDown ?g (checkedAt a) (gatewayCooldowns w1) = None"
    using awake w1(3) plainGateway_parsed [OF gw(1,3), of slash] by (simp add: gatewayCoolingDown_def)
  moreover have "isOk (gatewayRequest ?g target)" by (simp add: gatewayRequest_plain [OF gw])
  ultimately show ?thesis
    using fetchFromGateway_file [OF _ a w1(1) lim fits, of ?g target pf] loop a(1) fsKey_cwd [OF w1(2)]
    by (auto simp: fetchFromGateways_def calm_def)
qed

section \<open>A sound DAG is stored\<close>

text \<open>
  What \<open>materialise\<close> can write: files that read to their end, under names a file system can hold, with
  no two entries of a directory alike.
\<close>

fun soundNode :: "unode \<Rightarrow> bool"
  and soundEntries :: "(string \<times> unode) list \<Rightarrow> bool" where
  "soundNode (USymlink target) \<longleftrightarrow> False"
| "soundNode (UFile b) \<longleftrightarrow> readErr b = None"
| "soundNode (UDirectory es iterErr) \<longleftrightarrow> iterErr = None \<and> distinct (map fst es) \<and> soundEntries es"
| "soundNode (UOther ty) \<longleftrightarrow> False"
| "soundEntries [] \<longleftrightarrow> True"
| "soundEntries ((name, child) # rest) \<longleftrightarrow> validEntryName name \<and> soundNode child \<and> soundEntries rest"

text \<open>
  What the walk answers for such a DAG: nothing is wrong, or it is too large, and then the size that is
  reported is one more than the limit, whatever the real one is.
\<close>

definition sizeVerdict :: "int64 \<Rightarrow> int64 \<Rightarrow> nat \<Rightarrow> error option" where
  "sizeVerdict limit w n = (if 0 < limit \<and> limit < w + int n then Some (SizeLimitError (limit + 1) limit) else None)"

lemma sizeVerdict_sum:
  "sizeVerdict limit w (a + b)
    = (case sizeVerdict limit w a of Some e \<Rightarrow> Some e | None \<Rightarrow> sizeVerdict limit (w + int a) b)"
  by (auto simp: sizeVerdict_def)

text \<open>What an entry that was written leaves for the entries after it.\<close>

lemma walked_entry:
  assumes "walkOk (fsKey fs path @ [name]) limit w fs P n (fs1, w1, None)"
    and "\<forall>m \<in> ns. m \<noteq> name \<and> entryAt fs (fsKey fs path @ [m]) = None"
  shows "wfTree fs1" "withinLimit limit w1" "w1 = w + int n" "fsKey fs1 path = fsKey fs path"
    and "\<forall>m \<in> ns. entryAt fs1 (fsKey fs path @ [m]) = None"
proof -
  show "wfTree fs1" "withinLimit limit w1" "w1 = w + int n" using assms(1) by (auto simp: walkOk_def extends_def)
  have fr: "sameOutside (fsKey fs path @ [name]) fs fs1" using assms(1) by (simp add: walkOk_def extends_def)
  show "fsKey fs1 path = fsKey fs path" by (rule sameOutside_fsKey [OF fr])
  show "\<forall>m \<in> ns. entryAt fs1 (fsKey fs path @ [m]) = None" using fr assms(2) by (simp add: sameOutside_def underKey_iff)
qed

lemma materialise_verdict:
  "\<lbrakk>soundNode nd; path \<noteq> []; wfTree fs; fsKey fs path = k @ [e]; entryAt fs k = Some DirEntry;
    entryAt fs (k @ [e]) = None; limit < max_int64; withinLimit limit w\<rbrakk>
    \<Longrightarrow> snd (snd (materialise nd path limit w fs)) = sizeVerdict limit w (unodeBytes nd)"
  "\<lbrakk>soundEntries es; distinct (map fst es); iterErr = None; path \<noteq> []; wfTree fs;
    entryAt fs (fsKey fs path) = Some DirEntry; \<forall>n \<in> fst ` set es. entryAt fs (fsKey fs path @ [n]) = None;
    limit < max_int64; withinLimit limit w\<rbrakk>
    \<Longrightarrow> snd (snd (materialiseEntries es iterErr path limit w fs)) = sizeVerdict limit w (entriesBytes es)"
proof (induction nd path limit w fs and es iterErr path limit w fs arbitrary: k e and
    rule: materialise_materialiseEntries.induct)
  case (2 b path limit w fs)
  have "remaining limit w < max_int64" using "2.prems" by (auto simp: remaining_def withinLimit_def)
  from writeLimited_outcome [of fs path k e b, OF _ _ _ _ _ _ this] "2.prems"
  show ?case by (auto simp: sizeLimitWithTotals_def sizeVerdict_def remaining_def withinLimit_def split: if_splits)
next
  case (3 entries iterErr path limit w fs)
  obtain fs1 where mk: "osMkdir path fs = Inr fs1"
    and at: "\<And>q. entryAt fs1 q = (if q = k @ [e] then Some DirEntry else entryAt fs q)"
    using osMkdir_new [of fs path k e] "3.prems" by blast
  have key: "fsKey fs1 path = k @ [e]" using sameOutside_fsKey [OF osMkdir_frame [OF mk]] "3.prems" by simp
  have "entryAt fs (k @ [e, n]) = None" for n
    using "3.prems"(3,6) unfolding wfTree_def by (metis append_assoc append_Cons append_Nil option.distinct(1))
  then have "snd (snd (materialiseEntries entries iterErr path limit w fs1)) = sizeVerdict limit w (entriesBytes entries)"
    using "3.prems" wfTree_osMkdir [OF _ mk] by (intro "3.IH" [OF mk]) (auto simp: at key)
  then show ?case by (simp add: mk)
next
  case (5 iterErr path limit w fs)
  then show ?case by (auto simp: sizeVerdict_def withinLimit_def)
next
  case (6 name child rest iterErr path limit w fs)
  let ?k = "fsKey fs path"
  have name: "validEntryName name" using "6.prems" by simp
  have ck: "fsKey fs (Join path name) = ?k @ [name]" using "6.prems" name by (simp add: fsKey_Join validEntryName_plain)
  obtain fs1 w1 e1 where m: "materialise child (Join path name) limit w fs = (fs1, w1, e1)" by (metis prod_cases3)
  have "snd (snd (materialise child (Join path name) limit w fs)) = sizeVerdict limit w (unodeBytes child)"
    using "6.prems" name ck Join_elem_not_Nil by (intro "6.IH"(1)) auto
  then have e1: "e1 = sizeVerdict limit w (unodeBytes child)" by (simp add: m)
  have walk: "walkOk (?k @ [name]) limit w fs (stored child (?k @ [name])) (unodeBytes child) (fs1, w1, e1)"
    using materialise_correct(1) [of "Join path name" fs limit w child] "6.prems" Join_elem_not_Nil m ck by simp
  then have ex: "extends (?k @ [name]) fs w fs1 w1" by (simp add: walkOk_def)
  show ?case
  proof (cases e1)
    case None
    have "\<forall>m \<in> fst ` set rest. m \<noteq> name \<and> entryAt fs (?k @ [m]) = None" using "6.prems" by auto
    note after = walked_entry [OF walk [unfolded None] this]
    have "snd (snd (materialiseEntries rest iterErr path limit w1 fs1)) = sizeVerdict limit w1 (entriesBytes rest)"
      using "6.prems" after extends_entry [OF ex]
      by (intro "6.IH"(2) [OF _ m [symmetric] refl None]) (auto simp: name)
    then show ?thesis using name m None e1 after(3) by (simp add: sizeVerdict_sum)
  next
    case (Some x)
    then show ?thesis using name m e1 by (simp add: sizeVerdict_sum)
  qed
qed auto

lemma stageDag_verdict:
  assumes "soundNode nd" and "properDir dir" "wfTree fs" "entryAt fs (fsKey fs dir) = Some DirEntry"
    and "\<And>e. entryAt fs (fsKey fs dir @ [e]) = None" and "limit < max_int64"
  shows "\<exists>fs'. stageDag nd limit dir fs = (fs',
    case sizeVerdict limit 0 (unodeBytes nd) of Some e \<Rightarrow> Inl e | None \<Rightarrow> Inr (Join dir ''data''))"
proof -
  note d = properDir_stack(1) [OF assms(2)]
  obtain fs' w e where m: "materialise nd (Join dir ''data'') limit 0 fs = (fs', w, e)" by (metis prod_cases3)
  have "snd (snd (materialise nd (Join dir ''data'') limit 0 fs)) = sizeVerdict limit 0 (unodeBytes nd)"
    using assms(4,5) by (intro materialise_verdict(1) [OF assms(1) Join_elem_not_Nil [OF d] assms(3) fsKey_Join [OF d plainElem_data] _ _ assms(6)])
      (simp_all add: withinLimit_def)
  then show ?thesis using m by (auto simp: stageDag_def Let_def split: option.split)
qed

text \<open>Everything \<open>download\<close> can answer for a sound DAG.\<close>

lemma download_verdict:
  assumes "publishable scratchPrefix output rnds (disk s)" and "limit < max_int64"
    and "rootErr dag = None" and "unixfs dag = Inr nd" and "soundNode nd" and "declaredSize dag = Inr n"
  shows "\<exists>s' err. download dag CtxLive Inr rnds output limit s = (s', err)
    \<and> err = (if 0 < limit \<and> limit < n then Some (SizeLimitError n limit)
             else if 0 < limit \<and> limit < int (unodeBytes nd) then Some (SizeLimitError (limit + 1) limit)
             else None)
    \<and> (err = None \<longrightarrow> stored nd (fsKey (disk s) output) (disk s'))
    \<and> (err \<noteq> None \<longrightarrow> (\<forall>z. entryAt (disk s') (fsKey (disk s) output @ z) = entryAt (disk s) (fsKey (disk s) output @ z)))"
proof (cases "sizeHint limit (declaredSize dag)")
  case (Some e)
  then have "e = SizeLimitError n limit" "0 < limit \<and> limit < n" using assms(6) by (auto simp: sizeHint_def split: if_splits)
  then show ?thesis using Some assms(3,4) by (simp add: download_def)
next
  case None
  then have hint: "\<not> (0 < limit \<and> limit < n)" using assms(6) by (simp add: sizeHint_def split: if_splits)
  have dl: "download dag CtxLive Inr rnds output limit s
      = publishVia scratchPrefix CtxLive Inr rnds (stageDag nd limit) output s"
    using None assms(3,4) by (simp add: download_def)
  note verdict = stageDag_verdict [OF assms(5) _ _ _ _ assms(2)]
  show ?thesis
  proof (cases "sizeVerdict limit 0 (unodeBytes nd)")
    case None: None
    have "\<exists>s'. publishVia scratchPrefix CtxLive Inr rnds (stageDag nd limit) output s = (s', None)"
    proof (rule dag_content.publishVia_succeeds [OF assms(1,2)])
      fix dir fs
      assume d: "properDir dir" "wfTree fs" "entryAt fs (fsKey fs dir) = Some DirEntry" "\<And>e. entryAt fs (fsKey fs dir @ [e]) = None"
      obtain fs' where run: "stageDag nd limit dir fs = (fs', Inr (Join dir ''data''))"
        using verdict [OF d] None by auto
      then show "\<exists>fs' staged. stageDag nd limit dir fs = (fs', Inr staged)" by blast
    qed
    then obtain s' where s': "download dag CtxLive Inr rnds output limit s = (s', None)" using dl by auto
    have "downloadable scratchPrefix output rnds (disk s)" using assms(1) by (simp add: publishable_def)
    from download_effect [OF this assms(2) quietLock_Inr s'] show ?thesis
      using s' hint None assms(4) by (auto simp: sizeVerdict_def split: if_splits)
  next
    case (Some e)
    have "\<exists>s'. publishVia scratchPrefix CtxLive Inr rnds (stageDag nd limit) output s = (s', Some e)
        \<and> (\<forall>z. entryAt (disk s') (fsKey (disk s) output @ z) = entryAt (disk s) (fsKey (disk s) output @ z))"
      using verdict by (intro dag_content.publishVia_refused [OF assms(1,2)]) (simp add: Some)
    then show ?thesis using dl hint Some by (auto simp: sizeVerdict_def split: if_splits)
  qed
qed

text \<open>
  A DAG that cannot be stored is refused before the output is touched, whatever the context and the lock.
\<close>

lemma download_unstorable:
  assumes "downloadable scratchPrefix output rnds (disk s)" and "limit < max_int64"
    and "unixfs dag = Inr nd" and "\<And>k fs. \<not> stored nd k fs" and "download dag ctx lock rnds output limit s = (s', err)"
  shows "err \<noteq> None \<and> (\<forall>k. elsewhere scratchPrefix output (disk s) k \<or> underKey (fsKey (disk s) output) k
    \<longrightarrow> entryAt (disk s') k = entryAt (disk s) k)"
proof -
  let ?claim = "claimScratch (Dir output) scratchPrefix rnds (sweepScratchPrefix (Dir output) scratchPrefix s)"
  consider (early) "s' = s" "err \<noteq> None"
    | (published) "publishVia scratchPrefix ctx lock rnds (stageDag nd limit) output s = (s', err)"
  proof -
    have "(s' = s \<and> err \<noteq> None) \<or> (\<exists>nd. unixfs dag = Inr nd \<and> sizeHint limit (declaredSize dag) = None
        \<and> publishVia scratchPrefix ctx lock rnds (stageDag nd limit) output s = (s', err))"
      using assms(5) by (auto simp: download_def split: option.splits sum.splits)
    then show ?thesis using early published assms(3) by auto
  qed
  then show ?thesis
  proof cases
    case published
    note kept = swept_disk(1) [OF assms(1)]
    show ?thesis
    proof (cases ?claim)
      case (Inl e)
      then show ?thesis using published kept by (auto simp: publishVia_def Let_def)
    next
      case (Inr cl)
      obtain scratch s2 where claim: "?claim = Inr (scratch, s2)" using Inr by (cases cl) auto
      note c = claim_effect [OF assms(1) refl claim]
      obtain fs3 st where stg: "stageDag nd limit scratch (disk s2) = (fs3, st)" by (cases "stageDag nd limit scratch (disk s2)")
      then obtain e where st: "st = Inl e"
        using stageDag_stored [OF _ c(1) assms(2) c(3)] assms(4) by (cases st) blast+
      show ?thesis
        using published claim stg st dag_content.stage_error [OF assms(1,2) claim stg [unfolded st]] kept
        by (auto simp: publishVia_def Let_def)
    qed
  qed simp
qed

text \<open>
  C6. The verified path delivers every DAG it can. For a DAG of files and directories that read to their
  end, with names a file system can hold, a free staging name, the directory of the output in place and
  nobody interfering, \<open>download\<close> succeeds - replacing whatever was at the output by that tree - exactly
  when neither the size its author wrote down nor the bytes it really holds exceed the limit. Otherwise
  it fails with a size limit error, the output as it was: the one for the declared size gives that size,
  the one for the real size always gives one byte more than the limit.
\<close>

theorem download_outcome:
  assumes "publishable scratchPrefix output rnds (disk s)" and "limit < max_int64"
    and "rootErr dag = None" and "unixfs dag = Inr nd" and "soundNode nd" and "declaredSize dag = Inr n"
  shows "\<exists>s' err. download dag CtxLive Inr rnds output limit s = (s', err)
    \<and> err = (if 0 < limit \<and> limit < n then Some (SizeLimitError n limit)
             else if 0 < limit \<and> limit < int (unodeBytes nd) then Some (SizeLimitError (limit + 1) limit)
             else None)
    \<and> (err = None \<longrightarrow> stored nd (fsKey (disk s) output) (disk s'))
    \<and> (err \<noteq> None \<longrightarrow> (\<forall>z. entryAt (disk s') (fsKey (disk s) output @ z) = entryAt (disk s) (fsKey (disk s) output @ z)))"
  using assms by (rule download_verdict)

lemma dataDisk_publishable: "publishable scratchPrefix ''/d/out'' [''1''] dataDisk"
  "publishable gatewayScratchPrefix ''/d/out'' [''1''] dataDisk"
  using dataDisk_downloadable dataDisk_gateway
  by (simp_all add: publishable_def sampleKeys Dir_sample)
     (simp_all add: dataDisk_def entryAt_def scratchPrefix_def gatewayScratchPrefix_def)

theorem download_outcome_witness:
  "\<exists>s'. download \<lparr>rootErr = None, unixfs = Inr (UFile \<lparr>avail = ''abcdef'', readErr = None\<rparr>), declaredSize = Inr 2\<rparr>
       CtxLive Inr [''1''] ''/d/out'' 4 \<lparr>staging = {}, disk = dataDisk\<rparr> = (s', Some (SizeLimitError 5 4))
     \<and> entryAt (disk s') [''d'', ''out''] = Some (FileEntry ''old'')"
proof -
  let ?dag = "\<lparr>rootErr = None, unixfs = Inr (UFile \<lparr>avail = ''abcdef'', readErr = None\<rparr>), declaredSize = Inr 2\<rparr>"
  have pub: "publishable scratchPrefix ''/d/out'' [''1''] (disk \<lparr>staging = {}, disk = dataDisk\<rparr>)"
    using dataDisk_publishable by simp
  have old: "entryAt dataDisk [''d'', ''out''] = Some (FileEntry ''old'')" by (simp add: dataDisk_def entryAt_def)
  obtain s' where "download ?dag CtxLive Inr [''1''] ''/d/out'' 4 \<lparr>staging = {}, disk = dataDisk\<rparr> = (s', Some (SizeLimitError 5 4))"
    and "\<And>z. entryAt (disk s') ([''d'', ''out''] @ z) = entryAt dataDisk ([''d'', ''out''] @ z)"
    using download_outcome [OF pub, of 4 ?dag _ 2] by (auto simp: sampleKeys)
  from this(1) this(2) [of "[]"] old show ?thesis by simp
qed

section \<open>A whole Get\<close>

text \<open>
  C11. The fallback gets there. When the primary phase has failed with an error another source might not
  share, the fallback is allowed and the client and the caller are still there, \<open>Get\<close> succeeds as soon
  as one of the gateways, in order, answers with an archive of a single file within the limit. Each of
  the gateways before it may be in its cooldown, fail to answer, answer with any status but 200 - if it
  is one that throttles, then of another host -, send something that is not a tar archive, or an archive
  that is refused for anything but its size (\<open>passedOver\<close>); what such an attempt leaves on disk does not
  stop the next. An earlier archive that is taken, or too large, ends the run and is not covered. The
  gateways after it do not matter. The output is then that file.
\<close>

theorem Get_fallback_delivers:
  assumes "parsedCid g = Inr target" and "getPrimary (primary g) (primaryDeadline c (timeLeft g)) w = (w1, Some e)"
    and "fallbackRuns c g (Some e)"
    and "attemptsOf c g = before @ (plainGateway scheme h port es slash query, a) # rest"
    and "gatewayParts scheme h port es" and "urlElem target" and "queryText query"
    and "list_all (passedOver limit (authority h port) target) before"
    and "hostCoolingDown (authority h port) (checkedAt a) (gatewayCooldowns w1) = None"
    and "calm a" and "sendsFile name bytes a" and "plainElem name"
    and "publishable gatewayScratchPrefix output (rands a) (disk (scratch w1))"
    and "limit < max_int64" and "0 < limit \<longrightarrow> int (length bytes) \<le> limit"
  shows "\<exists>w'. Get pf c g cidStr output limit w = (w', None)
    \<and> entryAt (disk (scratch w')) (fsKey (disk (scratch w1)) output) = Some (FileEntry bytes)"
  using fetchFromGateways_file [OF assms(5-15), of pf slash rest] assms(3)
  by (auto simp: Get_after_primary [OF assms(1,2)] assms(4) fallbackRuns_def fallbackAvailable_def)

definition fileAttempt :: attempt where
  "fileAttempt = plainAttempt\<lparr>response := Inr (tarResponse\<lparr>Archive := oneFile ''bafy'' ''hello''\<rparr>)\<rparr>"

definition busyAnswer :: attempt where
  "busyAnswer = plainAttempt\<lparr>response := Inr (tarResponse\<lparr>StatusCode := 503\<rparr>)\<rparr>"

text \<open>An archive that breaks off before its first entry.\<close>

definition cutAnswer :: attempt where
  "cutAnswer = plainAttempt\<lparr>response := Inr (tarResponse\<lparr>Archive := \<lparr>headers = [], nextErr = Some (Errorf ''unexpected EOF'' [])\<rparr>\<rparr>)\<rparr>"

definition fallbackRun :: getRun where
  "fallbackRun = \<lparr>parsedCid = Inr ''bafy'', timeLeft = None,
     primary = \<lambda>budget s. (s, ResultReady (Some (Errorf ''no peers'' [])) CtxLive),
     ctxAfterPrimary = CtxLive, closedAfterPrimary = False,
     attempts = \<lambda>i. if i = 0 then busyAnswer else if i = 1 then cutAnswer else fileAttempt\<rparr>"

lemma passed_sample:
  "passedOver 5 ''g'' ''bafy'' (''https://busy'', busyAnswer)" "passedOver 5 ''g'' ''bafy'' (''https://cut'', cutAnswer)"
proof -
  have "map_sum (\<lambda>e. ()) Host (gatewayRequest ''https://busy'' ''bafy'') = Inr ''busy''"
    "map_sum (\<lambda>e. ()) Host (gatewayRequest ''https://cut'' ''bafy'') = Inr ''cut''" by code_simp+
  moreover have "refusedArchive 5 \<lparr>headers = [], nextErr = Some (Errorf ''unexpected EOF'' [])\<rparr>"
    by (simp add: refusedArchive_def stageTar_def extractTar_def)
  ultimately show "passedOver 5 ''g'' ''bafy'' (''https://busy'', busyAnswer)" "passedOver 5 ''g'' ''bafy'' (''https://cut'', cutAnswer)"
    by (cases "gatewayRequest ''https://busy'' ''bafy''"; cases "gatewayRequest ''https://cut'' ''bafy''";
        simp add: passedOver_def plainAttempt_def busyAnswer_def cutAnswer_def tarResponse_def)+
qed

theorem Get_fallback_delivers_witness:
  "\<exists>w'. Get plainPlatform (fallbackClient\<lparr>gateways := [''https://busy'', ''https://cut'', ''https://g'', ''https://later'']\<rparr>) fallbackRun
        ''bafy'' ''/d/out'' 5 plainWorld = (w', None)
     \<and> entryAt (disk (scratch w')) [''d'', ''out''] = Some (FileEntry ''hello'')"
proof -
  let ?c = "fallbackClient\<lparr>gateways := [''https://busy'', ''https://cut'', ''https://g'', ''https://later'']\<rparr>"
  have before: "list_all (passedOver 5 (authority ''g'' []) ''bafy'') [(''https://busy'', busyAnswer), (''https://cut'', cutAnswer)]"
    using passed_sample by (simp add: sampleGateway(5))
  have split: "attemptsOf ?c fallbackRun = [(''https://busy'', busyAnswer), (''https://cut'', cutAnswer)]
      @ (plainGateway ''https'' ''g'' [] [] False [], fileAttempt) # [(''https://later'', fileAttempt)]"
    by (simp add: attemptsOf_def fallbackRun_def sampleGateway(4))
  have p: "getPrimary (primary fallbackRun) (primaryDeadline ?c (timeLeft fallbackRun)) plainWorld
      = (plainWorld, Some (Errorf ''no peers'' []))"
    by (simp add: fallbackRun_def getPrimary_def plainWorld_def)
  have runs: "fallbackRuns ?c fallbackRun (Some (Errorf ''no peers'' []))"
    by (simp add: fallbackRuns_def fallbackRun_def fallbackClient_def conclusive_def)
  have awake: "hostCoolingDown (authority ''g'' []) (checkedAt fileAttempt) (gatewayCooldowns plainWorld) = None"
    by (simp add: hostCoolingDown_def plainWorld_def)
  have a: "calm fileAttempt" "sendsFile ''bafy'' ''hello'' fileAttempt" "plainElem ''bafy''"
    by (simp_all add: calm_def sendsFile_def fileAttempt_def plainAttempt_def tarResponse_def HasPrefix_def plainElem_def)
  have pub: "publishable gatewayScratchPrefix ''/d/out'' (rands fileAttempt) (disk (scratch plainWorld))"
    using dataDisk_publishable by (simp add: fileAttempt_def plainAttempt_def plainWorld_def)
  have parsed: "parsedCid fallbackRun = Inr ''bafy''" by (simp add: fallbackRun_def)
  from Get_fallback_delivers [OF parsed p runs split sampleGateway(1-3) before awake a pub] show ?thesis
    by (simp add: sampleKeys)
qed

text \<open>
  C10. The verified way gets there, and is enough. When a node is there and the DAG it fetches is sound,
  \<open>Get\<close> ends with what \<open>download\<close> made of it, whatever the context says by the time the result is looked
  at and whatever the gateways would answer: with the tree at the output if the declared and the real
  size are within the limit, else with the bare size limit error and the output as it was. No gateway is
  asked, so the cooldowns are as they were.
\<close>

theorem Get_verified_delivers:
  assumes "parsedCid g = Inr target"
    and "\<And>budget s. primary g budget s
      = map_prod id (\<lambda>r. if raced then CtxDone ctx (Some r) else ResultReady r ctx)
          (primaryGoroutine (Inr n) (\<lambda>n. download (dagAt n) CtxLive Inr rnds output limit) s)"
    and "rootErr (dagAt n) = None" and "unixfs (dagAt n) = Inr nd" and "soundNode nd"
    and "declaredSize (dagAt n) = Inr declared"
    and "publishable scratchPrefix output rnds (disk (scratch w))" and "limit < max_int64"
  shows "\<exists>w' err. Get pf c g cidStr output limit w = (w', err) \<and> gatewayCooldowns w' = gatewayCooldowns w
    \<and> err = (if 0 < limit \<and> limit < declared then Some (SizeLimitError declared limit)
             else if 0 < limit \<and> limit < int (unodeBytes nd) then Some (SizeLimitError (limit + 1) limit)
             else None)
    \<and> (err = None \<longrightarrow> stored nd (fsKey (disk (scratch w)) output) (disk (scratch w')))
    \<and> (err \<noteq> None \<longrightarrow> (\<forall>z. entryAt (disk (scratch w')) (fsKey (disk (scratch w)) output @ z)
          = entryAt (disk (scratch w)) (fsKey (disk (scratch w)) output @ z)))"
proof -
  obtain s' err where d: "download (dagAt n) CtxLive Inr rnds output limit (scratch w) = (s', err)"
    and e: "err = (if 0 < limit \<and> limit < declared then Some (SizeLimitError declared limit)
             else if 0 < limit \<and> limit < int (unodeBytes nd) then Some (SizeLimitError (limit + 1) limit)
             else None)"
    and rest: "err = None \<longrightarrow> stored nd (fsKey (disk (scratch w)) output) (disk s')"
      "err \<noteq> None \<longrightarrow> (\<forall>z. entryAt (disk s') (fsKey (disk (scratch w)) output @ z)
          = entryAt (disk (scratch w)) (fsKey (disk (scratch w)) output @ z))"
    using download_verdict [OF assms(7,8,3-6)] by (elim exE conjE) (rule that; assumption)
  have sel: "awaitDownload (if raced then CtxDone ctx (Some err) else ResultReady err ctx) = err"
    by (auto simp: e conclusive_def)
  then have p: "getPrimary (primary g) b w = (w\<lparr>scratch := s'\<rparr>, err)" for b
    using d by (simp add: getPrimary_def assms(2) primaryGoroutine_def)
  have "Get pf c g cidStr output limit w = (w\<lparr>scratch := s'\<rparr>, err)"
  proof (cases err)
    case None
    then show ?thesis using assms(1) p by (simp add: Get_def)
  next
    case (Some x)
    then have "conclusive x" using e by (auto simp: conclusive_def split: if_splits)
    then show ?thesis using Get_after_primary [OF assms(1) p [unfolded Some]] Some by simp
  qed
  then show ?thesis using e rest by simp
qed

text \<open>A small directory, and a run whose result is there when the caller's deadline has just passed.\<close>

definition smallTree :: dagAnswer where
  "smallTree = \<lparr>rootErr = None,
     unixfs = Inr (UDirectory [(''a'', UFile \<lparr>avail = ''hi'', readErr = None\<rparr>), (''b'', UFile \<lparr>avail = ''you'', readErr = None\<rparr>)] None),
     declaredSize = Inr 5\<rparr>"

definition racedRun :: getRun where
  "racedRun = fallbackRun\<lparr>primary := \<lambda>budget s.
     map_prod id (\<lambda>r. if True then CtxDone DeadlineExceeded (Some r) else ResultReady r DeadlineExceeded)
       (primaryGoroutine (Inr smallTree) (\<lambda>n. download n CtxLive Inr [''1''] ''/d/out'' 5) s)\<rparr>"

theorem Get_verified_delivers_witness:
  "\<exists>w'. Get plainPlatform fallbackClient racedRun ''bafy'' ''/d/out'' 5 plainWorld = (w', None)
     \<and> entryAt (disk (scratch w')) [''d'', ''out'', ''b''] = Some (FileEntry ''you'')"
proof -
  let ?nd = "UDirectory [(''a'', UFile \<lparr>avail = ''hi'', readErr = None\<rparr>), (''b'', UFile \<lparr>avail = ''you'', readErr = None\<rparr>)] None"
  have run: "parsedCid racedRun = Inr ''bafy''"
    "\<And>budget s. primary racedRun budget s
      = map_prod id (\<lambda>r. if True then CtxDone DeadlineExceeded (Some r) else ResultReady r DeadlineExceeded)
          (primaryGoroutine (Inr smallTree) (\<lambda>n. download n CtxLive Inr [''1''] ''/d/out'' 5) s)"
    by (simp_all add: racedRun_def fallbackRun_def)
  have dag: "rootErr smallTree = None" "unixfs smallTree = Inr ?nd" "soundNode ?nd" "declaredSize smallTree = Inr 5"
    by (simp_all add: smallTree_def validEntryName_def)
  have pub: "publishable scratchPrefix ''/d/out'' [''1''] (disk (scratch plainWorld))"
    using dataDisk_publishable by (simp add: plainWorld_def)
  from Get_verified_delivers [where dagAt = "\<lambda>n. n" and pf = plainPlatform and c = fallbackClient and cidStr = "''bafy''", OF run dag pub]
  show ?thesis by (auto simp: sampleKeys)
qed

end
