(* ===== verification/Test_Gateways.thy ===== *)
theory Test_Gateways
  imports Delivery "HOL-Library.Word"
begin

text \<open>
  The HTTP gateways of \<open>internal/testpeer/testpeer.go\<close> that the client's tests run against: a
  trustless one, which answers block requests only, and one that serves whole content as a tar archive
  only. A handler is a function of the request and of its counter, as \<open>http.HandlerFunc\<close> is called for
  the paths under \<open>/ipfs/\<close>.
\<close>

section \<open>Requests and answers\<close>

text \<open>The parts of a request the handlers look at; an absent header is the empty text.\<close>

record httpRequest =
  reqURL :: URL
  Accept :: string

datatype httpBody = TextBody string | TarBody tarArchive

record httpAnswer =
  answerCode :: nat
  answerType :: string
  answerBody :: httpBody

text \<open>\<open>http.Error\<close>, and an answer that is written without setting a status.\<close>

definition http_Error :: "string \<Rightarrow> nat \<Rightarrow> httpAnswer" where
  "http_Error msg code =
     \<lparr>answerCode = code, answerType = ''text/plain; charset=utf-8'', answerBody = TextBody (msg @ [CHR 0x0A])\<rparr>"

definition written :: "string \<Rightarrow> httpBody \<Rightarrow> httpAnswer" where
  "written ty b = \<lparr>answerCode = 200, answerType = ty, answerBody = b\<rparr>"

text \<open>The \<open>atomic.Int32\<close> a fixture hands to its test.\<close>

type_synonym counter = "32 word"

section \<open>ServeTrustlessGateway\<close>

definition asksForBlock :: "httpRequest \<Rightarrow> bool" where
  "asksForBlock r \<longleftrightarrow>
     Values_Get (url_Query (reqURL r)) ''format'' = ''raw'' \<or> Contains (Accept r) ''application/vnd.ipld.raw''"

text \<open>
  \<open>cid.Parse\<close>, the content of an identity CID and the block store are arguments; \<open>store.Get\<close> may fail.
\<close>

definition ServeTrustlessGateway :: "(string \<Rightarrow> error + 'c) \<Rightarrow> ('c \<Rightarrow> string option) \<Rightarrow> ('c \<Rightarrow> error + string)
    \<Rightarrow> httpRequest \<Rightarrow> counter \<Rightarrow> httpAnswer \<times> counter" where
  "ServeTrustlessGateway cidParse identityDigest store r blockRequests =
     (let requested = TrimPrefix (Path (reqURL r)) ''/ipfs/'' in
      case cidParse requested of
        Inl e \<Rightarrow> (http_Error ''bad cid'' 400, blockRequests)
      | Inr parsed \<Rightarrow>
          (case identityDigest parsed of
             Some digest \<Rightarrow> (written ''application/vnd.ipld.raw'' (TextBody digest), blockRequests)
           | None \<Rightarrow>
               (case store parsed of
                  Inl e \<Rightarrow> (http_Error ''not found'' 404, blockRequests)
                | Inr block \<Rightarrow>
                    if asksForBlock r then
                      (written ''application/vnd.ipld.raw'' (TextBody block), blockRequests + 1)
                    else (http_Error ''only raw blocks served here'' 406, blockRequests))))"

section \<open>ServeWholeFileGateway\<close>

text \<open>
  What a \<open>tar.Reader\<close> finds in what the handler's \<open>tar.Writer\<close> wrote: the one entry, or none when
  \<open>WriteHeader\<close> refuses the name, which for a regular file is one that ends in a slash, and for any entry
  one that holds a zero byte.
\<close>

definition tarWritten :: "string \<Rightarrow> string \<Rightarrow> tarArchive" where
  "tarWritten name bytes =
     (if HasPrefix (rev name) ''/'' \<or> CHR 0x00 \<in> set name then \<lparr>headers = [], nextErr = None\<rparr>
      else \<lparr>headers = [\<lparr>Name = name, Typeflag = TypeReg, content = \<lparr>avail = bytes, readErr = None\<rparr>\<rparr>],
        nextErr = None\<rparr>)"

definition ServeWholeFileGateway :: "string \<Rightarrow> string \<Rightarrow> httpRequest \<Rightarrow> counter \<Rightarrow> httpAnswer \<times> counter" where
  "ServeWholeFileGateway root servedBody r requests =
     (if asksForBlock r then (http_Error ''no trustless support'' 406, requests)
      else if TrimPrefix (Path (reqURL r)) ''/ipfs/'' \<noteq> root then (http_Error ''not found'' 404, requests)
      else (written ''application/x-tar'' (TarBody (tarWritten root servedBody)), requests + 1))"

section \<open>What the fallback gets from them\<close>

text \<open>
  The server listens at the root of a host and a port, \<open>gateway\<close> is its URL, and the request is the one
  \<open>fetchFromGateway\<close> makes. \<open>readTar\<close> is what \<open>archive/tar\<close> makes of text that is not an archive.
\<close>

definition serverURL :: "string \<Rightarrow> string \<Rightarrow> string" where
  "serverURL h port = plainGateway ''http'' h port [] False []"

definition fallbackRequest :: "string \<Rightarrow> string \<Rightarrow> error + httpRequest" where
  "fallbackRequest gateway target =
     map_sum id (\<lambda>url. \<lparr>reqURL = url, Accept = ''application/x-tar''\<rparr>) (gatewayRequest gateway target)"

definition received :: "(string \<Rightarrow> tarArchive) \<Rightarrow> httpAnswer \<Rightarrow> httpResponse" where
  "received readTar ans =
     \<lparr>StatusCode = answerCode ans, RetryAfter = [], ContentType = answerType ans,
      Archive = (case answerBody ans of TarBody archive \<Rightarrow> archive | TextBody s \<Rightarrow> readTar s)\<rparr>"

text \<open>The attempt's answer is what the handler says to the attempt's request.\<close>

definition answeredBy :: "(httpRequest \<Rightarrow> counter \<Rightarrow> httpAnswer \<times> counter) \<Rightarrow> (string \<Rightarrow> tarArchive) \<Rightarrow> counter
    \<Rightarrow> string \<Rightarrow> string \<Rightarrow> attempt \<Rightarrow> bool" where
  "answeredBy handler readTar n gateway target a \<longleftrightarrow>
     (\<exists>r. fallbackRequest gateway target = Inr r \<and> response a = Inr (received readTar (fst (handler r n))))"

definition serverParts :: "string \<Rightarrow> string \<Rightarrow> bool" where
  "serverParts h port \<longleftrightarrow> hostText h \<and> list_all isDigit port"

lemma fallbackRequest_server:
  assumes "serverParts h port" and "urlElem target"
  obtains r where "fallbackRequest (serverURL h port) target = Inr r" and "\<not> asksForBlock r"
    and "TrimPrefix (Path (reqURL r)) ''/ipfs/'' = target" and "isOk (gatewayRequest (serverURL h port) target)"
proof -
  have "schemeText ''http''" and q: "queryText []" by code_simp+
  then have gw: "gatewayParts ''http'' h port []" "queryText []"
    using assms(1) by (simp_all add: gatewayParts_def serverParts_def)
  note req = gatewayRequest_plain [OF gw(1) assms(2) gw(2), of False]
  let ?u = "partsOf ''http'' h port (''/ipfs/'' @ target) ''format=tar''"
  have u: "gatewayRequest (serverURL h port) target = Inr ?u" using req by (simp add: serverURL_def)
  have "Values_Get (url_Query ?u) ''format'' = ''tar''"
  proof -
    have "Values_Get (List.map_filter queryPair (splitChar CHR ''&'' ''format=tar'')) ''format'' = ''tar''" by code_simp
    then show ?thesis by (simp add: url_Query_def)
  qed
  moreover have "\<not> Contains ''application/x-tar'' ''application/vnd.ipld.raw''" by code_simp
  ultimately have "\<not> asksForBlock \<lparr>reqURL = ?u, Accept = ''application/x-tar''\<rparr>" by (simp add: asksForBlock_def)
  then show ?thesis
    using that u by (simp add: fallbackRequest_def TrimPrefix_def HasPrefix_def)
qed

section \<open>Properties\<close>

lemma tarWritten_root: "urlElem root \<Longrightarrow> tarWritten root bytes = oneFile root bytes"
proof -
  assume "urlElem root"
  then have "CHR ''/'' \<notin> set (rev root)" "rev root \<noteq> []" "list_all nameChar root"
    using urlElem_no_slash by (auto simp: urlElem_def plainElem_def)
  moreover have "\<not> nameChar CHR 0x00" by code_simp
  ultimately have "\<not> HasPrefix (rev root) ''/''" "CHR 0x00 \<notin> set root"
    by (cases "rev root"; auto simp: HasPrefix_def list_all_iff)+
  then show ?thesis by (simp add: tarWritten_def oneFile_def)
qed

text \<open>
  Unverified content is trusted. Against a gateway that serves content whole and refuses block
  requests, the fallback's request for the CID it serves succeeds with whatever bytes the gateway has,
  whether or not they are what the CID stands for, and counts as one request; for any other CID the
  attempt ends with status 404, changes neither the disk nor the cooldowns and is not counted.
\<close>

theorem whole_file_gateway_trusted:
  assumes "serverParts h port" and "urlElem target" and "urlElem root"
    and "answeredBy (ServeWholeFileGateway root servedBody) readTar n (serverURL h port) target a"
    and "calm a" and "publishable gatewayScratchPrefix output (rands a) (disk (scratch w))"
    and "limit < max_int64" and "0 < limit \<longrightarrow> int (length servedBody) \<le> limit"
  shows "\<exists>w' err r. fetchFromGateway pf a (serverURL h port) target output limit w = (w', err)
    \<and> fallbackRequest (serverURL h port) target = Inr r
    \<and> (target = root \<longrightarrow> err = None \<and> snd (ServeWholeFileGateway root servedBody r n) = n + 1
        \<and> entryAt (disk (scratch w')) (fsKey (disk (scratch w)) output) = Some (FileEntry servedBody))
    \<and> (target \<noteq> root \<longrightarrow> w' = w \<and> err = Some (Errorf ''http %d'' [showInt 404])
        \<and> snd (ServeWholeFileGateway root servedBody r n) = n)"
proof -
  obtain r where r: "fallbackRequest (serverURL h port) target = Inr r" "\<not> asksForBlock r"
    "TrimPrefix (Path (reqURL r)) ''/ipfs/'' = target" "isOk (gatewayRequest (serverURL h port) target)"
    by (rule fallbackRequest_server [OF assms(1,2)])
  have resp: "response a = Inr (received readTar (fst (ServeWholeFileGateway root servedBody r n)))"
    using assms(4) r(1) by (auto simp: answeredBy_def)
  show ?thesis
  proof (cases "target = root")
    case True
    have "sendsFile root servedBody a"
      using resp r(2,3) True tarWritten_root [OF assms(3)]
      by (auto simp: sendsFile_def ServeWholeFileGateway_def received_def written_def HasPrefix_def)
    moreover have "plainElem root" using assms(3) by (simp add: urlElem_def)
    ultimately show ?thesis
      using fetchFromGateway_file [OF r(4) assms(5) _ _ assms(6-8), of root pf] r True
      by (auto simp: ServeWholeFileGateway_def)
  next
    case False
    then show ?thesis
      using resp r by (cases "gatewayRequest (serverURL h port) target")
        (auto simp: fetchFromGateway_def ServeWholeFileGateway_def received_def http_Error_def throttled_def)
  qed
qed

text \<open>
  A trustless gateway is no fallback. Whatever blocks it stores, and even for an identity CID whose
  content it could send, a gateway that answers block requests only never completes the fallback's
  attempt: the attempt fails, changes neither the disk nor the cooldowns and is not counted as a block
  request. Asked for a stored block, it sends it and counts the request.
\<close>

theorem trustless_gateway_serves_blocks_only:
  assumes "serverParts h port" and "urlElem target"
    and "answeredBy (ServeTrustlessGateway cidParse identityDigest store) readTar n (serverURL h port) target a"
  shows "\<exists>err r. fetchFromGateway pf a (serverURL h port) target output limit w = (w, Some err)
    \<and> fallbackRequest (serverURL h port) target = Inr r
    \<and> snd (ServeTrustlessGateway cidParse identityDigest store r n) = n
    \<and> (\<forall>c block. cidParse target = Inr c \<and> identityDigest c = None \<and> store c = Inr block \<longrightarrow>
          ServeTrustlessGateway cidParse identityDigest store (r\<lparr>Accept := ''application/vnd.ipld.raw''\<rparr>) n
          = (written ''application/vnd.ipld.raw'' (TextBody block), n + 1))"
proof -
  obtain r where r: "fallbackRequest (serverURL h port) target = Inr r" "\<not> asksForBlock r"
    "TrimPrefix (Path (reqURL r)) ''/ipfs/'' = target" "isOk (gatewayRequest (serverURL h port) target)"
    by (rule fallbackRequest_server [OF assms(1,2)])
  let ?serve = "ServeTrustlessGateway cidParse identityDigest store"
  have resp: "response a = Inr (received readTar (fst (?serve r n)))"
    using assms(3) r(1) by (auto simp: answeredBy_def)
  have "answerCode (fst (?serve r n)) \<in> {400, 404, 406}
      \<or> answerCode (fst (?serve r n)) = 200 \<and> answerType (fst (?serve r n)) = ''application/vnd.ipld.raw''"
    using r(2,3) by (auto simp: ServeTrustlessGateway_def Let_def http_Error_def written_def split: sum.split option.split)
  moreover have "\<not> HasPrefix ''application/vnd.ipld.raw'' ''application/x-tar''" by code_simp
  ultimately have "\<exists>err. fetchFromGateway pf a (serverURL h port) target output limit w = (w, Some err)"
    using resp r(4) by (cases "gatewayRequest (serverURL h port) target")
      (auto simp: fetchFromGateway_def received_def throttled_def)
  moreover have "snd (?serve r n) = n"
    using r(2,3) by (simp add: ServeTrustlessGateway_def Let_def split: sum.split option.split)
  moreover have "asksForBlock (r\<lparr>Accept := ''application/vnd.ipld.raw''\<rparr>)"
  proof -
    have "Contains ''application/vnd.ipld.raw'' ''application/vnd.ipld.raw''" by code_simp
    then show ?thesis by (simp add: asksForBlock_def)
  qed
  ultimately show ?thesis using r(1,3) by (auto simp: ServeTrustlessGateway_def Let_def)
qed

section \<open>Samples\<close>

definition attemptAt :: "(httpRequest \<Rightarrow> counter \<Rightarrow> httpAnswer \<times> counter) \<Rightarrow> string \<Rightarrow> string \<Rightarrow> attempt" where
  "attemptAt handler gateway target = plainAttempt\<lparr>response :=
     map_sum id (\<lambda>r. received (\<lambda>s. oneFile s []) (fst (handler r 0))) (fallbackRequest gateway target)\<rparr>"

lemma sampleServer: "serverParts ''127.0.0.1'' ''8080''" "urlElem ''bafy''"
    "serverURL ''127.0.0.1'' ''8080'' = ''http://127.0.0.1:8080''"
proof -
  have "list_all nameChar ''127.0.0.1''" "list_all isDigit ''8080''" by code_simp+
  then show "serverParts ''127.0.0.1'' ''8080''" by (simp add: serverParts_def hostText_def)
  show "urlElem ''bafy''" by (rule sampleGateway)
qed code_simp

lemma attemptAt_answered:
  "answeredBy handler (\<lambda>s. oneFile s []) 0 ''http://127.0.0.1:8080'' ''bafy'' (attemptAt handler ''http://127.0.0.1:8080'' ''bafy'')"
proof -
  obtain r where "fallbackRequest ''http://127.0.0.1:8080'' ''bafy'' = Inr r"
    using fallbackRequest_server [OF sampleServer(1,2)] by (auto simp: sampleServer(3))
  then show ?thesis by (simp add: answeredBy_def attemptAt_def)
qed

theorem whole_file_gateway_trusted_witness:
  "\<exists>w'. fetchFromGateway plainPlatform (attemptAt (ServeWholeFileGateway ''bafy'' ''forged'') ''http://127.0.0.1:8080'' ''bafy'')
        ''http://127.0.0.1:8080'' ''bafy'' ''/d/out'' 6 plainWorld = (w', None)
     \<and> entryAt (disk (scratch w')) [''d'', ''out''] = Some (FileEntry ''forged'')"
proof -
  let ?a = "attemptAt (ServeWholeFileGateway ''bafy'' ''forged'') ''http://127.0.0.1:8080'' ''bafy''"
  have a: "calm ?a" by (simp add: calm_def attemptAt_def plainAttempt_def)
  have pub: "publishable gatewayScratchPrefix ''/d/out'' (rands ?a) (disk (scratch plainWorld))"
    using dataDisk_publishable by (simp add: attemptAt_def plainAttempt_def plainWorld_def)
  note served = attemptAt_answered [of "ServeWholeFileGateway ''bafy'' ''forged''", folded sampleServer(3)]
  from whole_file_gateway_trusted [OF sampleServer(1,2,2) served, unfolded sampleServer(3), OF a pub, of 6]
  show ?thesis by (auto simp: sampleKeys)
qed

theorem trustless_gateway_serves_blocks_only_witness:
  "\<exists>err. fetchFromGateway plainPlatform
        (attemptAt (ServeTrustlessGateway Inr (\<lambda>c. None) (\<lambda>c. Inr ''block'')) ''http://127.0.0.1:8080'' ''bafy'')
        ''http://127.0.0.1:8080'' ''bafy'' ''/d/out'' 6 plainWorld = (plainWorld, Some err)"
proof -
  note served = attemptAt_answered [of "ServeTrustlessGateway Inr (\<lambda>c. None) (\<lambda>c. Inr ''block'')", folded sampleServer(3)]
  show ?thesis
    using trustless_gateway_serves_blocks_only [OF sampleServer(1,2) served, unfolded sampleServer(3)] by blast
qed

end
