(* ===== verification/Test_Peers.thy ===== *)
theory Test_Peers
  imports Delivery
begin

text \<open>
  The peers of \<open>internal/testpeer/testpeer.go\<close> that serve the client's tests: hosts with a DHT, and the
  block stores behind them with honest and with hostile DAGs. The libraries that build hosts, blocks and
  UnixFS nodes are arguments; a fixture that calls \<open>t.Fatal\<close> returns the error, and what is closed when
  the test ends is left out.
\<close>

section \<open>Hosts\<close>

text \<open>What \<open>libp2p.New\<close> and \<open>dht.New\<close> come to for one peer; a host is its addresses and its id.\<close>

record testHost =
  hostAddrs :: "string list"
  hostID :: string

record 'k peerEnv =
  generateKey :: "error + 'k"
  newHost :: "string \<Rightarrow> 'k \<Rightarrow> error + testHost"
  newServerDht :: "testHost \<Rightarrow> error option"

definition startPeer :: "'k peerEnv \<Rightarrow> error + testHost" where
  "startPeer env =
     (case generateKey env of
        Inl e \<Rightarrow> Inl (Wrapped ''generating peer identity'' e)
      | Inr priv \<Rightarrow>
          (case newHost env ''/ip4/127.0.0.1/tcp/0'' priv of
             Inl e \<Rightarrow> Inl (Wrapped ''starting peer host'' e)
           | Inr h \<Rightarrow>
               (case newServerDht env h of
                  Some e \<Rightarrow> Inl (Wrapped ''starting peer dht'' e)
                | None \<Rightarrow> Inr h)))"

definition peerAddr :: "testHost \<Rightarrow> error + string" where
  "peerAddr h =
     (case hostAddrs h of
        [] \<Rightarrow> Inl (Errorf ''peer host is not listening on any address'' [])
      | a # rest \<Rightarrow> Inr (a @ ''/p2p/'' @ hostID h))"

text \<open>
  \<open>waitForRoutingTable\<close>, over the sizes of the table it finds, one each time round the loop, the last of
  them after the deadline.
\<close>

fun waitForRoutingTable :: "nat list \<Rightarrow> error option" where
  "waitForRoutingTable [] = Some (Errorf ''dht routing table never filled'' [])"
| "waitForRoutingTable (n # sizes) = (if n = 0 then waitForRoutingTable sizes else None)"

definition Content :: "nat \<Rightarrow> string" where
  "Content n = map (\<lambda>i. byteOf (97 + i mod 26)) [0..<n]"

section \<open>Blocks\<close>

datatype dataType = Data_File | Data_Symlink

text \<open>
  The parts of \<open>boxo\<close> and \<open>protobuf\<close> the fixtures call: the UnixFS builder \<open>'f\<close>, its encoding \<open>'b\<close>, the
  message \<open>'p\<close> in it, nodes \<open>'n\<close> and their CIDs \<open>'c\<close>. \<open>importFile\<close> is the chunker and the balanced
  layout, with the chunk size: the nodes it stores, and the root.
\<close>

record ('f, 'b, 'p, 'n, 'c) dagLib =
  NewFSNode :: "dataType \<Rightarrow> 'f"
  SetFSData :: "string \<Rightarrow> 'f \<Rightarrow> 'f"
  AddBlockSize :: "nat \<Rightarrow> 'f \<Rightarrow> 'f"
  GetBytes :: "'f \<Rightarrow> error + 'b"
  Unmarshal :: "'b \<Rightarrow> error + 'p"
  withFilesize :: "nat \<Rightarrow> 'p \<Rightarrow> 'p"
  Marshal :: "'p \<Rightarrow> error + 'b"
  NodeWithData :: "'b option \<Rightarrow> 'n"
  NewRawNode :: "string \<Rightarrow> 'n"
  EmptyDirNode :: 'n
  AddNodeLink :: "string \<Rightarrow> 'n \<Rightarrow> 'n \<Rightarrow> error + 'n"
  SetNodeData :: "'b \<Rightarrow> 'n \<Rightarrow> 'n"
  nodeCid :: "'n \<Rightarrow> 'c"
  importFile :: "nat \<Rightarrow> string \<Rightarrow> error + 'n list \<times> 'n"

type_synonym ('n, 'c) blockstore = "'c \<Rightarrow> 'n option"

definition putAll :: "('f, 'b, 'p, 'n, 'c) dagLib \<Rightarrow> 'n list \<Rightarrow> ('n, 'c) blockstore \<Rightarrow> ('n, 'c) blockstore" where
  "putAll lib nodes store = foldl (\<lambda>st n. st(nodeCid lib n \<mapsto> n)) store nodes"

text \<open>A peer that serves: where it is, the root it was given and its block store.\<close>

record ('n, 'c) fixture =
  fixtureAddr :: string
  fixtureRoot :: 'c
  fixtureStore :: "('n, 'c) blockstore"

section \<open>Honest peers\<close>

definition addUnixfsFile :: "('f, 'b, 'p, 'n, 'c) dagLib \<Rightarrow> ('n, 'c) blockstore \<Rightarrow> string \<Rightarrow> error + ('n, 'c) blockstore \<times> 'c" where
  "addUnixfsFile lib store bytes =
     andThen (importFile lib 1024 bytes) (\<lambda>(nodes, n). Inr (putAll lib nodes store, nodeCid lib n))"

definition serveContent :: "('f, 'b, 'p, 'n, 'c) dagLib \<Rightarrow> string \<Rightarrow> error + ('n, 'c) blockstore \<times> 'c" where
  "serveContent lib bytes = addUnixfsFile lib Map.empty bytes"

definition Serve :: "'k peerEnv \<Rightarrow> ('f, 'b, 'p, 'n, 'c) dagLib \<Rightarrow> string \<Rightarrow> error + ('n, 'c) fixture" where
  "Serve env lib bytes =
     andThen (startPeer env) (\<lambda>h.
     andThen (serveContent lib bytes) (\<lambda>(store, rt).
     andThen (peerAddr h) (\<lambda>a.
     Inr \<lparr>fixtureAddr = a, fixtureRoot = rt, fixtureStore = store\<rparr>)))"

text \<open>
  \<open>ServeIsolated\<close> has a bootstrap node of its own, which holds nothing; \<open>ServeViaDHT\<close> also joins the
  provider to it and announces the root, the one thing the bootstrap node then knows of it.
\<close>

definition ServeIsolated :: "'k peerEnv \<Rightarrow> 'k peerEnv \<Rightarrow> ('f, 'b, 'p, 'n, 'c) dagLib \<Rightarrow> string
    \<Rightarrow> error + string \<times> ('n, 'c) fixture" where
  "ServeIsolated bootEnv env lib bytes =
     andThen (startPeer bootEnv) (\<lambda>boot.
     andThen (startPeer env) (\<lambda>h.
     andThen (serveContent lib bytes) (\<lambda>(store, rt).
     andThen (peerAddr boot) (\<lambda>b.
     andThen (peerAddr h) (\<lambda>a.
     Inr (b, \<lparr>fixtureAddr = a, fixtureRoot = rt, fixtureStore = store\<rparr>))))))"

record 'c dhtEnv =
  connect :: "testHost \<Rightarrow> testHost \<Rightarrow> error option"
  bootstrapErr :: "error option"
  tableSizes :: "nat list"
  provide :: "'c \<Rightarrow> error option"

definition orFatal :: "string \<Rightarrow> error option \<Rightarrow> error + unit" where
  "orFatal msg r = (case r of Some e \<Rightarrow> Inl (Wrapped msg e) | None \<Rightarrow> Inr ())"

definition ServeViaDHT :: "'k peerEnv \<Rightarrow> 'k peerEnv \<Rightarrow> 'c dhtEnv \<Rightarrow> ('f, 'b, 'p, 'n, 'c) dagLib \<Rightarrow> string
    \<Rightarrow> error + string \<times> 'c \<times> (testHost \<times> ('n, 'c) blockstore) \<times> (testHost \<times> 'c) list" where
  "ServeViaDHT bootEnv env dht lib bytes =
     andThen (startPeer bootEnv) (\<lambda>boot.
     andThen (startPeer env) (\<lambda>h.
     andThen (serveContent lib bytes) (\<lambda>(store, rt).
     andThen (orFatal ''joining the provider to the bootstrap node'' (connect dht h boot)) (\<lambda>_.
     andThen (orFatal ''bootstrapping the provider dht'' (bootstrapErr dht)) (\<lambda>_.
     case waitForRoutingTable (tableSizes dht) of
       Some e \<Rightarrow> Inl e
     | None \<Rightarrow>
         andThen (orFatal ''announcing content to the dht'' (provide dht rt)) (\<lambda>_.
         andThen (peerAddr boot) (\<lambda>b. Inr (b, rt, (h, store), [(h, rt)]))))))))"

section \<open>Hostile DAGs\<close>

definition unixfsBytes :: "('f, 'b, 'p, 'n, 'c) dagLib \<Rightarrow> dataType \<Rightarrow> string \<Rightarrow> error + 'b" where
  "unixfsBytes lib kind d = GetBytes lib (SetFSData lib d (NewFSNode lib kind))"

definition unixfsSymlink :: "('f, 'b, 'p, 'n, 'c) dagLib \<Rightarrow> string \<Rightarrow> error + 'n" where
  "unixfsSymlink lib target = andThen (unixfsBytes lib Data_Symlink target) (\<lambda>b. Inr (NodeWithData lib (Some b)))"

definition withDeclaredFileSize :: "('f, 'b, 'p, 'n, 'c) dagLib \<Rightarrow> 'b \<Rightarrow> nat \<Rightarrow> error + 'b" where
  "withDeclaredFileSize lib encoded n =
     andThen (Unmarshal lib encoded) (\<lambda>d. Marshal lib (withFilesize lib n d))"

definition serveNodes :: "'k peerEnv \<Rightarrow> ('f, 'b, 'p, 'n, 'c) dagLib \<Rightarrow> 'c \<Rightarrow> 'n list \<Rightarrow> error + ('n, 'c) fixture" where
  "serveNodes env lib rt nodes =
     andThen (startPeer env) (\<lambda>h.
     andThen (peerAddr h) (\<lambda>a.
     Inr \<lparr>fixtureAddr = a, fixtureRoot = rt, fixtureStore = putAll lib nodes Map.empty\<rparr>))"

definition ServeSymlink :: "'k peerEnv \<Rightarrow> ('f, 'b, 'p, 'n, 'c) dagLib \<Rightarrow> string \<Rightarrow> error + ('n, 'c) fixture" where
  "ServeSymlink env lib target =
     andThen (unixfsSymlink lib target) (\<lambda>symlink. serveNodes env lib (nodeCid lib symlink) [symlink])"

definition ServeDirectoryWithSymlink :: "'k peerEnv \<Rightarrow> ('f, 'b, 'p, 'n, 'c) dagLib \<Rightarrow> string \<Rightarrow> error + ('n, 'c) fixture" where
  "ServeDirectoryWithSymlink env lib target =
     andThen (unixfsSymlink lib target) (\<lambda>symlink.
     andThen (unixfsBytes lib Data_File ''harmless'') (\<lambda>b.
     let contents = NodeWithData lib (Some b) in
     andThen (AddNodeLink lib ''harmless.txt'' contents (EmptyDirNode lib)) (\<lambda>dir1.
     andThen (AddNodeLink lib ''link'' symlink dir1) (\<lambda>dir2.
     serveNodes env lib (nodeCid lib dir2) [dir2, contents, symlink]))))"

text \<open>The loop that links the leaves: the root, the sizes and the nodes as they grow.\<close>

definition leafOf :: "nat \<Rightarrow> nat \<Rightarrow> string" where
  "leafOf leafSize i = replicate leafSize (byteOf (97 + i mod 26))"

fun linkLeaves :: "('f, 'b, 'p, 'n, 'c) dagLib \<Rightarrow> nat \<Rightarrow> nat list \<Rightarrow> 'n \<times> 'f \<times> 'n list \<Rightarrow> error + 'n \<times> 'f \<times> 'n list" where
  "linkLeaves lib leafSize [] st = Inr st"
| "linkLeaves lib leafSize (i # is) (rootNode, fsnode, nodes) =
     (let leaf = NewRawNode lib (leafOf leafSize i) in
      andThen (AddNodeLink lib [] leaf rootNode) (\<lambda>rootNode1.
        linkLeaves lib leafSize is (rootNode1, AddBlockSize lib leafSize fsnode, nodes @ [leaf])))"

definition ServeUnderdeclaredFile :: "'k peerEnv \<Rightarrow> ('f, 'b, 'p, 'n, 'c) dagLib \<Rightarrow> nat \<Rightarrow> nat \<Rightarrow> nat
    \<Rightarrow> error + ('n, 'c) fixture" where
  "ServeUnderdeclaredFile env lib declared leaves leafSize =
     andThen (linkLeaves lib leafSize [0..<leaves] (NodeWithData lib None, NewFSNode lib Data_File, []))
       (\<lambda>(rootNode, fsnode, nodes).
     andThen (GetBytes lib fsnode) (\<lambda>encoded0.
     andThen (withDeclaredFileSize lib encoded0 declared) (\<lambda>encoded.
     let rootNode1 = SetNodeData lib encoded rootNode in
     serveNodes env lib (nodeCid lib rootNode1) (nodes @ [rootNode1]))))"

section \<open>What a client gets from a fixture\<close>

text \<open>
  What the fixtures rely on the libraries for. \<open>answers store c\<close> is what fetching \<open>c\<close> from a peer with
  that store comes to: a CID names one node; a symlink node reads as its target, a file node as its own
  data or that of its raw leaves, in order, with the size that is written down, and a directory as its
  entries; and what the importer stores reads as the bytes it was given.
\<close>

fun addLinks :: "('f, 'b, 'p, 'n, 'c) dagLib \<Rightarrow> 'n list \<Rightarrow> 'n \<Rightarrow> error + 'n" where
  "addLinks lib [] n = Inr n"
| "addLinks lib (l # ls) n = andThen (AddNodeLink lib [] l n) (addLinks lib ls)"

definition inStore :: "('f, 'b, 'p, 'n, 'c) dagLib \<Rightarrow> ('n, 'c) blockstore \<Rightarrow> 'n \<Rightarrow> bool" where
  "inStore lib store n \<longleftrightarrow> store (nodeCid lib n) = Some n"

definition answerFor :: "string \<Rightarrow> nat \<Rightarrow> dagAnswer" where
  "answerFor bytes n =
     \<lparr>rootErr = None, unixfs = Inr (UFile \<lparr>avail = bytes, readErr = None\<rparr>), declaredSize = Inr (int n)\<rparr>"

definition readsSymlinks :: "('f, 'b, 'p, 'n, 'c) dagLib \<Rightarrow> (('n, 'c) blockstore \<Rightarrow> 'c \<Rightarrow> dagAnswer) \<Rightarrow> bool" where
  "readsSymlinks lib answers \<longleftrightarrow>
     (\<forall>store target b. unixfsBytes lib Data_Symlink target = Inr b \<longrightarrow> inStore lib store (NodeWithData lib (Some b)) \<longrightarrow>
        unixfs (answers store (nodeCid lib (NodeWithData lib (Some b)))) = Inr (USymlink target))"

definition readsFiles :: "('f, 'b, 'p, 'n, 'c) dagLib \<Rightarrow> (('n, 'c) blockstore \<Rightarrow> 'c \<Rightarrow> dagAnswer) \<Rightarrow> bool" where
  "readsFiles lib answers \<longleftrightarrow>
     (\<forall>store d b. unixfsBytes lib Data_File d = Inr b \<longrightarrow> inStore lib store (NodeWithData lib (Some b)) \<longrightarrow>
        unixfs (answers store (nodeCid lib (NodeWithData lib (Some b)))) = Inr (UFile \<lparr>avail = d, readErr = None\<rparr>))"

definition readsDirectories :: "('f, 'b, 'p, 'n, 'c) dagLib \<Rightarrow> (('n, 'c) blockstore \<Rightarrow> 'c \<Rightarrow> dagAnswer) \<Rightarrow> bool" where
  "readsDirectories lib answers \<longleftrightarrow>
     (\<forall>store n1 c1 n2 c2 d1 d2 u1 u2.
        AddNodeLink lib n1 c1 (EmptyDirNode lib) = Inr d1 \<longrightarrow> AddNodeLink lib n2 c2 d1 = Inr d2 \<longrightarrow>
        list_all (inStore lib store) [d2, c1, c2] \<longrightarrow>
        unixfs (answers store (nodeCid lib c1)) = Inr u1 \<longrightarrow> unixfs (answers store (nodeCid lib c2)) = Inr u2 \<longrightarrow>
        unixfs (answers store (nodeCid lib d2)) = Inr (UDirectory [(n1, u1), (n2, u2)] None))"

definition readsLeaves :: "('f, 'b, 'p, 'n, 'c) dagLib \<Rightarrow> (('n, 'c) blockstore \<Rightarrow> 'c \<Rightarrow> dagAnswer) \<Rightarrow> bool" where
  "readsLeaves lib answers \<longleftrightarrow>
     (\<forall>store bs rn b0 d b1 n.
        addLinks lib (map (NewRawNode lib) bs) (NodeWithData lib None) = Inr rn \<longrightarrow>
        GetBytes lib (foldl (\<lambda>f b. AddBlockSize lib (length b) f) (NewFSNode lib Data_File) bs) = Inr b0 \<longrightarrow>
        Unmarshal lib b0 = Inr d \<longrightarrow> Marshal lib (withFilesize lib n d) = Inr b1 \<longrightarrow> int n \<le> max_int64 \<longrightarrow>
        list_all (inStore lib store) (map (NewRawNode lib) bs @ [SetNodeData lib b1 rn]) \<longrightarrow>
        answers store (nodeCid lib (SetNodeData lib b1 rn)) = answerFor (concat bs) n)"

definition readsImports :: "('f, 'b, 'p, 'n, 'c) dagLib \<Rightarrow> (('n, 'c) blockstore \<Rightarrow> 'c \<Rightarrow> dagAnswer) \<Rightarrow> bool" where
  "readsImports lib answers \<longleftrightarrow>
     (\<forall>store k bytes nodes n.
        importFile lib k bytes = Inr (nodes, n) \<longrightarrow> list_all (inStore lib store) nodes \<longrightarrow>
        answers store (nodeCid lib n) = answerFor bytes (length bytes))"

definition dagLibOk :: "('f, 'b, 'p, 'n, 'c) dagLib \<Rightarrow> (('n, 'c) blockstore \<Rightarrow> 'c \<Rightarrow> dagAnswer) \<Rightarrow> bool" where
  "dagLibOk lib answers \<longleftrightarrow>
     inj (nodeCid lib) \<and> readsSymlinks lib answers \<and> readsFiles lib answers \<and> readsDirectories lib answers
     \<and> readsLeaves lib answers \<and> readsImports lib answers"

text \<open>A store a fixture filled holds every node it was given.\<close>

lemma putAll_inStore:
  assumes "inj (nodeCid lib)"
  shows "list_all (inStore lib (putAll lib nodes store)) nodes"
proof -
  have "n \<in> set nodes \<Longrightarrow> putAll lib nodes store (nodeCid lib n) = Some n" for n
  proof (induction nodes rule: rev_induct)
    case (snoc m nodes)
    then show ?case using injD [OF assms, of n m] by (cases "nodeCid lib n = nodeCid lib m") (auto simp: putAll_def)
  qed simp
  then show ?thesis by (simp add: list_all_iff inStore_def)
qed

lemma serveNodes_fixture:
  "serveNodes env lib rt nodes = Inr fx \<Longrightarrow> fixtureRoot fx = rt \<and> fixtureStore fx = putAll lib nodes Map.empty"
  by (auto simp: serveNodes_def andThen_Inr_iff)

lemma linkLeaves_result:
  "linkLeaves lib leafSize is (rn, f, ns) = Inr (rn', f', ns') \<Longrightarrow>
     addLinks lib (map (NewRawNode lib) (map (leafOf leafSize) is)) rn = Inr rn'
     \<and> f' = foldl (\<lambda>f b. AddBlockSize lib (length b) f) f (map (leafOf leafSize) is)
     \<and> ns' = ns @ map (NewRawNode lib) (map (leafOf leafSize) is)"
proof (induction "is" arbitrary: rn f ns)
  case (Cons i "is")
  have len: "length (leafOf leafSize i) = leafSize" by (simp add: leafOf_def)
  obtain rn1 where a: "AddNodeLink lib [] (NewRawNode lib (leafOf leafSize i)) rn = Inr rn1"
    and l: "linkLeaves lib leafSize is (rn1, AddBlockSize lib leafSize f, ns @ [NewRawNode lib (leafOf leafSize i)]) = Inr (rn', f', ns')"
    using Cons.prems by (auto simp: Let_def andThen_Inr_iff)
  show ?case using Cons.IH [OF l] a by (simp add: len)
qed simp

text \<open>What the three kinds of fixture answer.\<close>

lemma symlink_answer:
  assumes "dagLibOk lib answers" and "ServeSymlink env lib target = Inr fx"
  shows "unixfs (answers (fixtureStore fx) (fixtureRoot fx)) = Inr (USymlink target)"
proof -
  obtain b where b: "unixfsBytes lib Data_Symlink target = Inr b"
    and s: "serveNodes env lib (nodeCid lib (NodeWithData lib (Some b))) [NodeWithData lib (Some b)] = Inr fx"
    using assms(2) by (auto simp: ServeSymlink_def unixfsSymlink_def andThen_Inr_iff)
  have ok: "inj (nodeCid lib)" "readsSymlinks lib answers" using assms(1) by (simp_all add: dagLibOk_def)
  have "inStore lib (fixtureStore fx) (NodeWithData lib (Some b))"
    using putAll_inStore [OF ok(1), of "[NodeWithData lib (Some b)]" Map.empty] serveNodes_fixture [OF s] by simp
  from ok(2) [unfolded readsSymlinks_def, rule_format, OF b this] show ?thesis using serveNodes_fixture [OF s] by simp
qed

lemma directory_answer:
  assumes "dagLibOk lib answers" and "ServeDirectoryWithSymlink env lib target = Inr fx"
  shows "unixfs (answers (fixtureStore fx) (fixtureRoot fx))
    = Inr (UDirectory [(''harmless.txt'', UFile \<lparr>avail = ''harmless'', readErr = None\<rparr>), (''link'', USymlink target)] None)"
proof -
  obtain bl bf d1 d2 where b: "unixfsBytes lib Data_Symlink target = Inr bl" "unixfsBytes lib Data_File ''harmless'' = Inr bf"
    and d: "AddNodeLink lib ''harmless.txt'' (NodeWithData lib (Some bf)) (EmptyDirNode lib) = Inr d1"
      "AddNodeLink lib ''link'' (NodeWithData lib (Some bl)) d1 = Inr d2"
    and s: "serveNodes env lib (nodeCid lib d2) [d2, NodeWithData lib (Some bf), NodeWithData lib (Some bl)] = Inr fx"
    using assms(2) by (auto simp: ServeDirectoryWithSymlink_def unixfsSymlink_def Let_def andThen_Inr_iff)
  note fx = serveNodes_fixture [OF s]
  have ok: "inj (nodeCid lib)" "readsSymlinks lib answers" "readsFiles lib answers" "readsDirectories lib answers"
    using assms(1) by (simp_all add: dagLibOk_def)
  have st: "list_all (inStore lib (fixtureStore fx)) [d2, NodeWithData lib (Some bf), NodeWithData lib (Some bl)]"
    using putAll_inStore [OF ok(1), of "[d2, NodeWithData lib (Some bf), NodeWithData lib (Some bl)]" Map.empty] fx by simp
  have "unixfs (answers (fixtureStore fx) (nodeCid lib (NodeWithData lib (Some bf)))) = Inr (UFile \<lparr>avail = ''harmless'', readErr = None\<rparr>)"
    using st by (intro ok(3) [unfolded readsFiles_def, rule_format, OF b(2)]) simp
  moreover have "unixfs (answers (fixtureStore fx) (nodeCid lib (NodeWithData lib (Some bl)))) = Inr (USymlink target)"
    using st by (intro ok(2) [unfolded readsSymlinks_def, rule_format, OF b(1)]) simp
  ultimately show ?thesis
    using ok(4) [unfolded readsDirectories_def, rule_format, OF d st] fx by simp
qed

lemma underdeclared_answer:
  assumes "dagLibOk lib answers" and "ServeUnderdeclaredFile env lib declared leaves leafSize = Inr fx"
    and "int declared \<le> max_int64"
  shows "answers (fixtureStore fx) (fixtureRoot fx) = answerFor (concat (map (leafOf leafSize) [0..<leaves])) declared"
proof -
  let ?bs = "map (leafOf leafSize) [0..<leaves]"
  obtain rn f ns b0 d b1 where l: "linkLeaves lib leafSize [0..<leaves] (NodeWithData lib None, NewFSNode lib Data_File, []) = Inr (rn, f, ns)"
    and b: "GetBytes lib f = Inr b0" "Unmarshal lib b0 = Inr d" "Marshal lib (withFilesize lib declared d) = Inr b1"
    and s: "serveNodes env lib (nodeCid lib (SetNodeData lib b1 rn)) (ns @ [SetNodeData lib b1 rn]) = Inr fx"
    using assms(2) by (auto simp: ServeUnderdeclaredFile_def withDeclaredFileSize_def Let_def andThen_Inr_iff)
  note fx = serveNodes_fixture [OF s]
  have r: "addLinks lib (map (NewRawNode lib) ?bs) (NodeWithData lib None) = Inr rn" "ns = map (NewRawNode lib) ?bs"
    "GetBytes lib (foldl (\<lambda>f b. AddBlockSize lib (length b) f) (NewFSNode lib Data_File) ?bs) = Inr b0"
    using linkLeaves_result [OF l] b(1) by (simp_all only: append_Nil)
  have ok: "inj (nodeCid lib)" "readsLeaves lib answers" using assms(1) by (simp_all add: dagLibOk_def)
  have "list_all (inStore lib (fixtureStore fx)) (map (NewRawNode lib) ?bs @ [SetNodeData lib b1 rn])"
    using putAll_inStore [OF ok(1), of "ns @ [SetNodeData lib b1 rn]" Map.empty] fx r(2) by simp
  from ok(2) [unfolded readsLeaves_def, rule_format, OF r(1,3) b(2,3) assms(3) this] show ?thesis using fx by simp
qed

lemma content_answer:
  assumes "dagLibOk lib answers" and "serveContent lib bytes = Inr (store, rt)"
  shows "answers store rt = answerFor bytes (length bytes)"
proof -
  obtain nodes n where i: "importFile lib 1024 bytes = Inr (nodes, n)" and fx: "store = putAll lib nodes Map.empty" "rt = nodeCid lib n"
    using assms(2) by (auto simp: serveContent_def addUnixfsFile_def andThen_Inr_iff)
  have ok: "inj (nodeCid lib)" "readsImports lib answers" using assms(1) by (simp_all add: dagLibOk_def)
  from ok(2) [unfolded readsImports_def, rule_format, OF i putAll_inStore [OF ok(1)]] show ?thesis using fx by simp
qed

section \<open>Properties\<close>

text \<open>
  Served content arrives. Content a test adds to a peer - one the client is told of, one announced to
  the DHT or one that is announced nowhere - reads back as the same bytes: once the client reaches the
  peer, a download within the limit succeeds and the output is exactly what was served.
\<close>

theorem served_content_arrives:
  assumes "dagLibOk lib answers" and "int (length bytes) \<le> max_int64"
    and "(\<exists>fx. Serve env lib bytes = Inr fx \<and> store = fixtureStore fx \<and> rt = fixtureRoot fx)
      \<or> (\<exists>b fx. ServeIsolated boot env lib bytes = Inr (b, fx) \<and> store = fixtureStore fx \<and> rt = fixtureRoot fx)
      \<or> (\<exists>b h told. ServeViaDHT boot env dht lib bytes = Inr (b, rt, (h, store), told))"
    and "publishable scratchPrefix output rnds (disk s)" and "limit < max_int64"
    and "0 < limit \<longrightarrow> int (length bytes) \<le> limit"
  shows "\<exists>s'. download (answers store rt) CtxLive Inr rnds output limit s = (s', None)
    \<and> entryAt (disk s') (fsKey (disk s) output) = Some (FileEntry bytes)"
proof -
  have "serveContent lib bytes = Inr (store, rt)"
    using assms(3) by (auto simp: Serve_def ServeIsolated_def ServeViaDHT_def andThen_Inr_iff split: option.splits)
  from content_answer [OF assms(1) this] show ?thesis
    using download_verdict [OF assms(4,5), of "answers store rt" "UFile \<lparr>avail = bytes, readErr = None\<rparr>" "int (length bytes)"] assms(6)
    by (auto simp: answerFor_def)
qed

text \<open>
  A symbolic link is never written. Whatever its target, a DAG that is a symbolic link, or a directory
  that holds one beside a harmless file, is refused: the download fails and neither the output nor
  anything else on disk but staging directories has changed, whatever the context and the output lock.
\<close>

theorem symlink_fixtures_refused:
  assumes "dagLibOk lib answers"
    and "ServeSymlink env lib target = Inr fx \<or> ServeDirectoryWithSymlink env lib target = Inr fx"
    and "downloadable scratchPrefix output rnds (disk s)" and "limit < max_int64"
    and "download (answers (fixtureStore fx) (fixtureRoot fx)) ctx lock rnds output limit s = (s', err)"
  shows "err \<noteq> None \<and> (\<forall>k. elsewhere scratchPrefix output (disk s) k \<or> underKey (fsKey (disk s) output) k
    \<longrightarrow> entryAt (disk s') k = entryAt (disk s) k)"
proof -
  obtain nd where "unixfs (answers (fixtureStore fx) (fixtureRoot fx)) = Inr nd" "\<And>k fs. \<not> stored nd k fs"
    using assms(2) symlink_answer [OF assms(1)] directory_answer [OF assms(1)] by force
  from download_unstorable [OF assms(3,4) this assms(5)] show ?thesis .
qed

text \<open>
  A declared size is only a hint. A file whose root declares one size while its leaves hold another is
  judged by both: a declared size over the limit is refused before anything is written; a declared size
  within it does not let more bytes through than the limit; and when both are within the limit the
  output is the leaves, in order, however many bytes were declared. A refusal leaves the output alone.
\<close>

theorem underdeclared_file_judged:
  assumes "dagLibOk lib answers" and "ServeUnderdeclaredFile env lib declared leaves leafSize = Inr fx"
    and "int declared \<le> max_int64" and "publishable scratchPrefix output rnds (disk s)" and "limit < max_int64"
  shows "\<exists>s' err. download (answers (fixtureStore fx) (fixtureRoot fx)) CtxLive Inr rnds output limit s = (s', err)
    \<and> err = (if 0 < limit \<and> limit < int declared then Some (SizeLimitError (int declared) limit)
             else if 0 < limit \<and> limit < int (leaves * leafSize) then Some (SizeLimitError (limit + 1) limit)
             else None)
    \<and> (err = None \<longrightarrow> entryAt (disk s') (fsKey (disk s) output)
          = Some (FileEntry (concat (map (leafOf leafSize) [0..<leaves]))))
    \<and> (err \<noteq> None \<longrightarrow> entryAt (disk s') (fsKey (disk s) output) = entryAt (disk s) (fsKey (disk s) output))"
proof -
  let ?dag = "answers (fixtureStore fx) (fixtureRoot fx)" and ?bytes = "concat (map (leafOf leafSize) [0..<leaves])"
  have ans: "?dag = answerFor ?bytes declared" by (rule underdeclared_answer [OF assms(1-3)])
  have len: "length ?bytes = leaves * leafSize" by (simp add: length_concat leafOf_def comp_def sum_list_triv)
  obtain s' err where d: "download ?dag CtxLive Inr rnds output limit s = (s', err)"
    and e: "err = (if 0 < limit \<and> limit < int declared then Some (SizeLimitError (int declared) limit)
             else if 0 < limit \<and> limit < int (unodeBytes (UFile \<lparr>avail = ?bytes, readErr = None\<rparr>))
               then Some (SizeLimitError (limit + 1) limit) else None)"
    and ok: "err = None \<longrightarrow> stored (UFile \<lparr>avail = ?bytes, readErr = None\<rparr>) (fsKey (disk s) output) (disk s')"
    and kept: "err \<noteq> None \<longrightarrow> (\<forall>z. entryAt (disk s') (fsKey (disk s) output @ z) = entryAt (disk s) (fsKey (disk s) output @ z))"
    using download_verdict [OF assms(4,5), of ?dag "UFile \<lparr>avail = ?bytes, readErr = None\<rparr>" "int declared"]
    by (auto simp: ans answerFor_def)
  have "err \<noteq> None \<longrightarrow> entryAt (disk s') (fsKey (disk s) output) = entryAt (disk s) (fsKey (disk s) output)"
    using kept by (metis append_Nil2)
  then show ?thesis using d e ok by (simp add: len)
qed

section \<open>A library that meets them\<close>

datatype sampleNode =
    SRaw string
  | SNode "(string \<times> sampleNode) list" "(dataType \<times> string \<times> nat) option"
  | SDir "(string \<times> sampleNode) list"

fun sampleLink :: "string \<Rightarrow> sampleNode \<Rightarrow> sampleNode \<Rightarrow> error + sampleNode" where
  "sampleLink name c (SNode ls b) = Inr (SNode (ls @ [(name, c)]) b)"
| "sampleLink name c (SDir ls) = Inr (SDir (ls @ [(name, c)]))"
| "sampleLink name c (SRaw s) = Inl (Errorf ''raw nodes have no links'' [])"

fun sampleData :: "dataType \<times> string \<times> nat \<Rightarrow> sampleNode \<Rightarrow> sampleNode" where
  "sampleData b (SNode ls _) = SNode ls (Some b)"
| "sampleData b n = n"

definition sampleLib :: "(dataType \<times> string \<times> nat, dataType \<times> string \<times> nat, dataType \<times> string \<times> nat, sampleNode, sampleNode) dagLib" where
  "sampleLib =
     \<lparr>NewFSNode = \<lambda>k. (k, [], 0), SetFSData = \<lambda>d (k, _, _). (k, d, length d),
      AddBlockSize = \<lambda>n (k, d, m). (k, d, m + n), GetBytes = Inr, Unmarshal = Inr,
      withFilesize = \<lambda>n (k, d, _). (k, d, n), Marshal = Inr, NodeWithData = SNode [], NewRawNode = SRaw,
      EmptyDirNode = SDir [], AddNodeLink = sampleLink, SetNodeData = sampleData, nodeCid = \<lambda>n. n,
      importFile = \<lambda>k bytes. (let n = SNode [] (Some (Data_File, bytes, length bytes)) in Inr ([n], n))\<rparr>"

fun rawBytes :: "sampleNode \<Rightarrow> string" where
  "rawBytes (SRaw s) = s"
| "rawBytes n = []"

fun readSample :: "sampleNode \<Rightarrow> unode \<times> nat" where
  "readSample (SRaw s) = (UFile \<lparr>avail = s, readErr = None\<rparr>, length s)"
| "readSample (SNode ls (Some (Data_Symlink, t, n))) = (USymlink t, n)"
| "readSample (SNode ls (Some (Data_File, d, n))) = (UFile \<lparr>avail = d @ concat (map (rawBytes \<circ> snd) ls), readErr = None\<rparr>, n)"
| "readSample (SNode ls None) = (UOther ''raw'', 0)"
| "readSample (SDir ls) = (UDirectory (map (\<lambda>(name, c). (name, fst (readSample c))) ls) None, 0)"

definition sampleAnswers :: "(sampleNode, sampleNode) blockstore \<Rightarrow> sampleNode \<Rightarrow> dagAnswer" where
  "sampleAnswers store c =
     (case store c of
        None \<Rightarrow> \<lparr>rootErr = Some (Errorf ''not found'' []), unixfs = Inl (Errorf ''not found'' []), declaredSize = Inr 0\<rparr>
      | Some n \<Rightarrow> \<lparr>rootErr = None, unixfs = Inr (fst (readSample n)), declaredSize = Inr (int (snd (readSample n)))\<rparr>)"

lemma sampleLinks: "addLinks sampleLib (map SRaw bs) (SNode ls b) = Inr (SNode (ls @ map (\<lambda>s. ([], SRaw s)) bs) b)"
  by (induction bs arbitrary: ls) (simp_all add: sampleLib_def)

lemma sampleSizes: "\<exists>n. foldl (\<lambda>f b. AddBlockSize sampleLib (length b) f) (k, d, m) bs = (k, d, n)"
  by (induction bs arbitrary: m) (simp_all add: sampleLib_def)

lemma sampleLibOk: "dagLibOk sampleLib sampleAnswers"
proof -
  have "readsLeaves sampleLib sampleAnswers"
    unfolding readsLeaves_def
  proof (intro allI impI)
    fix store bs rn b0 d b1 n
    assume rn: "addLinks sampleLib (map (NewRawNode sampleLib) bs) (NodeWithData sampleLib None) = Inr rn"
      and b0: "GetBytes sampleLib (foldl (\<lambda>f b. AddBlockSize sampleLib (length b) f) (NewFSNode sampleLib Data_File) bs) = Inr b0"
      and b1: "Unmarshal sampleLib b0 = Inr d" "Marshal sampleLib (withFilesize sampleLib n d) = Inr b1"
      and st: "list_all (inStore sampleLib store) (map (NewRawNode sampleLib) bs @ [SetNodeData sampleLib b1 rn])"
    have "rn = SNode (map (\<lambda>s. ([], SRaw s)) bs) None" using rn sampleLinks [of bs "[]" None] by (simp add: sampleLib_def)
    moreover obtain m where "b0 = (Data_File, [], m)" using b0 sampleSizes [of Data_File "[]" 0 bs] by (auto simp: sampleLib_def)
    moreover have "d = b0" "b1 = withFilesize sampleLib n d" using b1 by (simp_all add: sampleLib_def)
    ultimately have "SetNodeData sampleLib b1 rn = SNode (map (\<lambda>s. ([], SRaw s)) bs) (Some (Data_File, [], n))"
      by (simp add: sampleLib_def)
    then show "sampleAnswers store (nodeCid sampleLib (SetNodeData sampleLib b1 rn)) = answerFor (concat bs) n"
      using st by (simp add: sampleAnswers_def inStore_def answerFor_def comp_def)
  qed
  then show ?thesis
    by (auto simp: dagLibOk_def readsSymlinks_def readsFiles_def readsDirectories_def readsImports_def unixfsBytes_def
        inStore_def answerFor_def sampleAnswers_def sampleLib_def Let_def)
qed

definition sampleEnv :: "nat peerEnv" where
  "sampleEnv = \<lparr>generateKey = Inr 7,
     newHost = \<lambda>listen key. Inr \<lparr>hostAddrs = [''/ip4/127.0.0.1/tcp/4001''], hostID = ''12D3''\<rparr>,
     newServerDht = \<lambda>h. None\<rparr>"

abbreviation sampleDisk0 :: scratchState where
  "sampleDisk0 \<equiv> \<lparr>staging = {}, disk = dataDisk\<rparr>"

theorem served_content_arrives_witness:
  "\<exists>fx s'. Serve sampleEnv sampleLib (Content 28) = Inr fx
     \<and> download (sampleAnswers (fixtureStore fx) (fixtureRoot fx)) CtxLive Inr [''1''] ''/d/out'' 30 sampleDisk0 = (s', None)
     \<and> entryAt (disk s') [''d'', ''out''] = Some (FileEntry ''abcdefghijklmnopqrstuvwxyzab'')"
proof -
  have bytes: "Content 28 = ''abcdefghijklmnopqrstuvwxyzab''" by code_simp
  have "\<exists>fx. Serve sampleEnv sampleLib (Content 28) = Inr fx"
    by (simp add: Serve_def startPeer_def sampleEnv_def serveContent_def addUnixfsFile_def sampleLib_def Let_def peerAddr_def)
  then obtain fx where fx: "Serve sampleEnv sampleLib (Content 28) = Inr fx" by blast
  have pub: "publishable scratchPrefix ''/d/out'' [''1''] (disk sampleDisk0)" using dataDisk_publishable by simp
  have len: "int (length (Content 28)) = 28" by (simp add: bytes)
  have "int (length (Content 28)) \<le> max_int64" "(30::int) < max_int64" "(0::int) < 30 \<longrightarrow> int (length (Content 28)) \<le> 30"
    by (simp_all add: len)
  from served_content_arrives [OF sampleLibOk this(1) _ pub this(2,3), of sampleEnv "fixtureStore fx" "fixtureRoot fx"] fx
  show ?thesis by (auto simp: sampleKeys bytes)
qed

theorem symlink_fixtures_refused_witness:
  "\<exists>fx s' err. ServeDirectoryWithSymlink sampleEnv sampleLib ''/etc/passwd'' = Inr fx
     \<and> download (sampleAnswers (fixtureStore fx) (fixtureRoot fx)) CtxLive Inr [''1''] ''/d/out'' 0 sampleDisk0 = (s', Some err)
     \<and> entryAt (disk s') [''d'', ''out''] = Some (FileEntry ''old'')"
proof -
  have "\<exists>fx. ServeDirectoryWithSymlink sampleEnv sampleLib ''/etc/passwd'' = Inr fx"
    by (simp add: ServeDirectoryWithSymlink_def unixfsSymlink_def unixfsBytes_def serveNodes_def startPeer_def sampleEnv_def
        sampleLib_def Let_def peerAddr_def)
  then obtain fx where fx: "ServeDirectoryWithSymlink sampleEnv sampleLib ''/etc/passwd'' = Inr fx" by blast
  let ?run = "download (sampleAnswers (fixtureStore fx) (fixtureRoot fx)) CtxLive Inr [''1''] ''/d/out'' 0 sampleDisk0"
  obtain s' err where run: "?run = (s', err)" by (cases ?run)
  have dl: "downloadable scratchPrefix ''/d/out'' [''1''] (disk sampleDisk0)" using dataDisk_downloadable by simp
  have "err \<noteq> None \<and> entryAt (disk s') [''d'', ''out''] = entryAt dataDisk [''d'', ''out'']"
    using symlink_fixtures_refused [OF sampleLibOk disjI2 [OF fx] dl _ run] by (auto simp: sampleKeys)
  then show ?thesis using fx run by (auto simp: dataDisk_def entryAt_def)
qed

theorem underdeclared_file_judged_witness:
  "\<exists>fx s'. ServeUnderdeclaredFile sampleEnv sampleLib 2 3 4 = Inr fx
     \<and> download (sampleAnswers (fixtureStore fx) (fixtureRoot fx)) CtxLive Inr [''1''] ''/d/out'' 10 sampleDisk0
       = (s', Some (SizeLimitError 11 10))
     \<and> entryAt (disk s') [''d'', ''out''] = Some (FileEntry ''old'')"
proof -
  have "\<exists>fx. ServeUnderdeclaredFile sampleEnv sampleLib 2 3 4 = Inr fx"
    by (simp add: ServeUnderdeclaredFile_def upt_rec withDeclaredFileSize_def serveNodes_def startPeer_def sampleEnv_def
        sampleLib_def Let_def peerAddr_def)
  then obtain fx where fx: "ServeUnderdeclaredFile sampleEnv sampleLib 2 3 4 = Inr fx" by blast
  have pub: "publishable scratchPrefix ''/d/out'' [''1''] (disk sampleDisk0)" using dataDisk_publishable by simp
  from underdeclared_file_judged [OF sampleLibOk fx _ pub, of 10] fx show ?thesis
    by (auto simp: sampleKeys dataDisk_def entryAt_def)
qed

end
