(* ===== verification/Test_Stalled.thy ===== *)
theory Test_Stalled
  imports Dials
begin

text \<open>
  The stalled peer of \<open>internal/testpeer/testpeer.go\<close>: a listener whose goroutine accepts connections
  and puts them in a channel of sixteen, and the cleanup that closes the listener and drains the
  channel, as interleaving steps.
\<close>

section \<open>The accept loop and the cleanup\<close>

text \<open>
  The accept goroutine: inside \<open>Accept\<close>; with a connection to send; back with an error, about to close
  the channel; gone.
\<close>

datatype acceptPc = Accepting | Sending nat | Returning | Gone

text \<open>The cleanup: not called yet, since the test runs; at the head of its loop; with a connection to close; through.\<close>

datatype cleanupPc = Testing | Draining | Closing nat | Cleaned

text \<open>
  Connections are numbered as they come; \<open>arrived\<close> and \<open>closedConns\<close> are those accepted and those
  closed so far, in order.
\<close>

record stalled =
  listening :: bool
  acceptor :: acceptPc
  accepted :: "nat list"
  acceptedClosed :: bool
  cleanup :: cleanupPc
  arrived :: "nat list"
  closedConns :: "nat list"

definition acceptedRoom :: nat where
  "acceptedRoom = 16"

definition startStalled :: stalled where
  "startStalled =
     \<lparr>listening = True, acceptor = Accepting, accepted = [], acceptedClosed = False, cleanup = Testing,
      arrived = [], closedConns = []\<rparr>"

inductive stalledStep :: "stalled \<Rightarrow> stalled \<Rightarrow> bool" where
  stalled_accept:
    "\<lbrakk>acceptor s = Accepting; listening s; c = length (arrived s)\<rbrakk>
      \<Longrightarrow> stalledStep s (s\<lparr>acceptor := Sending c, arrived := arrived s @ [c]\<rparr>)"
| stalled_accept_fails: "acceptor s = Accepting \<Longrightarrow> stalledStep s (s\<lparr>acceptor := Returning\<rparr>)"
| stalled_send:
    "\<lbrakk>acceptor s = Sending c; length (accepted s) < acceptedRoom\<rbrakk>
      \<Longrightarrow> stalledStep s (s\<lparr>acceptor := Accepting, accepted := accepted s @ [c]\<rparr>)"
| stalled_close_channel:
    "acceptor s = Returning \<Longrightarrow> stalledStep s (s\<lparr>acceptor := Gone, acceptedClosed := True\<rparr>)"
| stalled_test_ends:
    "cleanup s = Testing \<Longrightarrow> stalledStep s (s\<lparr>listening := False, cleanup := Draining\<rparr>)"
| stalled_receive:
    "\<lbrakk>cleanup s = Draining; accepted s = c # rest\<rbrakk>
      \<Longrightarrow> stalledStep s (s\<lparr>accepted := rest, cleanup := Closing c\<rparr>)"
| stalled_close_conn:
    "cleanup s = Closing c \<Longrightarrow> stalledStep s (s\<lparr>cleanup := Draining, closedConns := closedConns s @ [c]\<rparr>)"
| stalled_drained:
    "\<lbrakk>cleanup s = Draining; accepted s = []; acceptedClosed s\<rbrakk> \<Longrightarrow> stalledStep s (s\<lparr>cleanup := Cleaned\<rparr>)"

inductive_cases stalledStep_cases: "stalledStep s t"

section \<open>Invariant\<close>

text \<open>The connections a goroutine has in its hands.\<close>

fun inHand :: "acceptPc \<Rightarrow> nat list" where
  "inHand (Sending c) = [c]"
| "inHand p = []"

fun inCleanup :: "cleanupPc \<Rightarrow> nat list" where
  "inCleanup (Closing c) = [c]"
| "inCleanup p = []"

definition stalledInv :: "stalled \<Rightarrow> bool" where
  "stalledInv s \<longleftrightarrow>
     arrived s = closedConns s @ inCleanup (cleanup s) @ accepted s @ inHand (acceptor s)
     \<and> arrived s = [0..<length (arrived s)]
     \<and> length (accepted s) \<le> acceptedRoom
     \<and> (acceptedClosed s \<longleftrightarrow> acceptor s = Gone)
     \<and> (listening s \<longleftrightarrow> cleanup s = Testing)
     \<and> (cleanup s = Testing \<longrightarrow> closedConns s = [])
     \<and> (cleanup s = Cleaned \<longrightarrow> accepted s = [] \<and> acceptor s = Gone)"

lemma stalledInv_init: "stalledInv startStalled"
  by (simp add: stalledInv_def startStalled_def)

lemma stalledInv_step:
  assumes "stalledStep s t" and "stalledInv s"
  shows "stalledInv t"
  using assms(1)
proof (cases rule: stalledStep.cases)
  case (stalled_accept c)
  have "arrived s = [0..<c]" using stalled_accept(4) assms(2) unfolding stalledInv_def by metis
  then have "arrived s @ [c] = [0..<length (arrived s @ [c])]" by (simp add: stalled_accept(4))
  then show ?thesis using stalled_accept assms(2) unfolding stalledInv_def by simp
qed (use assms(2) in \<open>auto simp: stalledInv_def\<close>)

interpretation stalling: invariant_system startStalled stalledStep stalledInv
  by unfold_locales (auto intro: stalledInv_init stalledInv_step)

section \<open>How much the cleanup has left to do\<close>

fun acceptLeft :: "acceptPc \<Rightarrow> nat" where
  "acceptLeft (Sending c) = 5"
| "acceptLeft Accepting = 2"
| "acceptLeft Returning = 1"
| "acceptLeft Gone = 0"

fun cleanupLeft :: "cleanupPc \<Rightarrow> nat" where
  "cleanupLeft (Closing c) = 2"
| "cleanupLeft Cleaned = 0"
| "cleanupLeft p = 1"

definition drainLeft :: "stalled \<Rightarrow> nat" where
  "drainLeft s = acceptLeft (acceptor s) + 2 * length (accepted s) + cleanupLeft (cleanup s)"

lemma drainLeft_decreases:
  "stalledStep s t \<Longrightarrow> stalledInv s \<Longrightarrow> cleanup s \<noteq> Testing \<Longrightarrow> drainLeft t < drainLeft s \<and> cleanup t \<noteq> Testing"
  by (cases rule: stalledStep.cases, assumption) (auto simp: drainLeft_def stalledInv_def)

lemma drain_enabled:
  assumes inv: "stalledInv s" and ends: "cleanup s \<noteq> Testing" "cleanup s \<noteq> Cleaned"
  shows "\<exists>t. stalledStep s t"
proof (cases "cleanup s")
  case Draining
  show ?thesis
  proof (cases "accepted s")
    case Nil
    then show ?thesis
      using inv Draining stalled_accept_fails stalled_close_channel stalled_drained stalled_send
      by (cases "acceptor s") (fastforce simp: stalledInv_def acceptedRoom_def)+
  qed (use Draining in \<open>blast intro: stalled_receive\<close>)
qed (use ends stalled_close_conn in blast)+

section \<open>Stalled\<close>

text \<open>
  What the fixture asks for: the port its listener got, a key and the id of that. Where it fails after
  the listener is there, the cleanup is already registered and runs.
\<close>

record 'k stalledEnv =
  listenTCP :: "error + nat"
  generateEd25519 :: "error + 'k"
  idFromKey :: "'k \<Rightarrow> error + string"

definition stalledAddr :: "nat \<Rightarrow> string \<Rightarrow> string" where
  "stalledAddr port pid = ''/ip4/127.0.0.1/tcp/'' @ showInt (int port) @ ''/p2p/'' @ pid"

definition Stalled :: "'k stalledEnv \<Rightarrow> stalled option \<times> (error + string)" where
  "Stalled env =
     (case listenTCP env of
        Inl e \<Rightarrow> (None, Inl (Wrapped ''starting stalled listener'' e))
      | Inr port \<Rightarrow>
          (Some startStalled,
           case generateEd25519 env of
             Inl e \<Rightarrow> Inl (Wrapped ''generating stalled peer identity'' e)
           | Inr pub \<Rightarrow>
               (case idFromKey env pub of
                  Inl e \<Rightarrow> Inl (Wrapped ''deriving stalled peer id'' e)
                | Inr pid \<Rightarrow> Inr (stalledAddr port pid))))"

section \<open>The cleanup ends and leaks nothing\<close>

text \<open>
  While the test runs every accepted connection is held open, seventeen of them at most: sixteen in the
  channel and one that waits to be sent. Once the test is over the run is at most 39 steps long and
  never stuck before the end, and at the end exactly the connections that were accepted are closed, each
  once and in order, and the accept goroutine is gone.
\<close>

theorem stalled_cleans_up:
  assumes "Stalled env = (Some s0, r)" and "reach s0 stalledStep s"
  shows "(cleanup s = Testing \<longrightarrow> closedConns s = [] \<and> length (arrived s) \<le> 17)
    \<and> (cleanup s \<noteq> Testing \<longrightarrow>
         drainLeft s \<le> 39 \<and> (\<forall>t. stalledStep s t \<longrightarrow> drainLeft t < drainLeft s)
         \<and> (cleanup s \<noteq> Cleaned \<longrightarrow> (\<exists>t. stalledStep s t)))
    \<and> (cleanup s = Cleaned \<longrightarrow>
         closedConns s = arrived s \<and> distinct (closedConns s) \<and> acceptor s = Gone \<and> \<not> listening s)"
proof -
  have "s0 = startStalled" using assms(1) by (auto simp: Stalled_def split: sum.splits)
  then have inv: "stalledInv s" using stalling.reach_inv assms(2) by simp
  then have numbered: "distinct (arrived s)" unfolding stalledInv_def by (metis distinct_upt)
  have pcs: "acceptLeft p \<le> 5 \<and> length (inHand p) \<le> 1" "cleanupLeft q \<le> 2" for p q
    by (cases p; simp) (cases q; simp)
  have few: "length (accepted s) \<le> 16" using inv by (simp add: stalledInv_def acceptedRoom_def)
  have "drainLeft s \<le> 39"
    using few pcs(1) [of "acceptor s"] pcs(2) [of "cleanup s"] unfolding drainLeft_def by linarith
  moreover have "closedConns s = [] \<and> length (arrived s) \<le> 17" if "cleanup s = Testing"
    using inv few pcs(1) [of "acceptor s"] that by (auto simp: stalledInv_def)
  moreover have "closedConns s = arrived s \<and> acceptor s = Gone \<and> \<not> listening s" if "cleanup s = Cleaned"
    using inv that by (simp add: stalledInv_def)
  ultimately show ?thesis
    using numbered drainLeft_decreases [OF _ inv] drain_enabled [OF inv] by simp
qed

text \<open>A connection that is being sent when the test ends.\<close>

definition drainedOne :: stalled where
  "drainedOne =
     \<lparr>listening = False, acceptor = Gone, accepted = [], acceptedClosed = True, cleanup = Cleaned,
      arrived = [0], closedConns = [0]\<rparr>"

lemma drainedOne_reach: "reach startStalled stalledStep drainedOne"
proof -
  let ?st = "\<lambda>l a b x c n d. \<lparr>listening = l, acceptor = a, accepted = b, acceptedClosed = x, cleanup = c,
    arrived = n, closedConns = d\<rparr> :: stalled"
  let ?R = "reach startStalled stalledStep"
  have r0: "?R (?st True Accepting [] False Testing [] [])"
    using reach_start [of startStalled] by (simp add: startStalled_def)
  have r1: "?R (?st True (Sending 0) [] False Testing [0] [])"
    by (rule reach_next [OF r0], rule stalled_accept [where c = 0]) simp_all
  have r2: "?R (?st False (Sending 0) [] False Draining [0] [])"
    by (rule reach_next [OF r1], rule stalled_test_ends) simp_all
  have r3: "?R (?st False Accepting [0] False Draining [0] [])"
    by (rule reach_next [OF r2], rule stalled_send [where c = 0]) (simp_all add: acceptedRoom_def)
  have r4: "?R (?st False Accepting [] False (Closing 0) [0] [])"
    by (rule reach_next [OF r3], rule stalled_receive [where c = 0 and rest = "[]"]) simp_all
  have r5: "?R (?st False Returning [] False (Closing 0) [0] [])"
    by (rule reach_next [OF r4], rule stalled_accept_fails) simp_all
  have r6: "?R (?st False Returning [] False Draining [0] [0])"
    by (rule reach_next [OF r5], rule stalled_close_conn [where c = 0]) simp_all
  have r7: "?R (?st False Gone [] True Draining [0] [0])"
    by (rule reach_next [OF r6], rule stalled_close_channel) simp_all
  show ?thesis unfolding drainedOne_def
    by (rule reach_next [OF r7], rule stalled_drained) simp_all
qed

definition stalledSample :: "unit stalledEnv" where
  "stalledSample =
     \<lparr>listenTCP = Inr 40001, generateEd25519 = Inr (), idFromKey = (\<lambda>k. Inr ''12D3KooW'')\<rparr>"

theorem stalled_cleans_up_witness:
  "Stalled stalledSample = (Some startStalled, Inr ''/ip4/127.0.0.1/tcp/40001/p2p/12D3KooW'')
   \<and> reach startStalled stalledStep drainedOne \<and> cleanup drainedOne = Cleaned
   \<and> closedConns drainedOne = arrived drainedOne \<and> acceptor drainedOne = Gone"
proof -
  have port: "showInt 40001 = ''40001''"
    by (simp add: showInt_def showDigits.simps [of 40001] showDigits.simps [of 4000]
          showDigits.simps [of 400] showDigits.simps [of 40] showDigits.simps [of 4]) code_simp
  have run: "Stalled stalledSample = (Some startStalled, Inr ''/ip4/127.0.0.1/tcp/40001/p2p/12D3KooW'')"
    by (simp add: Stalled_def stalledSample_def stalledAddr_def port)
  then show ?thesis
    using stalled_cleans_up [OF run drainedOne_reach] drainedOne_reach by (simp add: drainedOne_def)
qed

end
