(* ===== verification/Closed_Client.thy ===== *)
theory Closed_Client
  imports Lifecycle_Props Get
begin

text \<open>
  \<open>Client.Get\<close> together with the goroutines of \<open>Lifecycle\<close>: what a download does whose client is
  closed before it has got hold of a node.
\<close>

section \<open>A download that holds no node\<close>

text \<open>
  Somewhere in \<open>acquire\<close>, with no node it could keep: whoever has recorded a node of its own while the
  client was open holds that node.
\<close>

fun seeking :: "lifePc \<Rightarrow> bool" where
  "seeking AtAcquire \<longleftrightarrow> True"
| "seeking (Waiting ch) \<longleftrightarrow> True"
| "seeking (Starting ch) \<longleftrightarrow> True"
| "seeking (Started ch r) \<longleftrightarrow> True"
| "seeking (Recorded ch r wasClosed) \<longleftrightarrow> wasClosed \<or> isl r"
| "seeking (Discarding n) \<longleftrightarrow> True"
| "seeking p \<longleftrightarrow> False"

text \<open>The same, or through with an error.\<close>

fun turnedAway :: "lifePc \<Rightarrow> bool" where
  "turnedAway (Releasing r) \<longleftrightarrow> r \<noteq> None"
| "turnedAway (Returned r) \<longleftrightarrow> r \<noteq> None"
| "turnedAway p \<longleftrightarrow> seeking p"

lemma seeking_turnedAway: "seeking p \<Longrightarrow> turnedAway p"
  by (cases p) auto

lemma turnedAway_step:
  assumes "lifeStep s t" and "closed (client s)" and "turnedAway (goroutines s i)"
  shows "turnedAway (goroutines t i)"
  using assms(1)
proof (cases rule: lifeStep.cases)
  case (life_acquire j r c)
  then show ?thesis using assms(2,3) by (auto simp: acquire_def)
next
  case (life_gave_up j ch ctx)
  then show ?thesis using assms(3) by simp
next
  case (life_record j ch r wasClosed c)
  then show ?thesis using assms(2,3) by (auto simp: recordStart_def Let_def)
next
  case (life_wake j ch r wasClosed)
  then show ?thesis using assms(3) by (cases r) auto
next
  case (life_release j r)
  then show ?thesis using assms(3) by auto
qed (use assms(3) in auto)

lemma turnedAway_reach:
  assumes "reach s lifeStep t" and "closed (client s)" and "turnedAway (goroutines s i)"
  shows "turnedAway (goroutines t i)"
  using assms
proof (induction rule: reach.induct)
  case (reach_step u t)
  then show ?case using turnedAway_step closed_reach by blast
qed simp

text \<open>A download that has not even looked at the client is told that it is closed, and nothing else.\<close>

definition refusedClosed :: "lifePc \<Rightarrow> bool" where
  "refusedClosed p \<longleftrightarrow> p = AtAcquire \<or> p = Returned (Some ErrClosed)"

lemma refusedClosed_reach:
  assumes "reach s lifeStep t" and "closed (client s)" and "refusedClosed (goroutines s i)"
  shows "refusedClosed (goroutines t i)"
  using assms
proof (induction rule: reach.induct)
  case (reach_step u t)
  then have "closed (client u)" "refusedClosed (goroutines u i)" using closed_reach by blast+
  with reach_step.hyps(2) show ?case
    by (cases rule: lifeStep.cases) (auto simp: refusedClosed_def acquire_def)
qed simp

section \<open>What Get makes of it\<close>

text \<open>
  What a goroutine has for the channel \<open>getPrimary\<close> waits on, and which case of the \<open>select\<close> can run
  while it is where it is.
\<close>

fun sentBy :: "lifePc \<Rightarrow> error option option" where
  "sentBy (Releasing r) = Some r"
| "sentBy (Returned r) = Some r"
| "sentBy p = None"

fun selectedFrom :: "lifePc \<Rightarrow> selected \<Rightarrow> bool" where
  "selectedFrom p (ResultReady r ctx) \<longleftrightarrow> sentBy p = Some r"
| "selectedFrom p (CtxDone ctx buffered) \<longleftrightarrow> ctx \<noteq> CtxLive \<and> (buffered = None \<or> buffered = sentBy p)"

text \<open>
  A primary phase that is goroutine \<open>i\<close> on its way from state \<open>s\<close> to \<open>t\<close>, where the select runs. What it
  does to the disk it does by \<open>download\<close>, while it uses a node.
\<close>

definition primaryOf :: "lifeSystem \<Rightarrow> lifeSystem \<Rightarrow> nat \<Rightarrow> primaryRun \<Rightarrow> selected \<Rightarrow> bool" where
  "primaryOf s t i p sel \<longleftrightarrow>
     reach s lifeStep t \<and> selectedFrom (goroutines t i) sel \<and> (\<forall>budget sc. snd (p budget sc) = sel)
     \<and> ((\<forall>u n. reach s lifeStep u \<and> reach u lifeStep t \<longrightarrow> goroutines u i \<noteq> Using n)
          \<longrightarrow> (\<forall>budget sc. fst (p budget sc) = sc))"

lemma awaitDownload_turnedAway:
  assumes "turnedAway p" and "selectedFrom p sel"
  shows "\<exists>e. awaitDownload sel = Some e"
proof -
  have "sentBy p \<noteq> Some None" using assms(1) by (cases p) auto
  then show ?thesis
    using assms(2) by (cases sel) (auto split: option.split)
qed

lemma awaitDownload_refusedClosed:
  assumes "refusedClosed p" and "selectedFrom p sel"
  shows "awaitDownload sel = Some ErrClosed \<or> (\<exists>ctx. ctx \<noteq> CtxLive \<and> awaitDownload sel = contextError ctx)"
proof -
  have "r = Some ErrClosed" if "sentBy p = Some r" for r
    using assms(1) that by (auto simp: refusedClosed_def)
  then show ?thesis using assms(2) by (cases sel) (auto simp: conclusive_def split: option.splits)
qed

lemma Get_without_node:
  assumes parsed: "parsedCid g = Inr parsed"
    and failed: "awaitDownload (snd (primary g (primaryDeadline c (timeLeft g)) (scratch w))) = Some err"
    and disk: "fst (primary g (primaryDeadline c (timeLeft g)) (scratch w)) = scratch w"
    and closed: "closedAfterPrimary g"
  shows "Get pf c g cid out limit w =
    (w, if errorsIs err ErrClosed \<or> asSizeLimit err \<noteq> None then Some err
        else if ctxAfterPrimary g \<noteq> CtxLive then contextError (ctxAfterPrimary g)
        else if \<not> fallbackAvailable c then Some err else Some ErrClosed)"
proof -
  have "getPrimary (primary g) (primaryDeadline c (timeLeft g)) w = (w, Some err)"
    using failed disk by (cases "primary g (primaryDeadline c (timeLeft g)) (scratch w)") (simp add: getPrimary_def)
  then show ?thesis using parsed closed by (simp add: Get_def)
qed

text \<open>
  C9. Closed means closed: a download that holds no node when \<open>Close\<close> has run - it has just been called,
  waits for another's start, or is starting a node itself - never gets one. Whatever else happens in
  the client, whichever case the select picks, it fails, nothing on disk has changed for it, and no
  gateway was asked, though the fallback may be allowed. One called on a closed client fails with
  \<open>ErrClosed\<close>, or because its context is over.
\<close>

theorem closed_client_fetches_nothing:
  assumes "isClosed (client s)" and "seeking (goroutines s i)" and "primaryOf s t i (primary g) sel"
    and "closedAfterPrimary g = isClosed (client t)"
  shows "\<exists>e. Get pf c g cid out limit w = (w, Some e)
    \<and> (goroutines s i = AtAcquire \<and> isOk (parsedCid g) \<longrightarrow>
         e = ErrClosed \<or> (\<exists>ctx. ctx \<noteq> CtxLive \<and> Some e = contextError ctx))"
proof (cases "parsedCid g")
  case (Inr parsed)
  have run: "reach s lifeStep t" "selectedFrom (goroutines t i) sel" "snd (primary g b sc) = sel" for b sc
    using assms(3) by (simp_all add: primaryOf_def)
  have cl: "closed (client s)" using assms(1) by (simp add: isClosed_def)
  have away: "turnedAway (goroutines u i)" if "reach s lifeStep u" for u
    using turnedAway_reach [OF that cl seeking_turnedAway [OF assms(2)]] .
  then have disk: "fst (primary g b sc) = sc" for b sc
    using assms(3) unfolding primaryOf_def by fastforce
  obtain err where err: "awaitDownload sel = Some err"
    using awaitDownload_turnedAway [OF away [OF run(1)] run(2)] by blast
  have "closedAfterPrimary g" using assms(4) closed_reach [OF run(1) cl] by (simp add: isClosed_def)
  note get = Get_without_node [OF Inr _ disk this, unfolded run(3), OF err]
  have "err = ErrClosed \<or> (\<exists>ctx. ctx \<noteq> CtxLive \<and> Some err = contextError ctx)" if "goroutines s i = AtAcquire"
    using awaitDownload_refusedClosed [OF refusedClosed_reach [OF run(1) cl] run(2)] that err
    by (auto simp: refusedClosed_def)
  then show ?thesis
    by (cases "contextError (ctxAfterPrimary g)") (use sym in \<open>auto simp: get\<close>)
qed (simp add: Get_def)

text \<open>\<open>Close\<close> runs on a new client, then a download with a fallback is called.\<close>

definition closedRun :: getRun where
  "closedRun = \<lparr>parsedCid = Inr ''bafy'', timeLeft = None,
     primary = \<lambda>budget s. (s, ResultReady (Some ErrClosed) CtxLive),
     ctxAfterPrimary = CtxLive, closedAfterPrimary = True, attempts = \<lambda>i. plainAttempt\<rparr>"

theorem closed_client_fetches_nothing_witness:
  "\<exists>s t. replay [(1, CallClose), (1, Proceed), (0, CallGet)] (lifeInit 5) = Some s \<and> replay [(0, Proceed)] s = Some t
    \<and> isClosed (client s) \<and> seeking (goroutines s 0) \<and> goroutines t 0 = Returned (Some ErrClosed)
    \<and> (\<exists>e. Get plainPlatform fallbackClient closedRun ''bafy'' ''/d/out'' 5 plainWorld = (plainWorld, Some e))"
proof -
  have "\<exists>s t. replay [(1, CallClose), (1, Proceed), (0, CallGet)] (lifeInit 5) = Some s \<and> replay [(0, Proceed)] s = Some t
      \<and> isClosed (client s) \<and> isClosed (client t) \<and> goroutines s 0 = AtAcquire \<and> goroutines t 0 = Returned (Some ErrClosed)"
    by (simp add: replay_simps isClosed_def)
  then obtain s t where st: "replay [(1, CallClose), (1, Proceed), (0, CallGet)] (lifeInit 5) = Some s"
      "replay [(0, Proceed)] s = Some t" "isClosed (client s)" "isClosed (client t)"
      "goroutines s 0 = AtAcquire" "goroutines t 0 = Returned (Some ErrClosed)" by blast
  have "primaryOf s t 0 (primary closedRun) (ResultReady (Some ErrClosed) CtxLive)"
    using replay_reach [OF st(2) reach_start] st(6) by (simp add: primaryOf_def closedRun_def)
  then have "\<exists>e. Get plainPlatform fallbackClient closedRun ''bafy'' ''/d/out'' 5 plainWorld = (plainWorld, Some e)"
    using closed_client_fetches_nothing [of s 0 t closedRun] st by (fastforce simp: closedRun_def)
  then show ?thesis using st by auto
qed

end
