(* ===== verification/Concurrent_Output.thy ===== *)
theory Concurrent_Output
  imports Output Path_Locks
begin

text \<open>
  \<open>replace\<close> of \<open>output.go\<close> run by several downloads at once: one step for each system call and for each
  section and channel operation of the lock, in any interleaving. Only the second and later renames are
  under the lock, and \<open>os.RemoveAll\<close> takes away what is at the output piece by piece.
\<close>

section \<open>The interleaved replacements\<close>

text \<open>
  Where a call of \<open>replace\<close> is: at its start; past the check of the context; on its way through
  \<open>outputs.lock\<close>; leaving that without the lock; holding it, before the second rename; inside
  \<open>RemoveAll\<close>; before the last rename; in the deferred unlock; returned.
\<close>

datatype replacePc =
    Entering
  | FirstRename
  | Locking
  | GivingUp "error option"
  | SecondRename
  | Removing
  | LastRename
  | Unlocking "error option"
  | Finished "error option"

text \<open>The disk, the locks, and the calls by number.\<close>

record outputSystem =
  shared :: filesystem
  lockState :: lockSystem
  places :: "nat \<Rightarrow> replacePc"

definition outputInit :: "filesystem \<Rightarrow> outputSystem" where
  "outputInit fs = \<lparr>shared = fs, lockState = lockInit, places = \<lambda>_. Entering\<rparr>"

definition proceed :: "nat \<Rightarrow> replacePc \<Rightarrow> filesystem \<Rightarrow> outputSystem \<Rightarrow> outputSystem" where
  "proceed i p fs s = s\<lparr>shared := fs, places := (places s)(i := p)\<rparr>"

definition relock :: "nat \<Rightarrow> lockPc \<Rightarrow> pathLocks \<Rightarrow> replacePc \<Rightarrow> outputSystem \<Rightarrow> outputSystem" where
  "relock i q l p s = s\<lparr>lockState := moveTo i q l (lockState s), places := (places s)(i := p)\<rparr>"

text \<open>Call \<open>i\<close> replaces the output \<open>snd (jobs ! i)\<close> by what is staged at \<open>fst (jobs ! i)\<close>.\<close>

inductive outputStep :: "(string \<times> string) list \<Rightarrow> outputSystem \<Rightarrow> outputSystem \<Rightarrow> bool" for jobs where
  out_ended:
    "\<lbrakk>i < length jobs; places s i = Entering; ctx \<noteq> CtxLive\<rbrakk>
      \<Longrightarrow> outputStep jobs s (proceed i (Finished (contextError ctx)) (shared s) s)"
| out_live:
    "\<lbrakk>i < length jobs; places s i = Entering\<rbrakk> \<Longrightarrow> outputStep jobs s (proceed i FirstRename (shared s) s)"
| out_first:
    "\<lbrakk>places s i = FirstRename; jobs ! i = (staged, out); osRename staged out (shared s) = Inr fs\<rbrakk>
      \<Longrightarrow> outputStep jobs s (proceed i (Finished None) fs s)"
| out_first_fails:
    "\<lbrakk>places s i = FirstRename; jobs ! i = (staged, out); osRename staged out (shared s) = Inl e\<rbrakk>
      \<Longrightarrow> outputStep jobs s (proceed i Locking (shared s) s)"
| out_join:
    "\<lbrakk>places s i = Locking; pcs (lockState s) i = Outside; key = Clean (snd (jobs ! i));
      joinQueue key (locks (lockState s)) = (g, l)\<rbrakk>
      \<Longrightarrow> outputStep jobs s (relock i (Selecting key g) l Locking s)"
| out_granted:
    "\<lbrakk>places s i = Locking; pcs (lockState s) i = Selecting key g; sendGate g (locks (lockState s)) = Some l\<rbrakk>
      \<Longrightarrow> outputStep jobs s (relock i (Holding key g) l SecondRename s)"
| out_gave_up:
    "\<lbrakk>places s i = Locking; pcs (lockState s) i = Selecting key g; ctx \<noteq> CtxLive\<rbrakk>
      \<Longrightarrow> outputStep jobs s (relock i (Leaving key) (locks (lockState s)) (GivingUp (contextError ctx)) s)"
| out_left:
    "\<lbrakk>places s i = GivingUp r; pcs (lockState s) i = Leaving key\<rbrakk>
      \<Longrightarrow> outputStep jobs s (relock i Outside (releasePath key (locks (lockState s))) (Finished r) s)"
| out_second:
    "\<lbrakk>places s i = SecondRename; jobs ! i = (staged, out); osRename staged out (shared s) = Inr fs\<rbrakk>
      \<Longrightarrow> outputStep jobs s (proceed i (Unlocking None) fs s)"
| out_second_fails:
    "\<lbrakk>places s i = SecondRename; jobs ! i = (staged, out); osRename staged out (shared s) = Inl e\<rbrakk>
      \<Longrightarrow> outputStep jobs s (proceed i Removing (shared s) s)"
| out_removing:
    "\<lbrakk>places s i = Removing; underKey (fsKey (shared s) (snd (jobs ! i))) (fsKey (shared s) p); p \<noteq> [];
      entryAt (shared s) (fsKey (shared s) p) \<noteq> None; osRemoveAll p (shared s) = (fs, None)\<rbrakk>
      \<Longrightarrow> outputStep jobs s (proceed i Removing fs s)"
| out_removed:
    "\<lbrakk>places s i = Removing; osRemoveAll (snd (jobs ! i)) (shared s) = (fs, None)\<rbrakk>
      \<Longrightarrow> outputStep jobs s (proceed i LastRename fs s)"
| out_not_removed:
    "\<lbrakk>places s i = Removing; osRemoveAll (snd (jobs ! i)) (shared s) = (fs, Some e)\<rbrakk>
      \<Longrightarrow> outputStep jobs s (proceed i (Unlocking (Some e)) fs s)"
| out_last:
    "\<lbrakk>places s i = LastRename; jobs ! i = (staged, out); osRename staged out (shared s) = Inr fs\<rbrakk>
      \<Longrightarrow> outputStep jobs s (proceed i (Unlocking None) fs s)"
| out_last_fails:
    "\<lbrakk>places s i = LastRename; jobs ! i = (staged, out); osRename staged out (shared s) = Inl e\<rbrakk>
      \<Longrightarrow> outputStep jobs s (proceed i (Unlocking (Some e)) (shared s) s)"
| out_unlock:
    "\<lbrakk>places s i = Unlocking r; pcs (lockState s) i = Holding key g; receiveGate g (locks (lockState s)) = Some l\<rbrakk>
      \<Longrightarrow> outputStep jobs s (relock i (Leaving key) l (GivingUp r) s)"

inductive_cases outputStep_cases: "outputStep jobs s t"

lemma proceed_simps [simp]:
  "shared (proceed i p fs s) = fs" "lockState (proceed i p fs s) = lockState s"
  "places (proceed i p fs s) = (places s)(i := p)"
  by (simp_all add: proceed_def)

lemma relock_simps [simp]:
  "shared (relock i q l p s) = shared s" "lockState (relock i q l p s) = moveTo i q l (lockState s)"
  "places (relock i q l p s) = (places s)(i := p)"
  by (simp_all add: relock_def)

section \<open>Who holds the lock\<close>

text \<open>Where a call may be in \<open>lock\<close>, given where it is in \<open>replace\<close>; \<open>key\<close> is its cleaned output.\<close>

fun lockFits :: "string \<Rightarrow> replacePc \<Rightarrow> lockPc \<Rightarrow> bool" where
  "lockFits key Locking q \<longleftrightarrow> q = Outside \<or> (\<exists>g. q = Selecting key g)"
| "lockFits key (GivingUp r) q \<longleftrightarrow> q = Leaving key"
| "lockFits key SecondRename q \<longleftrightarrow> (\<exists>g. q = Holding key g)"
| "lockFits key Removing q \<longleftrightarrow> (\<exists>g. q = Holding key g)"
| "lockFits key LastRename q \<longleftrightarrow> (\<exists>g. q = Holding key g)"
| "lockFits key (Unlocking r) q \<longleftrightarrow> (\<exists>g. q = Holding key g)"
| "lockFits key p q \<longleftrightarrow> q = Outside"

fun clearing :: "replacePc \<Rightarrow> bool" where
  "clearing Removing \<longleftrightarrow> True"
| "clearing LastRename \<longleftrightarrow> True"
| "clearing p \<longleftrightarrow> False"

fun succeeded :: "replacePc \<Rightarrow> bool" where
  "succeeded (Unlocking r) \<longleftrightarrow> r = None"
| "succeeded (GivingUp r) \<longleftrightarrow> r = None"
| "succeeded (Finished r) \<longleftrightarrow> r = None"
| "succeeded p \<longleftrightarrow> False"

definition queueInv :: "(string \<times> string) list \<Rightarrow> outputSystem \<Rightarrow> bool" where
  "queueInv jobs s \<longleftrightarrow>
     lockInv (lockState s)
     \<and> (\<forall>i. lockFits (Clean (snd (jobs ! i))) (places s i) (pcs (lockState s) i)
          \<and> (places s i \<noteq> Entering \<longrightarrow> i < length jobs))"

lemma queueInv_init: "queueInv jobs (outputInit fs)"
  using lockInv_init by (simp add: queueInv_def outputInit_def lockInit_def)

lemma queueInv_proceed:
  assumes "queueInv jobs s" and "i < length jobs \<or> places s i \<noteq> Entering"
    and "\<And>q. lockFits (Clean (snd (jobs ! i))) (places s i) q \<Longrightarrow> lockFits (Clean (snd (jobs ! i))) p q"
  shows "queueInv jobs (proceed i p fs s)"
  using assms by (auto simp: queueInv_def)

lemma queueInv_relock:
  assumes "queueInv jobs s" and "lockStep (lockState s) (moveTo i q l (lockState s))"
    and "lockFits (Clean (snd (jobs ! i))) p q" and "i < length jobs"
  shows "queueInv jobs (relock i q l p s)"
  using assms lockInv_step by (simp add: queueInv_def)

lemma queueInv_fits:
  assumes "queueInv jobs s"
  shows "lockFits (Clean (snd (jobs ! i))) (places s i) (pcs (lockState s) i)"
    and "places s i \<noteq> Entering \<Longrightarrow> i < length jobs"
  using assms by (simp_all add: queueInv_def)

lemma queueInv_step:
  assumes step: "outputStep jobs s t" and inv: "queueInv jobs s"
  shows "queueInv jobs t"
  using step
proof (cases rule: outputStep.cases)
  case (out_join i key g l)
  then show ?thesis
    using queueInv_fits(2) [OF inv, of i] lock_call [of "lockState s" i key "snd (jobs ! i)" g l]
    by (auto intro: queueInv_relock [OF inv])
next
  case (out_granted i key g l)
  then show ?thesis
    using queueInv_fits [OF inv, of i] lock_granted [of "lockState s" i key g l]
    by (auto intro: queueInv_relock [OF inv])
next
  case (out_gave_up i key g ctx)
  then show ?thesis
    using queueInv_fits [OF inv, of i] lock_done [of "lockState s" i key g]
    by (auto intro: queueInv_relock [OF inv])
next
  case (out_left i r key)
  then show ?thesis
    using queueInv_fits [OF inv, of i] lock_release [of "lockState s" i key]
    by (auto intro: queueInv_relock [OF inv])
next
  case (out_unlock i r key g l)
  then show ?thesis
    using queueInv_fits [OF inv, of i] lock_unlock [of "lockState s" i key g l]
    by (auto intro: queueInv_relock [OF inv])
qed (auto intro!: queueInv_proceed [OF inv])

text \<open>One call at a time clears an output.\<close>

lemma clearing_unique:
  assumes inv: "queueInv jobs s" and "clearing (places s i)" and "clearing (places s j)"
    and "Clean (snd (jobs ! i)) = Clean (snd (jobs ! j))"
  shows "i = j"
proof -
  have "\<exists>g. pcs (lockState s) k = Holding (Clean (snd (jobs ! k))) g" if "clearing (places s k)" for k
    using that queueInv_fits(1) [OF inv, of k] by (cases "places s k") auto
  then show ?thesis using holder_unique [of "lockState s"] inv assms(2-4) unfolding queueInv_def by metis
qed

section \<open>What is on the disk\<close>

text \<open>
  Everything is in its place to begin with: each call has something staged and an output it can clear,
  no staged entry is inside another or has to do with an output, and two outputs are either the same, also
  as the lock spells them, or apart.
\<close>

definition stagedKey :: "(string \<times> string) list \<Rightarrow> filesystem \<Rightarrow> nat \<Rightarrow> key" where
  "stagedKey jobs fs i = fsKey fs (fst (jobs ! i))"

definition outputKey :: "(string \<times> string) list \<Rightarrow> filesystem \<Rightarrow> nat \<Rightarrow> key" where
  "outputKey jobs fs i = fsKey fs (snd (jobs ! i))"

definition jobsApart :: "(string \<times> string) list \<Rightarrow> filesystem \<Rightarrow> bool" where
  "jobsApart jobs fs \<longleftrightarrow>
     wfTree fs
     \<and> (\<forall>i < length jobs. placed (fst (jobs ! i)) (snd (jobs ! i)) fs \<and> snd (osRemoveAll (snd (jobs ! i)) fs) = None)
     \<and> (\<forall>i < length jobs. \<forall>j < length jobs.
          \<not> underKey (stagedKey jobs fs i) (outputKey jobs fs j) \<and> \<not> underKey (outputKey jobs fs j) (stagedKey jobs fs i)
          \<and> (i \<noteq> j \<longrightarrow> \<not> underKey (stagedKey jobs fs i) (stagedKey jobs fs j))
          \<and> (outputKey jobs fs i = outputKey jobs fs j \<longrightarrow> Clean (snd (jobs ! i)) = Clean (snd (jobs ! j)))
          \<and> (outputKey jobs fs i \<noteq> outputKey jobs fs j \<longrightarrow> \<not> underKey (outputKey jobs fs i) (outputKey jobs fs j)))"

text \<open>Below \<open>b\<close> there is what call \<open>j\<close> had staged; or nothing.\<close>

definition showsJob :: "(string \<times> string) list \<Rightarrow> filesystem \<Rightarrow> nat \<Rightarrow> key \<Rightarrow> filesystem \<Rightarrow> bool" where
  "showsJob jobs fs0 j b fs \<longleftrightarrow> (\<forall>z. entryAt fs (b @ z) = entryAt fs0 (stagedKey jobs fs0 j @ z))"

definition vacant :: "key \<Rightarrow> filesystem \<Rightarrow> bool" where
  "vacant b fs \<longleftrightarrow> (\<forall>z. entryAt fs (b @ z) = None)"

definition deliveredAt :: "(string \<times> string) list \<Rightarrow> filesystem \<Rightarrow> key \<Rightarrow> outputSystem \<Rightarrow> bool" where
  "deliveredAt jobs fs0 b s \<longleftrightarrow>
     (\<exists>j < length jobs. outputKey jobs fs0 j = b \<and> succeeded (places s j) \<and> showsJob jobs fs0 j b (shared s))"

definition untouchedAt :: "(string \<times> string) list \<Rightarrow> filesystem \<Rightarrow> key \<Rightarrow> outputSystem \<Rightarrow> bool" where
  "untouchedAt jobs fs0 b s \<longleftrightarrow>
     (\<forall>j < length jobs. outputKey jobs fs0 j = b \<longrightarrow> \<not> succeeded (places s j))
     \<and> (\<forall>z. entryAt (shared s) (b @ z) = entryAt fs0 (b @ z))"

text \<open>The three parts of the invariant: the staged entries, the outputs, and everything else.\<close>

definition stagedInv :: "(string \<times> string) list \<Rightarrow> filesystem \<Rightarrow> outputSystem \<Rightarrow> bool" where
  "stagedInv jobs fs0 s \<longleftrightarrow>
     (\<forall>i < length jobs. if succeeded (places s i) then vacant (stagedKey jobs fs0 i) (shared s)
        else showsJob jobs fs0 i (stagedKey jobs fs0 i) (shared s))"

definition outputsInv :: "(string \<times> string) list \<Rightarrow> filesystem \<Rightarrow> outputSystem \<Rightarrow> bool" where
  "outputsInv jobs fs0 s \<longleftrightarrow>
     (\<forall>i < length jobs.
        (places s i = LastRename \<longrightarrow>
           vacant (outputKey jobs fs0 i) (shared s) \<or> deliveredAt jobs fs0 (outputKey jobs fs0 i) s)
        \<and> ((\<forall>j < length jobs. outputKey jobs fs0 j = outputKey jobs fs0 i \<longrightarrow> \<not> clearing (places s j)) \<longrightarrow>
             deliveredAt jobs fs0 (outputKey jobs fs0 i) s \<or> untouchedAt jobs fs0 (outputKey jobs fs0 i) s))"

definition elsewhereInv :: "(string \<times> string) list \<Rightarrow> filesystem \<Rightarrow> outputSystem \<Rightarrow> bool" where
  "elsewhereInv jobs fs0 s \<longleftrightarrow>
     wfTree (shared s) \<and> cwd (shared s) = cwd fs0
     \<and> (\<forall>k. (\<forall>i < length jobs. \<not> underKey (stagedKey jobs fs0 i) k \<and> \<not> underKey (outputKey jobs fs0 i) k)
          \<longrightarrow> entryAt (shared s) k = entryAt fs0 k)"

definition outputInv :: "(string \<times> string) list \<Rightarrow> filesystem \<Rightarrow> outputSystem \<Rightarrow> bool" where
  "outputInv jobs fs0 s \<longleftrightarrow>
     jobsApart jobs fs0 \<and> queueInv jobs s \<and> stagedInv jobs fs0 s \<and> outputsInv jobs fs0 s \<and> elsewhereInv jobs fs0 s"

lemma outputInv_init:
  assumes "jobsApart jobs fs"
  shows "outputInv jobs fs (outputInit fs)"
proof -
  have "wfTree fs" using assms by (simp add: jobsApart_def)
  then have "stagedInv jobs fs (outputInit fs)" "outputsInv jobs fs (outputInit fs)" "elsewhereInv jobs fs (outputInit fs)"
    by (simp_all add: stagedInv_def outputsInv_def elsewhereInv_def outputInit_def showsJob_def untouchedAt_def)
  then show ?thesis using assms queueInv_init by (simp add: outputInv_def)
qed

section \<open>Every step keeps it\<close>

text \<open>A step that leaves the disk alone.\<close>

lemma same_success:
  assumes "shared t = shared s" and "\<And>j. succeeded (places t j) \<longleftrightarrow> succeeded (places s j)"
  shows "deliveredAt jobs fs0 b t \<longleftrightarrow> deliveredAt jobs fs0 b s" and "untouchedAt jobs fs0 b t \<longleftrightarrow> untouchedAt jobs fs0 b s"
    and "stagedInv jobs fs0 t \<longleftrightarrow> stagedInv jobs fs0 s" and "elsewhereInv jobs fs0 t \<longleftrightarrow> elsewhereInv jobs fs0 s"
  using assms by (simp_all add: deliveredAt_def untouchedAt_def stagedInv_def elsewhereInv_def)

lemma outputInv_still:
  assumes inv: "outputInv jobs fs0 s" and t: "shared t = shared s" "places t = (places s)(i := p)" "queueInv jobs t"
    and p: "succeeded p \<longleftrightarrow> succeeded (places s i)" "p \<noteq> LastRename"
    and leaves: "clearing (places s i) \<Longrightarrow> clearing p \<or> deliveredAt jobs fs0 (outputKey jobs fs0 i) s"
  shows "outputInv jobs fs0 t"
proof -
  have "\<And>j. succeeded (places t j) \<longleftrightarrow> succeeded (places s j)" using t(2) p(1) by simp
  note same = same_success [OF t(1) this]
  have "outputsInv jobs fs0 t"
    unfolding outputsInv_def same t(1)
  proof (intro allI impI conjI)
    fix j assume j: "j < length jobs"
    show "vacant (outputKey jobs fs0 j) (shared s) \<or> deliveredAt jobs fs0 (outputKey jobs fs0 j) s" if "places t j = LastRename"
    proof -
      have "places s j = LastRename" using that t(2) p(2) by (auto split: if_splits)
      then show ?thesis using inv j by (simp add: outputInv_def outputsInv_def)
    qed
    assume free: "\<forall>k < length jobs. outputKey jobs fs0 k = outputKey jobs fs0 j \<longrightarrow> \<not> clearing (places t k)"
    show "deliveredAt jobs fs0 (outputKey jobs fs0 j) s \<or> untouchedAt jobs fs0 (outputKey jobs fs0 j) s"
    proof (cases "\<forall>k < length jobs. outputKey jobs fs0 k = outputKey jobs fs0 j \<longrightarrow> \<not> clearing (places s k)")
      case True
      then show ?thesis using inv j by (simp add: outputInv_def outputsInv_def)
    next
      case False
      then obtain k where k: "k < length jobs" "outputKey jobs fs0 k = outputKey jobs fs0 j" "clearing (places s k)" by blast
      then have "\<not> clearing (places t k)" using free by blast
      then have "k = i" "\<not> clearing p" using k(3) t(2) by (auto split: if_splits)
      then show ?thesis using leaves k by auto
    qed
  qed
  then show ?thesis using inv t(3) same by (simp add: outputInv_def)
qed

text \<open>The keys of the jobs are the same all along, and the outputs' directories stay.\<close>

lemma outputInv_keys:
  assumes "outputInv jobs fs0 s"
  shows "fsKey (shared s) (fst (jobs ! i)) = stagedKey jobs fs0 i" and "fsKey (shared s) (snd (jobs ! i)) = outputKey jobs fs0 i"
  using assms fsKey_cwd [of "shared s" fs0] by (simp_all add: outputInv_def elsewhereInv_def stagedKey_def outputKey_def)

lemma jobsApart_at:
  assumes "jobsApart jobs fs" and "i < length jobs" and "j < length jobs"
  shows "\<not> underKey (stagedKey jobs fs i) (outputKey jobs fs j)" and "\<not> underKey (outputKey jobs fs j) (stagedKey jobs fs i)"
    and "i \<noteq> j \<Longrightarrow> \<not> underKey (stagedKey jobs fs i) (stagedKey jobs fs j)"
    and "outputKey jobs fs i = outputKey jobs fs j \<Longrightarrow> Clean (snd (jobs ! i)) = Clean (snd (jobs ! j))"
    and "outputKey jobs fs i \<noteq> outputKey jobs fs j \<Longrightarrow> \<not> underKey (outputKey jobs fs i) (outputKey jobs fs j)"
    and "placed (fst (jobs ! i)) (snd (jobs ! i)) fs" and "snd (osRemoveAll (snd (jobs ! i)) fs) = None"
  using assms unfolding jobsApart_def by blast+

lemma outputInv_parents:
  assumes inv: "outputInv jobs fs0 s" and i: "i < length jobs"
  shows "walkErr (shared s) [] (outputKey jobs fs0 i) = None"
proof -
  have apart: "jobsApart jobs fs0" using inv by (simp add: outputInv_def)
  have w0: "walkErr fs0 [] (outputKey jobs fs0 i) = None"
    using jobsApart_at(6) [OF apart i i] by (simp add: placed_def outputKey_def)
  have "entryAt (shared s) q = Some DirEntry" if q: "underKey q (outputKey jobs fs0 i)" "q \<noteq> outputKey jobs fs0 i" for q
  proof -
    have "\<not> underKey (stagedKey jobs fs0 j) q \<and> \<not> underKey (outputKey jobs fs0 j) q" if j: "j < length jobs" for j
    proof -
      have "outputKey jobs fs0 j = outputKey jobs fs0 i" if "underKey (outputKey jobs fs0 j) q"
        using jobsApart_at(5) [OF apart j i] underKey_trans [OF that q(1)] by blast
      then have "\<not> underKey (outputKey jobs fs0 j) q" using q by (auto simp: underKey_iff)
      moreover have "\<not> underKey (stagedKey jobs fs0 j) q"
        using jobsApart_at(1) [OF apart j i] underKey_trans [OF _ q(1)] by blast
      ultimately show ?thesis by blast
    qed
    then have "entryAt (shared s) q = entryAt fs0 q" using inv by (simp add: outputInv_def elsewhereInv_def)
    then show ?thesis using w0 q walkErr_None_iff by auto
  qed
  then show ?thesis by (auto simp: walkErr_None_iff)
qed

lemma stagedInvD:
  "stagedInv jobs fs0 s \<Longrightarrow> i < length jobs \<Longrightarrow> \<not> succeeded (places s i)
    \<Longrightarrow> entryAt (shared s) (stagedKey jobs fs0 i @ z) = entryAt fs0 (stagedKey jobs fs0 i @ z)"
  unfolding stagedInv_def showsJob_def by metis

text \<open>An output that a step has nothing to do with.\<close>

definition outputOk :: "(string \<times> string) list \<Rightarrow> filesystem \<Rightarrow> outputSystem \<Rightarrow> nat \<Rightarrow> bool" where
  "outputOk jobs fs0 s j \<longleftrightarrow>
     (places s j = LastRename \<longrightarrow> vacant (outputKey jobs fs0 j) (shared s) \<or> deliveredAt jobs fs0 (outputKey jobs fs0 j) s)
     \<and> ((\<forall>k < length jobs. outputKey jobs fs0 k = outputKey jobs fs0 j \<longrightarrow> \<not> clearing (places s k)) \<longrightarrow>
          deliveredAt jobs fs0 (outputKey jobs fs0 j) s \<or> untouchedAt jobs fs0 (outputKey jobs fs0 j) s)"

lemma outputsInv_iff: "outputsInv jobs fs0 s \<longleftrightarrow> (\<forall>j < length jobs. outputOk jobs fs0 s j)"
  by (simp add: outputsInv_def outputOk_def)

lemma outputOk_other:
  assumes "outputOk jobs fs0 s j" and "outputKey jobs fs0 j \<noteq> outputKey jobs fs0 i"
    and "\<And>z. entryAt fs (outputKey jobs fs0 j @ z) = entryAt (shared s) (outputKey jobs fs0 j @ z)"
  shows "outputOk jobs fs0 (proceed i p fs s) j"
proof -
  let ?t = "proceed i p fs s" and ?c = "outputKey jobs fs0 j"
  have pl: "places ?t k = places s k" if "outputKey jobs fs0 k = ?c" for k using that assms(2) by auto
  have sh: "showsJob jobs fs0 k ?c fs \<longleftrightarrow> showsJob jobs fs0 k ?c (shared s)" "vacant ?c fs \<longleftrightarrow> vacant ?c (shared s)" for k
    using assms(3) by (simp_all add: showsJob_def vacant_def)
  have "deliveredAt jobs fs0 ?c ?t \<longleftrightarrow> deliveredAt jobs fs0 ?c s"
    unfolding deliveredAt_def proceed_simps(1) sh using pl by metis
  moreover have "untouchedAt jobs fs0 ?c ?t \<longleftrightarrow> untouchedAt jobs fs0 ?c s"
    unfolding untouchedAt_def proceed_simps(1) assms(3) using pl by metis
  ultimately show ?thesis using assms(1) pl sh(2) unfolding outputOk_def by (metis proceed_simps(1))
qed

text \<open>A rename that goes through: the call's entry is at its output, whatever was there.\<close>

lemma outputInv_publish:
  assumes inv: "outputInv jobs fs0 s" and i: "i < length jobs" "\<not> succeeded (places s i)"
    and rn: "osRename (fst (jobs ! i)) (snd (jobs ! i)) (shared s) = Inr fs"
    and p: "succeeded p" "\<not> clearing p" "queueInv jobs (proceed i p fs s)"
  shows "outputInv jobs fs0 (proceed i p fs s)"
proof -
  let ?t = "proceed i p fs s" and ?a = "stagedKey jobs fs0 i" and ?b = "outputKey jobs fs0 i"
  have apart: "jobsApart jobs fs0" using inv by (simp add: outputInv_def)
  note at = jobsApart_at [OF apart]
  have ne: "?a \<noteq> ?b" using at(1) [OF i(1) i(1)] by auto
  note ef = osRename_effect [OF rn, unfolded outputInv_keys [OF inv], OF ne]
  have mine: "entryAt (shared s) (?a @ z) = entryAt fs0 (?a @ z)" for z
    using stagedInvD [OF _ i] inv by (simp add: outputInv_def)
  have delivered: "deliveredAt jobs fs0 ?b ?t"
    using i(1) p(1) ef(1) mine by (auto simp: deliveredAt_def showsJob_def)
  have outs: "entryAt fs (outputKey jobs fs0 j @ z) = entryAt (shared s) (outputKey jobs fs0 j @ z)"
    if j: "j < length jobs" "outputKey jobs fs0 j \<noteq> ?b" for j z
    using underKey_apart [OF at(2) [OF i(1) j(1)] at(1) [OF i(1) j(1)], of z]
      underKey_apart [OF at(5) [OF j(1) i(1) j(2)] at(5) [OF i(1) j(1)], of z] j(2) by (intro ef(3)) auto
  have stgd: "entryAt fs (stagedKey jobs fs0 j @ z) = entryAt (shared s) (stagedKey jobs fs0 j @ z)"
    if j: "j < length jobs" "j \<noteq> i" for j z
    using underKey_apart [OF at(3) [OF j(1) i(1) j(2)] at(3) [OF i(1) j(1)], of z] j(2)
      underKey_apart [OF at(1) [OF j(1) i(1)] at(2) [OF j(1) i(1)], of z] by (intro ef(3)) auto
  have "stagedInv jobs fs0 ?t"
    using inv i stgd ef(2) p(1) by (auto simp: outputInv_def stagedInv_def vacant_def showsJob_def)
  moreover have "elsewhereInv jobs fs0 ?t"
    using inv i(1) ef(3,4) wfTree_osRename [OF _ rn] by (simp add: outputInv_def elsewhereInv_def)
  moreover have "outputsInv jobs fs0 ?t"
    unfolding outputsInv_iff
  proof (intro allI impI)
    fix j assume j: "j < length jobs"
    show "outputOk jobs fs0 ?t j"
    proof (cases "outputKey jobs fs0 j = ?b")
      case False
      then show ?thesis
        using inv j outs [OF j] i(2) by (intro outputOk_other) (auto simp: outputInv_def outputsInv_iff)
    qed (simp add: outputOk_def delivered)
  qed
  ultimately show ?thesis using apart p(3) by (simp add: outputInv_def)
qed

text \<open>Something at or below the output of the call that clears it goes.\<close>

lemma outputInv_remove:
  assumes inv: "outputInv jobs fs0 s" and i: "i < length jobs" "places s i = Removing"
    and below: "underKey (outputKey jobs fs0 i) (fsKey (shared s) q)" "q \<noteq> []"
    and rm: "osRemoveAll q (shared s) = (fs, None)"
    and p: "p = Removing \<or> p = LastRename \<and> fsKey (shared s) q = outputKey jobs fs0 i" "queueInv jobs (proceed i p fs s)"
  shows "outputInv jobs fs0 (proceed i p fs s)"
proof -
  let ?t = "proceed i p fs s" and ?b = "outputKey jobs fs0 i"
  have apart: "jobsApart jobs fs0" and que: "queueInv jobs s" and wf: "wfTree (shared s)"
    using inv by (simp_all add: outputInv_def elsewhereInv_def)
  note at = jobsApart_at [OF apart]
  note ef = osRemoveAll_effect [OF wf rm below(2)]
  have keep: "entryAt fs k = entryAt (shared s) k" if "\<not> underKey ?b k" for k
    using that ef(1) underKey_trans [OF below(1)] by auto
  have outs: "entryAt fs (outputKey jobs fs0 j @ z) = entryAt (shared s) (outputKey jobs fs0 j @ z)"
    if j: "j < length jobs" "outputKey jobs fs0 j \<noteq> ?b" for j z
    using underKey_apart [OF at(5) [OF j(1) i(1) j(2)] at(5) [OF i(1) j(1)], of z] j(2) by (intro keep) auto
  have stgd: "entryAt fs (stagedKey jobs fs0 j @ z) = entryAt (shared s) (stagedKey jobs fs0 j @ z)" if j: "j < length jobs" for j z
    using underKey_apart [OF at(1) [OF j i(1)] at(2) [OF j i(1)]] by (intro keep)
  have suc: "succeeded (places ?t j) = succeeded (places s j)" for j using i(2) p(1) by auto
  have "stagedInv jobs fs0 ?t"
    using inv stgd suc by (auto simp: outputInv_def stagedInv_def vacant_def showsJob_def)
  moreover have "elsewhereInv jobs fs0 ?t"
    using inv i(1) ef(2) keep wfTree_osRemoveAll [OF wf rm] by (simp add: outputInv_def elsewhereInv_def)
  moreover have "outputsInv jobs fs0 ?t"
    unfolding outputsInv_iff
  proof (intro allI impI)
    fix j assume j: "j < length jobs"
    show "outputOk jobs fs0 ?t j"
    proof (cases "outputKey jobs fs0 j = ?b")
      case True
      have "j = i \<and> vacant ?b fs" if "places ?t j = LastRename"
      proof -
        have "clearing (places s j)" using that i(2) by (auto split: if_splits)
        then have "j = i" using clearing_unique [OF que, of j i] at(4) [OF j i(1) True] i(2) by simp
        then show ?thesis using that p(1) ef(1) by (auto simp: vacant_def)
      qed
      moreover have "clearing (places ?t i)" using p(1) by auto
      ultimately show ?thesis using True i(1) unfolding outputOk_def by (metis proceed_simps(1))
    next
      case False
      then show ?thesis
        using inv j outs [OF j] i(2) by (intro outputOk_other) (auto simp: outputInv_def outputsInv_iff)
    qed
  qed
  ultimately show ?thesis using apart p(2) by (simp add: outputInv_def)
qed

text \<open>Into an empty place a rename always goes through, and an output that could be cleared still can.\<close>

lemma rename_into_vacant:
  assumes inv: "outputInv jobs fs0 s" and i: "i < length jobs" "\<not> succeeded (places s i)"
    and free: "vacant (outputKey jobs fs0 i) (shared s)"
  shows "isOk (osRename (fst (jobs ! i)) (snd (jobs ! i)) (shared s))"
proof -
  have apart: "jobsApart jobs fs0" and wf: "wfTree (shared s)" and stg: "stagedInv jobs fs0 s"
    using inv by (simp_all add: outputInv_def elsewhereInv_def)
  have pl: "fst (jobs ! i) \<noteq> []" "snd (jobs ! i) \<noteq> []" "entryAt fs0 (stagedKey jobs fs0 i) \<noteq> None"
    using jobsApart_at(6) [OF apart i(1) i(1)] by (simp_all add: placed_def stagedKey_def)
  have there: "entryAt (shared s) (stagedKey jobs fs0 i) = entryAt fs0 (stagedKey jobs fs0 i)"
    using stagedInvD [OF stg i, of "[]"] by simp
  have none: "entryAt (shared s) (outputKey jobs fs0 i) = None" using free [unfolded vacant_def, rule_format, of "[]"] by simp
  note ok = osRename_succeeds [OF pl(1,2), of "shared s", unfolded outputInv_keys [OF inv]]
  show ?thesis
    by (rule ok [of "the (entryAt fs0 (stagedKey jobs fs0 i))"])
      (use pl(3) there none wfTree_walk [OF wf] outputInv_parents [OF inv i(1)] jobsApart_at(1) [OF apart i(1) i(1)] in auto)
qed

lemma osRemoveAll_still_works:
  assumes "p \<noteq> []" and "snd (osRemoveAll p fs) = None" and "walkErr fs [] (fsKey fs p) = None"
    and "fsKey fs' p = fsKey fs p" and "walkErr fs' [] (fsKey fs p) = None"
  shows "snd (osRemoveAll p fs') = None"
  using assms by (auto simp: osRemoveAll_def Let_def split: if_splits)

lemma outputInv_removable:
  assumes inv: "outputInv jobs fs0 s" and i: "i < length jobs"
  shows "snd (osRemoveAll (snd (jobs ! i)) (shared s)) = None"
proof -
  have apart: "jobsApart jobs fs0" using inv by (simp add: outputInv_def)
  have pl: "snd (jobs ! i) \<noteq> []" "walkErr fs0 [] (fsKey fs0 (snd (jobs ! i))) = None"
    using jobsApart_at(6) [OF apart i i] by (simp_all add: placed_def)
  show ?thesis
    using osRemoveAll_still_works [OF pl(1) jobsApart_at(7) [OF apart i i] pl(2)] outputInv_keys [OF inv, of i]
      outputInv_parents [OF inv i] by (simp add: outputKey_def)
qed

lemma outputInv_step:
  assumes step: "outputStep jobs s t" and inv: "outputInv jobs fs0 s"
  shows "outputInv jobs fs0 t"
proof -
  have que: "queueInv jobs s" using inv by (simp add: outputInv_def)
  have q: "queueInv jobs t" using queueInv_step [OF step que] .
  have ctx: "contextError ctx \<noteq> None" if "ctx \<noteq> CtxLive" for ctx using that by simp
  note j = queueInv_fits(2) [OF que]
  show ?thesis
    using step
  proof (cases rule: outputStep.cases)
    case (out_first i staged out fs)
    then show ?thesis using outputInv_publish [OF inv, of i fs "Finished None"] j [of i] q by simp
  next
    case (out_second i staged out fs)
    then show ?thesis using outputInv_publish [OF inv, of i fs "Unlocking None"] j [of i] q by simp
  next
    case (out_last i staged out fs)
    then show ?thesis using outputInv_publish [OF inv, of i fs "Unlocking None"] j [of i] q by simp
  next
    case (out_removing i p fs)
    then show ?thesis
      using outputInv_remove [OF inv, of i p fs Removing] j [of i] q by (simp add: outputInv_keys [OF inv])
  next
    case (out_removed i fs)
    have "snd (jobs ! i) \<noteq> []"
      using inv jobsApart_at(6) [of jobs fs0 i i] j [of i] out_removed by (simp add: outputInv_def placed_def)
    then show ?thesis
      using outputInv_remove [OF inv, of i "snd (jobs ! i)" fs LastRename] j [of i] q out_removed
      by (simp add: outputInv_keys [OF inv])
  next
    case (out_not_removed i fs e)
    then show ?thesis using outputInv_removable [OF inv, of i] j [of i] by simp
  next
    case (out_last_fails i staged out e)
    then have "\<not> vacant (outputKey jobs fs0 i) (shared s)" using rename_into_vacant [OF inv, of i] j [of i] by auto
    then have "deliveredAt jobs fs0 (outputKey jobs fs0 i) s"
      using inv j [of i] out_last_fails by (auto simp: outputInv_def outputsInv_def)
    then show ?thesis using q out_last_fails by (intro outputInv_still [OF inv, of t i]) auto
  qed (use q ctx in \<open>auto intro!: outputInv_still [OF inv]\<close>)
qed

interpretation replacing: invariant_system "outputInit fs0" "outputStep jobs" "\<lambda>s. jobsApart jobs fs0 \<longrightarrow> outputInv jobs fs0 s"
  for fs0 jobs
  by unfold_locales (auto intro: outputInv_init outputInv_step)

interpretation queueing: invariant_system "outputInit fs0" "outputStep jobs" "queueInv jobs" for fs0 jobs
  by unfold_locales (auto intro: queueInv_init queueInv_step)

end
