(* ===== verification/Concurrent_Props.thy ===== *)
theory Concurrent_Props
  imports Concurrent_Output
begin

text \<open>
  What the steps of \<open>Concurrent_Output\<close> promise: a single call does what \<open>replace\<close> does, many calls end
  and never mix what they replace, and the one thing the lock does not prevent.
\<close>

section \<open>One call alone\<close>

text \<open>A first call that cannot rename at once gets the lock, and whoever is done gives it back.\<close>

lemma reach_second_rename:
  assumes "jobs ! 0 = (staged, out)" and "jobs \<noteq> []" and fails: "osRename staged out fs = Inl e"
  shows "\<exists>s. reach (outputInit fs) (outputStep jobs) s \<and> shared s = fs \<and> places s = (\<lambda>_. Entering)(0 := SecondRename)"
proof -
  let ?s0 = "outputInit fs"
  let ?s1 = "proceed 0 FirstRename fs ?s0"
  let ?s2 = "proceed 0 Locking fs ?s1"
  obtain l1 where l1: "joinQueue (Clean out) newPathLocks = (0, l1)" by (simp add: joinQueue_def newPathLocks_def)
  obtain l2 where l2: "sendGate 0 l1 = Some l2" using l1 by (auto simp: joinQueue_def newPathLocks_def sendGate_def)
  let ?s3 = "relock 0 (Selecting (Clean out) 0) l1 Locking ?s2"
  let ?s4 = "relock 0 (Holding (Clean out) 0) l2 SecondRename ?s3"
  have "outputStep jobs ?s0 ?s1" using out_live [of 0 jobs ?s0] assms(2) by (simp add: outputInit_def)
  moreover have "outputStep jobs ?s1 ?s2" using out_first_fails [of ?s1 0 jobs staged out e] assms(1) fails by simp
  moreover have "outputStep jobs ?s2 ?s3"
    using out_join [of ?s2 0 "Clean out" jobs 0 l1] l1 assms(1) by (simp add: outputInit_def lockInit_def)
  moreover have "outputStep jobs ?s3 ?s4" using out_granted [of ?s3 0 "Clean out" 0 l2] l2 by simp
  ultimately have "reach ?s0 (outputStep jobs) ?s4" by (meson reach_start reach_step)
  then show ?thesis by (intro exI [of _ ?s4]) (simp add: outputInit_def)
qed

lemma reach_finished:
  assumes "reach (outputInit fs) (outputStep jobs) s" and "places s i = Unlocking r"
  shows "\<exists>t. reach (outputInit fs) (outputStep jobs) t \<and> shared t = shared s \<and> places t = (places s)(i := Finished r)"
proof -
  have inv: "queueInv jobs s" using queueing.reach_inv [OF assms(1)] .
  then obtain g where g: "pcs (lockState s) i = Holding (Clean (snd (jobs ! i))) g"
    using queueInv_fits(1) [OF inv, of i] assms(2) by auto
  have "tokens (locks (lockState s)) g = 1" using gate_of_holder [OF _ g] inv by (simp add: queueInv_def)
  then obtain l where "receiveGate g (locks (lockState s)) = Some l" by (auto simp: receiveGate_def)
  note s1 = out_unlock [OF assms(2) g this, of jobs]
  let ?k = "Clean (snd (jobs ! i))"
  have "outputStep jobs (relock i (Leaving ?k) l (GivingUp r) s)
      (relock i Outside (releasePath ?k (locks (lockState (relock i (Leaving ?k) l (GivingUp r) s)))) (Finished r)
        (relock i (Leaving ?k) l (GivingUp r) s))"
    by (rule out_left) simp_all
  with s1 assms(1) show ?thesis by (intro exI conjI) (rule reach_step, rule reach_step, assumption+, simp_all)
qed

lemma reach_removing:
  assumes "jobs ! 0 = (staged, out)" and "jobs \<noteq> []" and fails: "osRename staged out fs = Inl e"
  shows "\<exists>s. reach (outputInit fs) (outputStep jobs) s \<and> shared s = fs \<and> places s = (\<lambda>_. Entering)(0 := Removing)"
proof -
  obtain s where s: "reach (outputInit fs) (outputStep jobs) s" "shared s = fs" "places s = (\<lambda>_. Entering)(0 := SecondRename)"
    using reach_second_rename [OF assms] by blast
  have "outputStep jobs s (proceed 0 Removing fs s)"
    using out_second_fails [of s 0 jobs staged out e] s(2,3) assms(1) fails by simp
  then have "reach (outputInit fs) (outputStep jobs) (proceed 0 Removing fs s)" using s(1) reach_step by metis
  then show ?thesis using s(3) by (intro exI [of _ "proceed 0 Removing fs s"]) simp
qed

lemma reach_last:
  assumes "jobs ! 0 = (staged, out)" and "jobs \<noteq> []" and fails: "osRename staged out fs = Inl e"
    and rm: "osRemoveAll out fs = (fs2, None)"
  shows "\<exists>s. reach (outputInit fs) (outputStep jobs) s \<and> shared s = fs2 \<and> places s = (\<lambda>_. Entering)(0 := LastRename)"
proof -
  obtain s where s: "reach (outputInit fs) (outputStep jobs) s" "shared s = fs" "places s = (\<lambda>_. Entering)(0 := Removing)"
    using reach_removing [OF assms(1-3)] by blast
  have "outputStep jobs s (proceed 0 LastRename fs2 s)" using out_removed [of s 0 jobs fs2] s(2,3) assms(1) rm by simp
  then have "reach (outputInit fs) (outputStep jobs) (proceed 0 LastRename fs2 s)" using s(1) reach_step by metis
  then show ?thesis using s(3) by (intro exI [of _ "proceed 0 LastRename fs2 s"]) simp
qed

lemma run_of_unlocking:
  assumes "reach (outputInit fs) (outputStep jobs) s" and "places s 0 = Unlocking r" and "res = (shared s, r)"
  shows "\<exists>t. reach (outputInit fs) (outputStep jobs) t \<and> (shared t, places t 0) = map_prod id Finished res"
proof -
  obtain t where "reach (outputInit fs) (outputStep jobs) t" "shared t = shared s" "places t = (places s)(0 := Finished r)"
    using reach_finished [OF assms(1,2)] by blast
  then show ?thesis using assms(3) by (intro exI [of _ t]) simp
qed

text \<open>What is left to do once a call has begun to clear its output, and what comes of it.\<close>

definition removalResult :: "string \<Rightarrow> string \<Rightarrow> filesystem \<Rightarrow> filesystem \<times> error option" where
  "removalResult staged out fs =
     (case osRemoveAll out fs of
        (fs2, Some e) \<Rightarrow> (fs2, Some e)
      | (fs2, None) \<Rightarrow> (case osRename staged out fs2 of Inl e \<Rightarrow> (fs2, Some e) | Inr fs3 \<Rightarrow> (fs3, None)))"

lemma run_removal:
  assumes jobs: "jobs ! 0 = (staged, out)" "jobs \<noteq> []" and fails: "osRename staged out fs = Inl e"
  shows "\<exists>t. reach (outputInit fs) (outputStep jobs) t \<and> (shared t, places t 0) = map_prod id Finished (removalResult staged out fs)"
proof -
  obtain fs2 r where rm: "osRemoveAll out fs = (fs2, r)" by (cases "osRemoveAll out fs")
  show ?thesis
  proof (cases r)
    case (Some x)
    obtain s where s: "reach (outputInit fs) (outputStep jobs) s" "shared s = fs" "places s = (\<lambda>_. Entering)(0 := Removing)"
      using reach_removing [OF assms] by blast
    have "outputStep jobs s (proceed 0 (Unlocking (Some x)) fs2 s)"
      using out_not_removed [of s 0 jobs fs2 x] s rm Some jobs by simp
    then show ?thesis using s(1) rm Some
      by (intro run_of_unlocking [of _ _ "proceed 0 (Unlocking (Some x)) fs2 s"]) (auto simp: removalResult_def intro: reach_step)
  next
    case None
    obtain s where s: "reach (outputInit fs) (outputStep jobs) s" "shared s = fs2" "places s = (\<lambda>_. Entering)(0 := LastRename)"
      using reach_last [OF assms] rm None by blast
    have "\<exists>fs3 r. outputStep jobs s (proceed 0 (Unlocking r) fs3 s) \<and> removalResult staged out fs = (fs3, r)"
      using out_last [of s 0 jobs staged out] out_last_fails [of s 0 jobs staged out] s(2,3) jobs(1) rm None
      by (cases "osRename staged out fs2") (auto simp: removalResult_def)
    then obtain fs3 r3 where "outputStep jobs s (proceed 0 (Unlocking r3) fs3 s)" "removalResult staged out fs = (fs3, r3)" by blast
    then show ?thesis using s(1)
      by (intro run_of_unlocking [of _ _ "proceed 0 (Unlocking r3) fs3 s"]) (auto intro: reach_step)
  qed
qed

text \<open>
  The steps are those of \<open>replace\<close>: whatever \<open>replace\<close> does when nobody else touches the disk or the
  lock, the disk it leaves and the result it returns, a single call reaches by them.
\<close>

lemma replace_is_a_run:
  "\<exists>s. reach (outputInit fs) (outputStep [(staged, out)]) s
     \<and> (shared s, places s 0) = map_prod id Finished (replace ctx Inr staged out fs)"
proof (cases "ctx = CtxLive")
  case False
  have "outputStep [(staged, out)] (outputInit fs) (proceed 0 (Finished (contextError ctx)) fs (outputInit fs))"
    using out_ended [of 0 "[(staged, out)]" "outputInit fs" ctx] False by (simp add: outputInit_def)
  then show ?thesis using False by (intro exI [of _ "proceed 0 (Finished (contextError ctx)) fs (outputInit fs)"]) (simp add: reach_one replace_def)
next
  case live: True
  show ?thesis
  proof (cases "osRename staged out fs")
    case (Inr fs1)
    let ?jobs = "[(staged, out)]"
    let ?s1 = "proceed 0 FirstRename fs (outputInit fs)"
    have "outputStep ?jobs (outputInit fs) ?s1" using out_live [of 0 ?jobs "outputInit fs"] by (simp add: outputInit_def)
    moreover have "outputStep ?jobs ?s1 (proceed 0 (Finished None) fs1 ?s1)"
      using out_first [of ?s1 0 ?jobs staged out fs1] Inr by simp
    ultimately have "reach (outputInit fs) (outputStep ?jobs) (proceed 0 (Finished None) fs1 ?s1)" by (meson reach_start reach_step)
    then show ?thesis using live Inr by (intro exI [of _ "proceed 0 (Finished None) fs1 ?s1"]) (simp add: replace_def)
  next
    case (Inl e)
    then have "replace ctx Inr staged out fs = removalResult staged out fs"
      using live by (simp add: replace_def removalResult_def split: prod.split option.split)
    then show ?thesis using run_removal [of "[(staged, out)]" staged out fs e] Inl by simp
  qed
qed

section \<open>The calls come to an end\<close>

text \<open>The steps a call has left, and what there is to remove.\<close>

fun stepsToGo :: "replacePc \<Rightarrow> lockPc \<Rightarrow> nat" where
  "stepsToGo Entering q = 9"
| "stepsToGo FirstRename q = 8"
| "stepsToGo Locking q = (if q = Outside then 7 else 6)"
| "stepsToGo SecondRename q = 5"
| "stepsToGo Removing q = 4"
| "stepsToGo LastRename q = 3"
| "stepsToGo (Unlocking r) q = 2"
| "stepsToGo (GivingUp r) q = 1"
| "stepsToGo (Finished r) q = 0"

definition callsLeft :: "(string \<times> string) list \<Rightarrow> outputSystem \<Rightarrow> nat" where
  "callsLeft jobs s = (\<Sum>i < length jobs. stepsToGo (places s i) (pcs (lockState s) i))"

lemma callsLeft_less:
  assumes "i < length jobs" and "stepsToGo (places t i) (pcs (lockState t) i) < stepsToGo (places s i) (pcs (lockState s) i)"
    and "\<And>j. j \<noteq> i \<Longrightarrow> places t j = places s j \<and> pcs (lockState t) j = pcs (lockState s) j"
  shows "callsLeft jobs t < callsLeft jobs s"
  unfolding callsLeft_def
proof (rule sum_strict_mono_ex1)
  show "\<forall>j \<in> {..<length jobs}. stepsToGo (places t j) (pcs (lockState t) j) \<le> stepsToGo (places s j) (pcs (lockState s) j)"
    using assms(2,3) by (metis less_imp_le order_refl)
  show "\<exists>j \<in> {..<length jobs}. stepsToGo (places t j) (pcs (lockState t) j) < stepsToGo (places s j) (pcs (lockState s) j)"
    using assms(1,2) by blast
qed simp

lemma osRemoveAll_shrinks:
  assumes "osRemoveAll p fs = (fs', None)" and "entryAt fs (fsKey fs p) \<noteq> None" and "wfTree fs" and "p \<noteq> []"
  shows "length (ents fs') < length (ents fs)"
proof -
  have walk: "walkErr fs [] (fsKey fs p) = None" using wfTree_walk assms(2,3) by blast
  have ne: "fsKey fs p \<noteq> []" and e: "ents fs' = dropKeys (fsKey fs p) (ents fs)"
    using assms(1,2,4) walk by (auto simp: osRemoveAll_def Let_def split: if_splits)
  obtain v where "(fsKey fs p, v) \<in> set (ents fs)" using assms(2) ne by (auto simp: entryAt_def dest: map_of_SomeD)
  then show ?thesis unfolding e dropKeys_def by (intro length_filter_less) auto
qed

lemma outputStep_decreases:
  assumes step: "outputStep jobs s t" and que: "queueInv jobs s" and wf: "wfTree (shared s)"
  shows "callsLeft jobs t < callsLeft jobs s \<or> callsLeft jobs t = callsLeft jobs s \<and> length (ents (shared t)) < length (ents (shared s))"
  using step
proof (cases rule: outputStep.cases)
  case (out_removing i p fs)
  then have "callsLeft jobs t = callsLeft jobs s" by (simp add: callsLeft_def) (rule sum.cong, auto)
  then show ?thesis using osRemoveAll_shrinks [of p "shared s" fs] out_removing wf by simp
qed (use queueInv_fits(2) [OF que] in \<open>auto intro!: disjI1 callsLeft_less\<close>)

text \<open>A step in which a call stops waiting for the lock.\<close>

definition givesUp :: "outputSystem \<Rightarrow> outputSystem \<Rightarrow> bool" where
  "givesUp s t \<longleftrightarrow> (\<exists>i r. places s i = Locking \<and> places t i = GivingUp r)"

text \<open>A call that is not waiting for the lock can always take its next step.\<close>

lemma call_moves:
  assumes que: "queueInv jobs s" and i: "i < length jobs" "places s i \<noteq> Locking" "\<forall>r. places s i \<noteq> Finished r"
  shows "\<exists>t. outputStep jobs s t \<and> \<not> givesUp s t"
proof -
  obtain staged out where job: "jobs ! i = (staged, out)" by (cases "jobs ! i")
  have other: "\<not> givesUp s (proceed i p fs s)" "\<not> givesUp s (relock i q l p s)" for p fs q l
    using i(2) by (auto simp: givesUp_def split: if_splits)
  note fits = queueInv_fits(1) [OF que, of i]
  have rn: "(\<exists>fs. osRename staged out (shared s) = Inr fs) \<or> (\<exists>e. osRename staged out (shared s) = Inl e)"
    by (cases "osRename staged out (shared s)") auto
  show ?thesis
  proof (cases "places s i")
    case Entering
    then show ?thesis using out_live [of i jobs s] i(1) other by blast
  next
    case FirstRename
    then show ?thesis using rn out_first [OF _ job] out_first_fails [OF _ job] other by blast
  next
    case SecondRename
    then show ?thesis using rn out_second [OF _ job] out_second_fails [OF _ job] other by blast
  next
    case Removing
    obtain fs r where "osRemoveAll (snd (jobs ! i)) (shared s) = (fs, r)" by (cases "osRemoveAll (snd (jobs ! i)) (shared s)")
    then show ?thesis
      using out_removed [OF Removing] out_not_removed [OF Removing] other by (cases r) blast+
  next
    case LastRename
    then show ?thesis using rn out_last [OF _ job] out_last_fails [OF _ job] other by blast
  next
    case (Unlocking r)
    then obtain g where g: "pcs (lockState s) i = Holding (Clean (snd (jobs ! i))) g" using fits by auto
    then have "\<exists>l. receiveGate g (locks (lockState s)) = Some l"
      using gate_of_holder [OF _ g] que by (simp add: queueInv_def receiveGate_def)
    then show ?thesis using out_unlock [OF Unlocking g] other by blast
  next
    case (GivingUp r)
    then show ?thesis using out_left [OF GivingUp, of _ jobs] fits other by fastforce
  qed (use i in auto)
qed

lemma calls_progress:
  assumes que: "queueInv jobs s" and i: "i < length jobs" "\<forall>r. places s i \<noteq> Finished r"
  shows "\<exists>t. outputStep jobs s t \<and> \<not> givesUp s t"
proof (cases "\<exists>j < length jobs. places s j \<noteq> Locking \<and> (\<forall>r. places s j \<noteq> Finished r)")
  case True
  then show ?thesis using call_moves [OF que] by blast
next
  case False
  then have at: "places s i = Locking" and rest: "places s j = Locking \<or> (\<exists>r. places s j = Finished r) \<or> places s j = Entering" for j
    using i queueInv_fits(2) [OF que, of j] by blast+
  have none: "pcs (lockState s) j \<noteq> Holding k h" for j k h
    using rest [of j] queueInv_fits(1) [OF que, of j] by auto
  have stays: "\<not> givesUp s (relock i q l p s)" if "\<forall>r. p \<noteq> GivingUp r" for q l p
    using that by (auto simp: givesUp_def split: if_splits)
  consider "pcs (lockState s) i = Outside" | g where "pcs (lockState s) i = Selecting (Clean (snd (jobs ! i))) g"
    using queueInv_fits(1) [OF que, of i] at by auto
  then show ?thesis
  proof cases
    case 1
    obtain g l where "joinQueue (Clean (snd (jobs ! i))) (locks (lockState s)) = (g, l)"
      by (cases "joinQueue (Clean (snd (jobs ! i))) (locks (lockState s))")
    from out_join [OF at 1 refl this] show ?thesis using stays by blast
  next
    case (2 g)
    have "lockInv (lockState s)" using que by (simp add: queueInv_def)
    then obtain l where "sendGate g (locks (lockState s)) = Some l" using free_gate [OF _ 2] none by blast
    from out_granted [OF at 2 this] show ?thesis using stays by blast
  qed
qed

section \<open>Many calls at once\<close>

text \<open>
  C15. Downloads that replace outputs at the same time, the same one or different ones, never mix. At any
  moment at most one of them is clearing an output. While none is, the output is whole: untouched if no
  call for it has succeeded, and otherwise exactly what one of those that succeeded had staged. What a
  call that has not succeeded had staged is still there as it was, what one that has had staged is gone,
  and nothing but the staged entries and the outputs has changed.
\<close>

theorem concurrent_replace_whole:
  assumes "jobsApart jobs fs0" and "reach (outputInit fs0) (outputStep jobs) s" and "i < length jobs"
  shows "(\<forall>j. j < length jobs \<and> outputKey jobs fs0 j = outputKey jobs fs0 i \<and> clearing (places s i) \<and> clearing (places s j) \<longrightarrow> j = i)
    \<and> ((\<forall>j < length jobs. outputKey jobs fs0 j = outputKey jobs fs0 i \<longrightarrow> \<not> clearing (places s j)) \<longrightarrow>
         deliveredAt jobs fs0 (outputKey jobs fs0 i) s \<or> untouchedAt jobs fs0 (outputKey jobs fs0 i) s)
    \<and> (if succeeded (places s i) then vacant (stagedKey jobs fs0 i) (shared s)
       else showsJob jobs fs0 i (stagedKey jobs fs0 i) (shared s))
    \<and> (\<forall>k. (\<forall>j < length jobs. \<not> underKey (stagedKey jobs fs0 j) k \<and> \<not> underKey (outputKey jobs fs0 j) k) \<longrightarrow>
         entryAt (shared s) k = entryAt fs0 k)"
proof -
  have inv: "outputInv jobs fs0 s" using replacing.reach_inv [OF assms(2)] assms(1) by blast
  then have parts: "queueInv jobs s" "stagedInv jobs fs0 s" "outputsInv jobs fs0 s" "elsewhereInv jobs fs0 s"
    by (simp_all add: outputInv_def)
  have "j = i" if "j < length jobs" "outputKey jobs fs0 j = outputKey jobs fs0 i" "clearing (places s i)" "clearing (places s j)" for j
    using clearing_unique [OF parts(1) that(4,3)] jobsApart_at(4) [OF assms(1) that(1) assms(3) that(2)] by blast
  then show ?thesis
    using parts(2-4) assms(3) unfolding stagedInv_def outputsInv_def elsewhereInv_def by blast
qed

text \<open>
  C17. Replacements come to an end without anybody having to give up. Each step leaves fewer steps to be
  made, or, inside \<open>RemoveAll\<close>, fewer entries on the disk; and until every call has returned there is a
  step that is not a call's deadline, so no call waits for a lock that nobody will release.
\<close>

theorem concurrent_replace_ends:
  assumes "jobsApart jobs fs0" and "reach (outputInit fs0) (outputStep jobs) s"
  shows "(\<forall>t. outputStep jobs s t \<longrightarrow>
        ((callsLeft jobs t, length (ents (shared t))), (callsLeft jobs s, length (ents (shared s)))) \<in> less_than <*lex*> less_than)
    \<and> ((\<forall>i < length jobs. \<exists>r. places s i = Finished r) \<or> (\<exists>t. outputStep jobs s t \<and> \<not> givesUp s t))"
proof -
  have inv: "outputInv jobs fs0 s" using replacing.reach_inv [OF assms(2)] assms(1) by blast
  then have "queueInv jobs s" "wfTree (shared s)" by (simp_all add: outputInv_def elsewhereInv_def)
  then show ?thesis using outputStep_decreases calls_progress by fastforce
qed

text \<open>
  Two downloads of different kinds to one output that is a directory: a file is staged for the first,
  a directory for the second.
\<close>

definition gapDisk :: filesystem where
  "gapDisk =
     \<lparr>cwd = [], clock = 5,
      ents = [([''d''], DirEntry), ([''d'', ''s''], DirEntry), ([''d'', ''s'', ''data''], FileEntry ''new''),
        ([''d'', ''t''], DirEntry), ([''d'', ''t'', ''data''], DirEntry), ([''d'', ''t'', ''data'', ''a''], FileEntry ''a''),
        ([''d'', ''out''], DirEntry), ([''d'', ''out'', ''old''], FileEntry ''old'')],
      mtimes = []\<rparr>"

definition gapJobs :: "(string \<times> string) list" where
  "gapJobs = [(''/d/s/data'', ''/d/out''), (''/d/t/data'', ''/d/out'')]"

lemma gap_keys:
  "fsKey fs ''/d/s/data'' = [''d'', ''s'', ''data'']" "fsKey fs ''/d/t/data'' = [''d'', ''t'', ''data'']"
  "fsKey fs ''/d/out'' = [''d'', ''out'']"
  by (simp_all add: fsKey_def isRooted_def pushElem.simps)

lemma gapDisk_apart: "jobsApart gapJobs gapDisk"
proof -
  have wf: "wfTree gapDisk" by (rule wfTree_list) (simp add: gapDisk_def entryAt_def)
  have rm: "snd (osRemoveAll ''/d/out'' gapDisk) = None"
    by (simp add: osRemoveAll_def Let_def gap_keys endsWithDot_code) (simp add: gapDisk_def entryAt_def)
  have pl: "placed ''/d/s/data'' ''/d/out'' gapDisk" "placed ''/d/t/data'' ''/d/out'' gapDisk"
    by (simp_all add: placed_def gap_keys underKey_def) (simp_all add: gapDisk_def entryAt_def)
  show ?thesis
    using wf rm pl
    by (simp add: jobsApart_def stagedKey_def outputKey_def gapJobs_def gap_keys underKey_def less_Suc_eq all_conj_distrib imp_conjL)
qed

lemma osRename_onto_directory:
  "entryAt fs (fsKey fs new) = Some DirEntry \<Longrightarrow> \<exists>e. osRename old new fs = Inl e"
  by (auto simp: osRename_def Let_def split: option.split)

text \<open>
  The lock does not cover the first rename, so the call that holds it can lose what it has cleared: a
  directory that another call puts into the gap makes the last rename fail. Both calls have all they
  need, and alone each succeeds; together the one that held the lock reports an error.
\<close>

theorem lock_holder_can_lose:
  "\<exists>s e. reach (outputInit gapDisk) (outputStep gapJobs) s
    \<and> places s 0 = Finished (Some e) \<and> places s 1 = Finished None
    \<and> entryAt (shared s) [''d'', ''out'', ''a''] = Some (FileEntry ''a'')
    \<and> entryAt (shared s) [''d'', ''s'', ''data''] = Some (FileEntry ''new'')"
proof -
  let ?R = "reach (outputInit gapDisk) (outputStep gapJobs)"
  have jobs: "gapJobs ! 0 = (''/d/s/data'', ''/d/out'')" "gapJobs ! 1 = (''/d/t/data'', ''/d/out'')" "length gapJobs = 2" "gapJobs \<noteq> []"
    by (simp_all add: gapJobs_def)
  note inv = replacing.reach_inv [of gapDisk gapJobs, rule_format, OF _ gapDisk_apart]
  have "entryAt gapDisk (fsKey gapDisk ''/d/out'') = Some DirEntry" by (simp add: gap_keys) (simp add: gapDisk_def entryAt_def)
  then obtain e where "osRename ''/d/s/data'' ''/d/out'' gapDisk = Inl e" using osRename_onto_directory by blast
  moreover obtain fs where "osRemoveAll ''/d/out'' gapDisk = (fs, None)"
    using jobsApart_at(7) [OF gapDisk_apart, of 0 0] jobs by (cases "osRemoveAll ''/d/out'' gapDisk") auto
  ultimately obtain s where s: "?R s" "places s = (\<lambda>_. Entering)(0 := LastRename)"
    using reach_last [OF jobs(1,4)] by blast
  let ?s1 = "proceed 1 FirstRename (shared s) s"
  have s1: "?R ?s1" using reach_step [OF s(1) out_live [of 1 gapJobs s]] jobs(3) s(2) by simp
  have "outputInv gapJobs gapDisk s" by (rule inv [OF s(1)])
  moreover have "outputKey gapJobs gapDisk 0 = outputKey gapJobs gapDisk 1" by (simp add: outputKey_def gapJobs_def)
  ultimately have "vacant (outputKey gapJobs gapDisk 1) (shared s)"
    using jobs(3) s(2) by (auto simp: outputInv_def outputsInv_def deliveredAt_def less_2_cases_iff)
  then have "isOk (osRename ''/d/t/data'' ''/d/out'' (shared s))"
    using rename_into_vacant [OF inv [OF s1], of 1] jobs by simp
  then obtain fs2 where fs2: "osRename ''/d/t/data'' ''/d/out'' (shared s) = Inr fs2"
    by (cases "osRename ''/d/t/data'' ''/d/out'' (shared s)") auto
  let ?s2 = "proceed 1 (Finished None) fs2 ?s1"
  have s2: "?R ?s2" using reach_step [OF s1 out_first [of ?s1 1 gapJobs]] jobs(2) fs2 by simp
  have keys: "stagedKey gapJobs gapDisk 0 = [''d'', ''s'', ''data'']" "stagedKey gapJobs gapDisk 1 = [''d'', ''t'', ''data'']"
    by (simp_all add: stagedKey_def gapJobs_def gap_keys)
  have out: "entryAt fs2 ([''d'', ''out''] @ z) = entryAt gapDisk ([''d'', ''t'', ''data''] @ z)" for z
    using osRename_effect(1) [OF fs2, of z] stagedInvD [of gapJobs gapDisk s 1 z] inv [OF s(1)] s(2) jobs(3) keys(2)
    by (simp add: gap_keys outputInv_def)
  have stg: "entryAt fs2 [''d'', ''s'', ''data''] = entryAt gapDisk [''d'', ''s'', ''data'']"
    using stagedInvD [of gapJobs gapDisk ?s2 0 "[]"] inv [OF s2] s(2) jobs(3) keys(1) by (simp add: outputInv_def)
  have disk: "entryAt gapDisk [''d'', ''t'', ''data''] = Some DirEntry" "entryAt gapDisk [''d'', ''t'', ''data'', ''a''] = Some (FileEntry ''a'')"
    "entryAt gapDisk [''d'', ''s'', ''data''] = Some (FileEntry ''new'')" by (simp_all add: gapDisk_def entryAt_def)
  obtain x where "osRename ''/d/s/data'' ''/d/out'' fs2 = Inl x"
    using osRename_onto_directory [of fs2 "''/d/out''"] out [of "[]"] disk(1) by (auto simp: gap_keys)
  then have "?R (proceed 0 (Unlocking (Some x)) fs2 ?s2)"
    using reach_step [OF s2 out_last_fails [of ?s2 0 gapJobs]] s(2) jobs(1) by simp
  from reach_finished [OF this, of 0 "Some x"] show ?thesis
    using out [of "[''a'']"] stg disk(2,3) by auto
qed

theorem concurrent_replace_whole_witness:
  "\<exists>s. reach (outputInit gapDisk) (outputStep gapJobs) s \<and> places s 1 = Finished None
    \<and> deliveredAt gapJobs gapDisk [''d'', ''out''] s \<and> jobsApart gapJobs gapDisk"
proof -
  obtain s e where s: "reach (outputInit gapDisk) (outputStep gapJobs) s" "places s 0 = Finished (Some e)" "places s 1 = Finished None"
    using lock_holder_can_lose by blast
  have two: "length gapJobs = 2" "outputKey gapJobs gapDisk 1 = [''d'', ''out'']"
    by (simp_all add: gapJobs_def outputKey_def gap_keys)
  have "\<not> clearing (places s j)" if "j < length gapJobs" for j
    using that s(2,3) two(1) by (auto simp: less_2_cases_iff)
  moreover have "\<not> untouchedAt gapJobs gapDisk [''d'', ''out''] s" using s(3) two by (auto simp: untouchedAt_def intro!: exI [of _ "Suc 0"])
  ultimately show ?thesis
    using concurrent_replace_whole [OF gapDisk_apart s(1), of 1] two s gapDisk_apart by auto
qed

theorem concurrent_replace_ends_witness:
  "\<exists>t. outputStep gapJobs (outputInit gapDisk) t \<and> \<not> givesUp (outputInit gapDisk) t"
proof -
  have "\<not> (\<forall>i < length gapJobs. \<exists>r. places (outputInit gapDisk) i = Finished r)"
    by (auto simp: gapJobs_def outputInit_def intro!: exI [of _ 0])
  then show ?thesis using concurrent_replace_ends [OF gapDisk_apart reach_start] by blast
qed

end
