(* ===== verification/Test_Teardown.thy ===== *)
theory Test_Teardown
  imports Test_Peers Test_Gateways
begin

text \<open>
  What the fixtures of \<open>internal/testpeer/testpeer.go\<close> leave to be closed. \<open>t.Cleanup\<close> puts a function on
  a stack that is run when the test ends, also when a fixture ends it by \<open>t.Fatal\<close>.
\<close>

section \<open>Fixtures and their cleanups\<close>

datatype part = PeerHost | PeerDHT | ServeContext | BitswapServer | GatewayServer

text \<open>
  A fixture's result, what it has closed itself, and what it has registered, in that order. \<open>started\<close> are
  the parts that were brought up, in that order.
\<close>

record 'a testRun =
  testResult :: "error + 'a"
  started :: "part list"
  closedEarly :: "part list"
  cleanups :: "part list"

text \<open>Statements in sequence: \<open>t.Fatal\<close> ends the test, and its cleanups run all the same.\<close>

definition thenRun :: "'a testRun \<Rightarrow> ('a \<Rightarrow> 'b testRun) \<Rightarrow> 'b testRun" where
  "thenRun r f =
     (case testResult r of
        Inl e \<Rightarrow> \<lparr>testResult = Inl e, started = started r, closedEarly = closedEarly r, cleanups = cleanups r\<rparr>
      | Inr x \<Rightarrow>
          (let r' = f x in
           \<lparr>testResult = testResult r', started = started r @ started r',
            closedEarly = closedEarly r @ closedEarly r', cleanups = cleanups r @ cleanups r'\<rparr>))"

definition plainRun :: "error + 'a \<Rightarrow> 'a testRun" where
  "plainRun r = \<lparr>testResult = r, started = [], closedEarly = [], cleanups = []\<rparr>"

definition testEnds :: "'a testRun \<Rightarrow> part list" where
  "testEnds r = closedEarly r @ rev (cleanups r)"

definition startPeerRun :: "'k peerEnv \<Rightarrow> testHost testRun" where
  "startPeerRun env =
     (case generateKey env of
        Inl e \<Rightarrow> plainRun (Inl (Wrapped ''generating peer identity'' e))
      | Inr priv \<Rightarrow>
          (case newHost env ''/ip4/127.0.0.1/tcp/0'' priv of
             Inl e \<Rightarrow> plainRun (Inl (Wrapped ''starting peer host'' e))
           | Inr h \<Rightarrow>
               (case newServerDht env h of
                  Some e \<Rightarrow>
                    \<lparr>testResult = Inl (Wrapped ''starting peer dht'' e), started = [PeerHost],
                     closedEarly = [PeerHost], cleanups = [PeerHost]\<rparr>
                | None \<Rightarrow>
                    \<lparr>testResult = Inr h, started = [PeerHost, PeerDHT], closedEarly = [],
                     cleanups = [PeerHost, PeerDHT]\<rparr>)))"

definition serveContentRun :: "('f, 'b, 'p, 'n, 'c) dagLib \<Rightarrow> string \<Rightarrow> (('n, 'c) blockstore \<times> 'c) testRun" where
  "serveContentRun lib bytes =
     (case serveContent lib bytes of
        Inl e \<Rightarrow> \<lparr>testResult = Inl e, started = [ServeContext], closedEarly = [], cleanups = [ServeContext]\<rparr>
      | Inr x \<Rightarrow>
          \<lparr>testResult = Inr x, started = [ServeContext, BitswapServer], closedEarly = [],
           cleanups = [ServeContext, BitswapServer]\<rparr>)"

definition ServeRun :: "'k peerEnv \<Rightarrow> ('f, 'b, 'p, 'n, 'c) dagLib \<Rightarrow> string \<Rightarrow> ('n, 'c) fixture testRun" where
  "ServeRun env lib bytes =
     thenRun (startPeerRun env) (\<lambda>h.
     thenRun (serveContentRun lib bytes) (\<lambda>(store, rt).
     plainRun (andThen (peerAddr h) (\<lambda>a. Inr \<lparr>fixtureAddr = a, fixtureRoot = rt, fixtureStore = store\<rparr>))))"

text \<open>
  The two gateways: the URL of the server, the root, and what answers below \<open>/ipfs/\<close> with the counter at
  zero. \<open>listen\<close> is the URL \<open>httptest.NewServer\<close> gets, \<open>bytesOf\<close> the encoding of a stored node.
\<close>

definition TrustlessGatewayRun :: "string \<Rightarrow> ('f, 'b, 'p, 'n, 'c) dagLib \<Rightarrow> (string \<Rightarrow> error + 'c) \<Rightarrow> ('c \<Rightarrow> string option)
    \<Rightarrow> ('n \<Rightarrow> string) \<Rightarrow> error \<Rightarrow> string
    \<Rightarrow> (string \<times> 'c \<times> (httpRequest \<Rightarrow> counter \<Rightarrow> httpAnswer \<times> counter) \<times> counter) testRun" where
  "TrustlessGatewayRun listen lib cidParse identityDigest bytesOf missing bytes =
     (case addUnixfsFile lib Map.empty bytes of
        Inl e \<Rightarrow> plainRun (Inl e)
      | Inr (store, rt) \<Rightarrow>
          \<lparr>testResult = Inr (listen, rt,
             ServeTrustlessGateway cidParse identityDigest
               (\<lambda>c. case store c of None \<Rightarrow> Inl missing | Some n \<Rightarrow> Inr (bytesOf n)), 0),
           started = [GatewayServer], closedEarly = [], cleanups = [GatewayServer]\<rparr>)"

definition WholeFileGatewayRun :: "string \<Rightarrow> string \<Rightarrow> string
    \<Rightarrow> (string \<times> (httpRequest \<Rightarrow> counter \<Rightarrow> httpAnswer \<times> counter) \<times> counter) testRun" where
  "WholeFileGatewayRun listen root servedBody =
     \<lparr>testResult = Inr (listen, ServeWholeFileGateway root servedBody, 0),
      started = [GatewayServer], closedEarly = [], cleanups = [GatewayServer]\<rparr>"

section \<open>Everything is closed\<close>

text \<open>
  Everything that was started is closed when the test ends, in the opposite order, and nothing else is;
  a host whose DHT does not start is closed at once, and once more at the end.
\<close>

definition tornDown :: "'a testRun \<Rightarrow> bool" where
  "tornDown r \<longleftrightarrow>
     cleanups r = started r \<and> (isOk (testResult r) \<longrightarrow> closedEarly r = []) \<and> set (closedEarly r) \<subseteq> set (started r)"

lemma tornDown_thenRun: "tornDown r \<Longrightarrow> (\<And>x. testResult r = Inr x \<Longrightarrow> tornDown (f x)) \<Longrightarrow> tornDown (thenRun r f)"
  by (cases "testResult r") (auto simp: tornDown_def thenRun_def Let_def)

lemma tornDown_plainRun: "tornDown (plainRun r)"
  by (simp add: tornDown_def plainRun_def)

lemma tornDown_startPeerRun: "tornDown (startPeerRun env)"
  using tornDown_plainRun
  by (auto simp: startPeerRun_def tornDown_def plainRun_def split: sum.split option.split)

lemma tornDown_serveContentRun: "tornDown (serveContentRun lib bytes)"
  by (auto simp: serveContentRun_def tornDown_def split: sum.split)

lemma tornDown_ServeRun: "tornDown (ServeRun env lib bytes)"
  unfolding ServeRun_def
  by (intro tornDown_thenRun tornDown_startPeerRun tornDown_serveContentRun)
    (auto simp: tornDown_plainRun split: prod.split)

lemma testEnds_tornDown: "tornDown r \<Longrightarrow> isOk (testResult r) \<Longrightarrow> testEnds r = rev (started r)"
  by (simp add: tornDown_def testEnds_def)

lemma ServeRun_result: "testResult (ServeRun env lib bytes) = Serve env lib bytes"
  by (auto simp: ServeRun_def Serve_def startPeerRun_def startPeer_def serveContentRun_def thenRun_def plainRun_def Let_def
      split: sum.split option.split prod.split)

text \<open>
  A peer that serves is taken down in the opposite order it was brought up: the bitswap server, its
  context, the DHT, the host. When it could not be brought up, what was of it is closed as well.
\<close>

theorem Serve_torn_down:
  "set (started (ServeRun env lib bytes)) \<subseteq> set (testEnds (ServeRun env lib bytes))
   \<and> (isOk (Serve env lib bytes) \<longrightarrow>
        testEnds (ServeRun env lib bytes) = [BitswapServer, ServeContext, PeerDHT, PeerHost])"
proof -
  note td = tornDown_ServeRun [of env lib bytes]
  have "started (ServeRun env lib bytes) = [PeerHost, PeerDHT, ServeContext, BitswapServer]" if "isOk (Serve env lib bytes)"
    using that unfolding ServeRun_result [symmetric]
    by (auto simp: ServeRun_def startPeerRun_def serveContentRun_def thenRun_def plainRun_def Let_def
        split: sum.splits option.splits prod.splits)
  moreover have "set (started (ServeRun env lib bytes)) \<subseteq> set (testEnds (ServeRun env lib bytes))"
    using td by (auto simp: tornDown_def testEnds_def)
  ultimately show ?thesis using testEnds_tornDown [OF td] by (simp add: ServeRun_result)
qed

end
