(* ===== verification/Size_Errors.thy ===== *)
theory Size_Errors
  imports Delivery Node_Props
begin

text \<open>
  Which errors the primary phase can end with, from the files it writes up to what \<open>getPrimary\<close> hands to
  \<open>Get\<close>: a size limit is never wrapped or joined on the way, so the caller can recognise it.
\<close>

section \<open>Errors of the libraries\<close>

text \<open>
  \<open>SizeLimitError\<close> is a type of this program, so an error that a library made does not carry one. For a
  DAG that leaves the errors of the readers out: what they are does not matter.
\<close>

definition foreign :: "error \<Rightarrow> bool" where
  "foreign e \<longleftrightarrow> asSizeLimit e = None"

lemma foreign_simps [simp]:
  "foreign ErrClosed" "foreign TimeoutError" "foreign Canceled" "foreign (OsError op p k)" "foreign (Errorf m as)"
  "\<not> foreign (SizeLimitError s l)" "foreign (Wrapped m e) = foreign e"
  by (simp_all add: foreign_def)

fun foreignNode :: "unode \<Rightarrow> bool"
  and foreignEntries :: "(string \<times> unode) list \<Rightarrow> bool" where
  "foreignNode (UDirectory es iterErr) \<longleftrightarrow> pred_option foreign iterErr \<and> foreignEntries es"
| "foreignNode nd \<longleftrightarrow> True"
| "foreignEntries [] \<longleftrightarrow> True"
| "foreignEntries ((name, child) # others) \<longleftrightarrow> foreignNode child \<and> foreignEntries others"

fun foreignResult :: "error + 'a \<Rightarrow> bool" where
  "foreignResult (Inl e) \<longleftrightarrow> foreign e"
| "foreignResult (Inr x) \<longleftrightarrow> True"

definition foreignAnswer :: "dagAnswer \<Rightarrow> bool" where
  "foreignAnswer dag \<longleftrightarrow> pred_option foreign (rootErr dag) \<and> foreignResult (unixfs dag) \<and> foreignResult (declaredSize dag)
     \<and> (\<forall>nd. unixfs dag = Inr nd \<longrightarrow> foreignNode nd)"

definition foreignEnv :: "('m, 'k, 'h) startEnv \<Rightarrow> bool" where
  "foreignEnv env \<longleftrightarrow> foreignResult (generateKey (keys env)) \<and> (\<forall>s. foreignResult (keyFromSeed (keys env) s))
     \<and> (\<forall>opts. pred_option foreign (connmgrNew env opts)) \<and> (\<forall>opts. foreignResult (libp2pNew env opts))
     \<and> (\<forall>h seeds conc. pred_option foreign (dhtNew env h seeds conc))"

text \<open>The error \<open>outputs.lock\<close> gives up with is the context's.\<close>

definition contextLock :: "(filesystem \<Rightarrow> error + filesystem) \<Rightarrow> bool" where
  "contextLock lock \<longleftrightarrow> (\<forall>g e. lock g = Inl e \<longrightarrow> (\<exists>ctx. contextError ctx = Some e))"

section \<open>The download\<close>

text \<open>An error that is the size limit itself, for the limit the caller gave, or carries none.\<close>

definition plainSize :: "int64 \<Rightarrow> error \<Rightarrow> bool" where
  "plainSize limit e \<longleftrightarrow> foreign e \<or> (\<exists>s. e = SizeLimitError s limit)"

lemma foreign_context: "contextError ctx = Some e \<Longrightarrow> foreign e"
  by (cases ctx) (auto simp: contextError_def Timeout_def)

lemma foreign_os:
  "osMkdir p fs = Inl e \<Longrightarrow> foreign e" "osRename p q fs = Inl e \<Longrightarrow> foreign e"
  "osRemoveAll p fs = (fs', Some e) \<Longrightarrow> foreign e"
  by (auto simp: osMkdir_def osRename_def osRemoveAll_def Let_def split: if_splits option.splits io_error.splits)

lemma sizeLimitWithTotals_plain: "sizeLimitWithTotals err written limit = Some e \<Longrightarrow> plainSize limit e"
  by (auto simp: sizeLimitWithTotals_def plainSize_def foreign_def split: option.splits)

lemma materialise_plain:
  "foreignNode nd \<Longrightarrow> materialise nd path limit w fs = (fs', w', Some e) \<Longrightarrow> plainSize limit e"
  "foreignEntries es \<Longrightarrow> pred_option foreign iterErr \<Longrightarrow> materialiseEntries es iterErr path limit w fs = (fs', w', Some e)
    \<Longrightarrow> plainSize limit e"
proof (induction nd path limit w fs and es iterErr path limit w fs arbitrary: fs' w' e and fs' w' e
    rule: materialise_materialiseEntries.induct)
  case (2 b path limit w fs)
  then show ?case using sizeLimitWithTotals_plain by (auto split: prod.splits)
next
  case (3 entries iterErr path limit w fs)
  then show ?case by (auto simp: plainSize_def dest: foreign_os split: sum.splits)
next
  case (6 name child rest iterErr path limit w fs)
  obtain fs1 w1 e1 where m: "materialise child (Join path name) limit w fs = (fs1, w1, e1)" by (metis prod_cases3)
  show ?case
  proof (cases "validEntryName name")
    case True
    then show ?thesis
      using "6.IH" [OF _] "6.prems" m by (cases e1) auto
  qed (use "6.prems" in \<open>auto simp: plainSize_def\<close>)
qed (auto simp: plainSize_def)

lemma claimScratch_foreign: "claimScratch dir pre rnds s = Inl e \<Longrightarrow> foreign e"
  unfolding foreign_def by (rule claimScratch_error)

lemma replace_foreign:
  assumes "replace ctx lock staged output fs = (fs', Some e)" and "contextLock lock"
  shows "foreign e"
proof -
  have "foreign x" if "lock g = Inl x" for g x using assms(2) that foreign_context by (auto simp: contextLock_def)
  then show ?thesis
    using assms(1) foreign_context foreign_os
    by (auto simp: replace_def split: if_splits sum.splits prod.splits option.splits)
qed

text \<open>
  The verified download fails over the size only with the size limit error itself, which names the limit
  the caller gave.
\<close>

lemma download_plain:
  assumes "foreignAnswer dag" and "contextLock lock" and "download dag ctx lock rnds output limit s = (s', Some e)"
  shows "plainSize limit e"
proof -
  consider (lib) "foreign e" | (hint) "sizeHint limit (declaredSize dag) = Some e"
    | (published) nd where "unixfs dag = Inr nd"
        "publishVia scratchPrefix ctx lock rnds (stageDag nd limit) output s = (s', Some e)"
    using assms(1,3) by (auto simp: download_def foreignAnswer_def split: option.splits sum.splits)
  then show ?thesis
  proof cases
    case hint
    then show ?thesis using assms(1)
      by (auto simp: sizeHint_def foreignAnswer_def plainSize_def split: if_splits sum.splits)
  next
    case published
    have stage: "plainSize limit x" if "stageDag nd limit dir fs = (fs1, Inl x)" for dir fs fs1 x
      using that materialise_plain(1) [of nd] assms(1) published(1)
      by (auto simp: stageDag_def Let_def foreignAnswer_def split: prod.splits option.splits)
    show ?thesis
      using published(2) stage claimScratch_foreign replace_foreign [OF _ assms(2)]
      by (auto simp: publishVia_def Let_def plainSize_def split: sum.splits prod.splits)
  qed (simp add: plainSize_def)
qed

section \<open>acquire\<close>

lemma startNode_foreign:
  assumes "foreignEnv env" and "startNode lib env cfg fs = (fs', td, Inl e)"
  shows "foreign e"
proof -
  have ident: "foreign x" if "nodeIdentity (keys env) sd = Inl x" for sd x
    using that assms(1) by (auto simp: nodeIdentity_def checkIdentitySeed_def foreignEnv_def split: option.splits if_splits)
      (metis foreignResult.simps(1))+
  have host: "foreign x" if "makeHost env cfg = Inl x" for x
    using that assms(1) ident
    by (auto simp: makeHost_def foreignEnv_def Let_def split: sum.splits option.splits)
      (metis foreignResult.simps(1) option.pred_inject(2))+
  have dht: "foreign x" if "dhtNew env h sds c = Some x" for h sds c x
    using that assms(1) by (metis foreignEnv_def option.pred_inject(2))
  have none: "foreign (noneReached cfg ctx)" for ctx
    using foreign_context by (auto simp: noneReached_def split: option.split)
  show ?thesis
    using assms(2) host dht none
    by (auto simp: startNode_def Let_def split: sum.splits option.splits if_splits prod.splits)
qed

text \<open>
  What \<open>acquire\<close> returns: a node - there or just started - or that the client is closed, that the context
  ended while another start was waited for, or the error of its own start.
\<close>

definition acquiredFrom :: "('m, 'x) addrLib_scheme \<Rightarrow> ('m, 'k, 'h) startEnv \<Rightarrow> ('m, 'd) nodeConfig
    \<Rightarrow> error + 'n \<Rightarrow> bool" where
  "acquiredFrom lib env cfg acquired \<longleftrightarrow>
     (case acquired of
        Inr n \<Rightarrow> True
      | Inl e \<Rightarrow> e = ErrClosed \<or> (\<exists>ctx. contextError ctx = Some e) \<or> (\<exists>fs fs' td. startNode lib env cfg fs = (fs', td, Inl e)))"

text \<open>
  The primary phase as the program runs it: a goroutine that acquires a node and downloads with it, under
  whatever the libraries, the context and the output lock make of it, and a select that finds its result
  or, the context being done, does not.
\<close>

definition programPrimary :: "('m, 'x) addrLib_scheme \<Rightarrow> ('m, 'k, 'h) startEnv \<Rightarrow> ('m, 'd) nodeConfig
    \<Rightarrow> string \<Rightarrow> int64 \<Rightarrow> primaryRun \<Rightarrow> bool" where
  "programPrimary lib env cfg output limit p \<longleftrightarrow>
     (\<forall>budget s. \<exists>(acquired :: error + unit) dag ctx lock rnds s' r atSelect.
        acquiredFrom lib env cfg acquired \<and> foreignAnswer dag \<and> contextLock lock
        \<and> primaryGoroutine acquired (\<lambda>n. download dag ctx lock rnds output limit) s = (s', r)
        \<and> (p budget s = (s', ResultReady r atSelect) \<or> p budget s = (s', CtxDone atSelect (Some r))
           \<or> snd (p budget s) = CtxDone atSelect None))"

lemma awaitDownload_plain:
  assumes "\<And>e. r = Some e \<Longrightarrow> plainSize limit e" and "awaitDownload sel = Some e"
    and "sel = ResultReady r ctx \<or> sel = CtxDone ctx (Some r) \<or> sel = CtxDone ctx None"
  shows "plainSize limit e"
  using assms foreign_context by (auto simp: plainSize_def split: option.splits if_splits)

lemma primary_plain:
  assumes "programPrimary lib env cfg output limit p" and "foreignEnv env" and "awaitDownload (snd (p budget s)) = Some e"
  shows "plainSize limit e"
proof -
  obtain acquired :: "error + unit" and dag ctx lock rnds s' r atSelect where
    a: "acquiredFrom lib env cfg acquired" "foreignAnswer dag" "contextLock lock"
    and run: "primaryGoroutine acquired (\<lambda>n. download dag ctx lock rnds output limit) s = (s', r)"
    and sel: "snd (p budget s) = ResultReady r atSelect \<or> snd (p budget s) = CtxDone atSelect (Some r)
      \<or> snd (p budget s) = CtxDone atSelect None"
    using assms(1) unfolding programPrimary_def by (metis snd_conv)
  have "plainSize limit x" if "r = Some x" for x
  proof (cases acquired)
    case (Inl y)
    then have "foreign x"
      using a(1) run that foreign_context startNode_foreign [OF assms(2)]
      by (auto simp: acquiredFrom_def primaryGoroutine_def)
    then show ?thesis by (simp add: plainSize_def)
  next
    case (Inr n)
    then show ?thesis using download_plain [OF a(2,3)] run that by (simp add: primaryGoroutine_def)
  qed
  then show ?thesis using awaitDownload_plain assms(3) sel by blast
qed

section \<open>Properties\<close>

text \<open>
  C27. The Kotlin wrapper can tell content that is too large from any other failure. Whenever the
  error \<open>Get\<close> returns carries a size limit anywhere inside, it is that error itself, unwrapped and
  unjoined, so its message starts with the prefix the wrapper selects on. A size limit found in the
  primary phase - by the size the DAG declares or while its files are written - names the limit the caller
  gave and is what is returned, with no gateway asked. Of the libraries this needs only that the errors they
  make are their own (\<open>foreign\<close>): those of the CID parser, the DAG, the host, the DHT and the keys.
\<close>

theorem Get_size_limit_is_bare:
  assumes "programPrimary lib env cfg output limit (primary g)" and "foreignEnv env" and "foreignResult (parsedCid g)"
    and "Get pf c g cidStr output limit w = (w', Some e)"
  shows "(asSizeLimit e \<noteq> None \<longrightarrow> (\<exists>s l. e = SizeLimitError s l) \<and> hasMessagePrefix fmtf sizeLimitPrefix e)
    \<and> (\<forall>parsed w1 e1. parsedCid g = Inr parsed
          \<and> getPrimary (primary g) (primaryDeadline c (timeLeft g)) w = (w1, Some e1) \<and> asSizeLimit e1 \<noteq> None \<longrightarrow>
          (\<exists>s. e1 = SizeLimitError s limit) \<and> e = e1 \<and> w' = w1)"
proof -
  have plain: "plainSize limit x" if "awaitDownload (snd (primary g budget s)) = Some x" for budget s x
    using primary_plain [OF assms(1,2) that] .
  have "bareSizeLimit x" if "plainSize limit x" for x
    using that by (cases x) (auto simp: plainSize_def foreign_def)
  moreover have "asSizeLimit x = None" if "parsedCid g = Inl x" for x using assms(3) that by (simp add: foreign_def)
  ultimately have made: "errorsAsMade g" using plain by (auto simp: errorsAsMade_def)
  have "(\<exists>s. e1 = SizeLimitError s limit) \<and> e = e1 \<and> w' = w1"
    if p: "parsedCid g = Inr parsed" "getPrimary (primary g) (primaryDeadline c (timeLeft g)) w = (w1, Some e1)"
      "asSizeLimit e1 \<noteq> None" for parsed w1 e1
  proof -
    obtain s where "e1 = SizeLimitError s limit"
      using plain [OF getPrimary_error [OF p(2)]] p(3) by (auto simp: plainSize_def foreign_def)
    then show ?thesis using Get_size_limit [OF made assms(4)] p(1,2) by blast
  qed
  then show ?thesis using Get_size_limit [OF made assms(4)] by blast
qed

text \<open>A file of six bytes that declares two, under a limit of four.\<close>

definition bigDag :: dagAnswer where
  "bigDag = \<lparr>rootErr = None, unixfs = Inr (UFile \<lparr>avail = ''abcdef'', readErr = None\<rparr>), declaredSize = Inr 2\<rparr>"

definition bigRun :: getRun where
  "bigRun = fallbackRun\<lparr>primary := \<lambda>budget s. map_prod id (\<lambda>r. ResultReady r CtxLive)
     (primaryGoroutine (Inr () :: error + unit) (\<lambda>n. download bigDag CtxLive Inr [''1''] ''/d/out'' 4) s)\<rparr>"

lemma bigRun_primary: "programPrimary textLib deadEnv onePeer ''/d/out'' 4 (primary bigRun)"
  unfolding programPrimary_def
proof (intro allI)
  fix budget :: "int64 option" and s
  obtain s' r where "primaryGoroutine (Inr () :: error + unit) (\<lambda>n. download bigDag CtxLive Inr [''1''] ''/d/out'' 4) s = (s', r)"
    by (cases "primaryGoroutine (Inr () :: error + unit) (\<lambda>n. download bigDag CtxLive Inr [''1''] ''/d/out'' 4) s")
  moreover have "foreignAnswer bigDag" "contextLock Inr" by (simp_all add: foreignAnswer_def bigDag_def contextLock_def)
  moreover have "acquiredFrom textLib deadEnv onePeer (Inr () :: error + unit)" by (simp add: acquiredFrom_def)
  ultimately show "\<exists>(acquired :: error + unit) dag ctx lock rnds s' r atSelect.
        acquiredFrom textLib deadEnv onePeer acquired \<and> foreignAnswer dag \<and> contextLock lock
        \<and> primaryGoroutine acquired (\<lambda>n. download dag ctx lock rnds ''/d/out'' 4) s = (s', r)
        \<and> (primary bigRun budget s = (s', ResultReady r atSelect) \<or> primary bigRun budget s = (s', CtxDone atSelect (Some r))
           \<or> snd (primary bigRun budget s) = CtxDone atSelect None)"
    by (intro exI [of _ "Inr ()"] exI [of _ bigDag] exI [of _ CtxLive] exI [of _ Inr] exI [of _ "[''1'']"] exI [of _ s'] exI [of _ r])
       (simp add: bigRun_def)
qed

theorem Get_size_limit_is_bare_witness:
  "\<exists>w'. Get plainPlatform fallbackClient bigRun ''bafy'' ''/d/out'' 4 plainWorld = (w', Some (SizeLimitError 5 4))
     \<and> hasMessagePrefix (\<lambda>f args. f) sizeLimitPrefix (SizeLimitError 5 4)"
proof -
  have pub: "publishable scratchPrefix ''/d/out'' [''1''] (disk (scratch plainWorld))"
    using dataDisk_publishable by (simp add: plainWorld_def)
  obtain s' where d: "download bigDag CtxLive Inr [''1''] ''/d/out'' 4 (scratch plainWorld) = (s', Some (SizeLimitError 5 4))"
    using download_verdict [OF pub, of 4 bigDag _ 2] by (auto simp: bigDag_def)
  then have p: "getPrimary (primary bigRun) b plainWorld = (plainWorld\<lparr>scratch := s'\<rparr>, Some (SizeLimitError 5 4))" for b
    by (simp add: getPrimary_def bigRun_def primaryGoroutine_def)
  have parsed: "parsedCid bigRun = Inr ''bafy''" by (simp add: bigRun_def fallbackRun_def)
  obtain w' e where r: "Get plainPlatform fallbackClient bigRun ''bafy'' ''/d/out'' 4 plainWorld = (w', e)"
    by (cases "Get plainPlatform fallbackClient bigRun ''bafy'' ''/d/out'' 4 plainWorld")
  have "e \<noteq> None" using r p parsed by (auto simp: Get_def split: if_splits)
  then obtain x where x: "e = Some x" by blast
  have env: "foreignEnv deadEnv" by (simp add: foreignEnv_def deadEnv_def)
  have "foreignResult (parsedCid bigRun)" by (simp add: parsed)
  from Get_size_limit_is_bare [OF bigRun_primary env this r [unfolded x]]
  have "x = SizeLimitError 5 4" "hasMessagePrefix (\<lambda>f args. f) sizeLimitPrefix (SizeLimitError 5 4)"
    using parsed p by (auto split: prod.splits)
  then show ?thesis using r x by simp
qed

end
