(* ===== verification/Spec2Isabelle.thy ===== *)
theory Spec2Isabelle
  imports Refinements Get Resolver FFI Startup Test_Gateways Test_Peers Test_Stalled Closed_Client Concurrent_Props Test_Teardown Size_Errors
begin

text \<open>
  \<^bold>\<open>A verification development for ipfs-mobile\<close>

  ipfs-mobile downloads content from IPFS on a phone. An application calls the bindings of
  \<open>src/ffi/ffi.go\<close>; they build a \<open>Client\<close> (\<open>src/client/client.go\<close>) or use one for a single
  download. A client keeps one \<open>node\<close> (\<open>node.go\<close>: a libp2p host, a DHT and a block exchange)
  that its downloads share and that an idle timer closes. A download first asks the node, block by
  block and verified, under a deadline that leaves time for a second way; only when that fails, and
  only when the caller allowed it, it asks HTTP gateways for a tar archive nobody can verify
  (\<open>fallback.go\<close>). Either way content is staged in a directory of its own beside the output and
  moved onto it as a whole (\<open>output.go\<close>). What a node knows of the network comes from gateways
  (\<open>gateway.go\<close>), configured peers, a snapshot file (\<open>snapshot.go\<close>), DNS (\<open>resolver.go\<close>), content
  routers (\<open>routing.go\<close>) and is filtered by a dial gater (\<open>gater.go\<close>).

  \<^bold>\<open>How the program is modelled\<close>

  \<^item> Go strings and byte slices are lists of 8-bit characters, 64-bit integers are \<open>int\<close> with the
    wrap-around written out (\<open>wrap64\<close>), instants and durations are nanoseconds, an \<open>error\<close> is a
    value of the datatype \<open>error\<close> of \<open>Go_Errors\<close>, and a Go function that returns a value or an
    error returns \<open>error + 'a\<close>.
  \<^item> Functions that change state take it and return it. What changes behind their back - the clock,
    random names, the network, a lock waited for, the state of a context - is an argument, usually a
    record of what one run meets.
  \<^item> Goroutines that share state are inductive step relations: a step takes the shared state and one
    goroutine's place in the code to the next; a step that has to wait is not enabled. The steps are
    the sections the code runs under one lock, and the channel operations.
  \<^item> Code that is not under \<open>src/\<close> is an argument: libp2p, boxo, httpnet, multiaddr, multihash,
    \<open>cid.Parse\<close>, the HTTP exchange, Ed25519, SHA-256. Standard library functions that only compute on
    strings, paths and numbers are modelled in the theories named \<open>Go_\<close>.

  \<^bold>\<open>The theories\<close>

  \<^item> \<open>Prelude\<close>: 64-bit integers, results, and two interfaces: \<open>invariant_system\<close> (an invariant kept by
    every step holds in every reachable state) and \<open>simulation\<close> (a system whose steps an abstraction
    maps onto the steps of another). \<open>Go_Errors\<close>, \<open>Go_Strings\<close>, \<open>Go_Path\<close>, \<open>Go_Hex\<close>, \<open>Go_Net\<close>, \<open>Go_Url\<close>:
    errors and their wrapping, \<open>strings\<close> with \<open>utils/convert.go\<close>, \<open>path/filepath\<close>, \<open>encoding/hex\<close>,
    \<open>net\<close> and \<open>net/netip\<close> (addresses, hosts and ports), \<open>net/url\<close> (parsing, joining, printing) as of
    Go 1.25. \<open>Go_Net\<close> proves that every way to write an address is read back as its bytes, \<open>Go_Url\<close> that a
    URL made of plain parts parses into those parts and survives joining and printing.
  \<^item> \<open>File_System\<close>: the \<open>os\<close> calls the client makes, on a map from paths to files and directories.
  \<^item> \<open>Lifecycle\<close>, \<open>Lifecycle_Inv\<close>, \<open>Lifecycle_Props\<close>: \<open>acquire\<close>, \<open>release\<close>, \<open>closeIdle\<close> and \<open>Close\<close> of
    \<open>client.go\<close> as interleaving goroutines: every node that was started is owned by the client or by
    someone about to close it, none in use is closed, whoever waits for a start is woken, an idle node
    always has a timer armed or a sweep on its way that closes it, and a closed client stays closed.
  \<^item> \<open>Path_Locks\<close>: \<open>pathLocks\<close> of \<open>output.go\<close>. \<open>Refinements\<close>: the locks are one mutex for each path, and the
    client's node goes through four phases, step by step; both as simulations of a small abstract machine.
    \<open>Concurrent_Output\<close>, \<open>Concurrent_Props\<close>: \<open>replace\<close> run by many downloads at once, one step for each system
    call and lock operation: outputs are never mixed, the calls end, and the sequential \<open>replace\<close> is what
    one call does by these steps.
  \<^item> \<open>Scratch\<close>, \<open>Output\<close>, \<open>Staging\<close>: staging directories and the sweep of abandoned ones (\<open>node.go\<close>),
    \<open>replace\<close> (\<open>output.go\<close>), and the sequence claim, stage, replace, release that both download paths
    share. \<open>Staging\<close> states what a stager has to do as the locale \<open>staged_content\<close>; \<open>Download\<close> and
    \<open>Fallback\<close> interpret it with \<open>Materialise\<close> (a UnixFS DAG written to disk) and \<open>Tar_Extract\<close> (a tar
    archive unpacked). Both are exact on success and confined to the staging directory always, and whatever
    goes wrong the output is what it was and nothing staged is left (\<open>publishVia_effect\<close>).
    \<open>Limited_Write\<close> is \<open>writeLimited\<close>, which counts the bytes of an archive against the limit.
  \<^item> \<open>Cooldown\<close>, \<open>Fallback\<close>: hosts that asked for a pause and the run over the gateways. \<open>Deadline\<close>, \<open>Get\<close>:
    the share of the time the verified way may spend, the error that is returned, and when the
    fallback runs. \<open>Delivery\<close>: when downloads do succeed - the claim, the staging, \<open>replace\<close>, the run over the
    gateways and \<open>Get\<close>, each under the conditions it needs, and the exact verdict on a sound DAG.
    \<open>Size_Errors\<close> follows the errors from the writing of a file and the start of a node up to \<open>Get\<close>: a size limit
    is never wrapped on the way.
    \<open>Closed_Client\<close> puts \<open>Get\<close> among the goroutines of \<open>Lifecycle\<close>: what a download does once the client is closed.
  \<^item> \<open>Resolver\<close>, \<open>Gateway\<close>, \<open>Identity\<close>, \<open>Peers\<close>, \<open>Snapshot\<close>, \<open>Snapshot_Props\<close>, \<open>Routing\<close>, \<open>Delegated\<close>: what a
    node is configured from, one theory for each file, \<open>Peers\<close> holding \<open>parsePeers\<close>, the gater and
    \<open>snapshotWorth\<close>. \<open>Cooldown\<close> and \<open>Resolver\<close> share the locale \<open>expiring_store\<close>.
  \<^item> \<open>Client_New\<close>, \<open>Dials\<close>, \<open>Node\<close>, \<open>Node_Props\<close>, \<open>Startup\<close>: the constructor, the goroutines that dial,
    starting, redialling and closing a node, and a start together with the dials it waits for. \<open>FFI\<close>: the bindings and the one-shot download.

  \<^item> \<open>Test_Gateways\<close>, \<open>Test_Peers\<close>, \<open>Test_Stalled\<close>: the fixtures of \<open>internal/testpeer\<close> - two HTTP gateways, and
    peers that serve honest and hostile DAGs, with what the client does against each of them, and the listener
    that never answers, whose cleanup always ends and closes what was accepted. \<open>Test_Teardown\<close>: what the
    fixtures register to be closed when a test ends, and its order.

  \<^bold>\<open>What the lemmas show\<close>

  Each operation has its behaviour on every branch, errors included, as lemmas named after it. The
  file system lemmas say which paths an operation may change (\<open>sameOutside\<close>) and that the disk stays
  a tree (\<open>wfTree\<close>); the staging lemmas carry both through a download, so that the delivery theorems
  need only the facts of the stager. The concurrent components have an inductive invariant each, one
  lemma for each clause and step, and their properties follow for every reachable state and any
  number of goroutines. The properties state what a caller can rely on; a few state where the code
  does less than its comments promise.

  \<^bold>\<open>Bounds and termination\<close>

  Every function is total: recursion is over lists, trees, archives or a number of attempts the code
  fixes itself (the ten thousand names \<open>os.MkdirTemp\<close> tries are the list of names drawn). No fuel
  stands in for a loop. The dials, the calls of \<open>replace\<close> and the cleanup of the stalled listener, the
  goroutines that must all end, have a measure that every step decreases.

  \<^bold>\<open>What is coarser than the code\<close>

  \<^item> \<open>gatewayLoop\<close>: the timeout of an attempt and the cancelling by \<open>retired\<close> are what the attempt's context
    says when \<open>replace\<close> is reached (\<open>stepCtx\<close>), and what the answer and its archive are; the length of
    \<open>fallbackStepTimeout\<close> does not enter.
  \<^item> \<open>startNode\<close>: waiting for the first connection (\<open>awaitConnection\<close>) is \<open>Dials.awaitReady\<close>; the dial groups as
    they are when they are counted and when they are asked whether they are over are fields of its
    environment, and \<open>Startup\<close> ties them to the dialling goroutines.
  \<^item> \<open>Output\<close> and \<open>Concurrent_Output\<close> take \<open>os.Rename\<close>, which looks at the new name before it renames, as one
    step, and \<open>os.RemoveAll\<close> in the interleaved model as removals of single entries.
  \<^item> \<open>writeLimited\<close>: a write that fails is the same observation as a read that fails.
  \<^item> The delivery theorems of a single download take the other downloads not to change the disk while it runs
    (\<open>quietLock\<close>); how replacements interleave is \<open>Concurrent_Props\<close>.
  \<^item> The TXT cache reads the clock once for \<open>lookup\<close> and \<open>keep\<close> of one call.

  \<^bold>\<open>Not modelled\<close>

  \<^item> The Kotlin library, Gradle and CI files: glue in other languages.
  \<^item> \<open>LookupIPAddr\<close> (calls the default resolver), the hook \<open>onNodeStarted\<close> (only a test sets it), the settings
    of the HTTP transports, and log lines.
  \<^item> \<open>time.Parse\<close>, \<open>fmt\<close>'s verbs, and the libraries named above: arguments, with what is relied on as
    hypotheses where a property needs any.
\<close>

end
